(* ===== verification/Prelude.thy ===== *)
theory Prelude
  imports Main "HOL-Library.Word" "HOL-Library.AList" "HOL-Library.Sublist"
begin

text \<open>
  Shared vocabulary of the development: results and panics as values, the operations of
  Rust's \<^verbatim>\<open>str\<close> and integer parsing that the program uses, and lemmas on lists, options and
  association lists. A Rust string is the list of its UTF-8 bytes.
\<close>

section \<open>Collections\<close>

named_theorems result_simps \<open>inversion of the result combinators\<close>
named_theorems str_simps \<open>inversion of the string searches\<close>

section \<open>Results, panics and the question mark operator\<close>

text \<open>
  \<^verbatim>\<open>Result<A, E>\<close> is \<open>'e + 'a\<close>; a computation that may also panic has errors of type
  \<open>'e failure\<close>. \<open>Blocked\<close> is the end of a computation that waits for a notification nobody sends: it
  never returns. \<open>OutOfFuel\<close> is no outcome of the program: a bounded recursion of the model was cut
  off, and the theorems on fuel exclude it.
\<close>

datatype 'e failure = Err 'e | Panic string | Blocked | OutOfFuel

definition rbind :: "'e + 'a \<Rightarrow> ('a \<Rightarrow> 'e + 'b) \<Rightarrow> 'e + 'b" where
  "rbind m f = (case m of Inl e \<Rightarrow> Inl e | Inr x \<Rightarrow> f x)"

definition map_err :: "('e \<Rightarrow> 'f) \<Rightarrow> 'e + 'a \<Rightarrow> 'f + 'a" where
  "map_err g m = (case m of Inl e \<Rightarrow> Inl (g e) | Inr x \<Rightarrow> Inr x)"

definition map_ok :: "('a \<Rightarrow> 'b) \<Rightarrow> 'e + 'a \<Rightarrow> 'e + 'b" where
  "map_ok g m = (case m of Inl e \<Rightarrow> Inl e | Inr x \<Rightarrow> Inr (g x))"

definition ok_or :: "'e \<Rightarrow> 'a option \<Rightarrow> 'e + 'a" where
  "ok_or e m = (case m of None \<Rightarrow> Inl e | Some x \<Rightarrow> Inr x)"

definition is_ok :: "'e + 'a \<Rightarrow> bool" where
  "is_ok m = (case m of Inl _ \<Rightarrow> False | Inr _ \<Rightarrow> True)"

definition ok_opt :: "'e + 'a \<Rightarrow> 'a option" where
  "ok_opt m = (case m of Inl _ \<Rightarrow> None | Inr x \<Rightarrow> Some x)"

lemma rbind_simps [simp]: "rbind (Inl e) f = Inl e" "rbind (Inr x) f = f x"
  by (simp_all add: rbind_def)

lemma map_err_simps [simp]: "map_err g (Inl e) = Inl (g e)" "map_err g (Inr x) = Inr x"
  by (simp_all add: map_err_def)

lemma map_ok_simps [simp]: "map_ok g (Inl e) = Inl e" "map_ok g (Inr x) = Inr (g x)"
  by (simp_all add: map_ok_def)

lemma ok_or_simps [simp]: "ok_or e None = Inl e" "ok_or e (Some x) = Inr x"
  by (simp_all add: ok_or_def)

lemma is_ok_simps [simp]: "\<not> is_ok (Inl e)" "is_ok (Inr x)"
  by (simp_all add: is_ok_def)

lemma ok_opt_simps [simp]: "ok_opt (Inl e) = None" "ok_opt (Inr x) = Some x"
  by (simp_all add: ok_opt_def)

lemma rbind_eq_Inr [result_simps]: "rbind m f = Inr y \<longleftrightarrow> (\<exists>x. m = Inr x \<and> f x = Inr y)"
  by (cases m) auto

lemma rbind_eq_Inl [result_simps]:
  "rbind m f = Inl e \<longleftrightarrow> m = Inl e \<or> (\<exists>x. m = Inr x \<and> f x = Inl e)"
  by (cases m) auto

lemma map_err_eq_Inr [result_simps]: "map_err g m = Inr y \<longleftrightarrow> m = Inr y"
  by (cases m) auto

lemma map_err_eq_Inl [result_simps]: "map_err g m = Inl e \<longleftrightarrow> (\<exists>e'. m = Inl e' \<and> e = g e')"
  by (cases m) auto

lemma map_ok_eq_Inr [result_simps]: "map_ok g m = Inr y \<longleftrightarrow> (\<exists>x. m = Inr x \<and> y = g x)"
  by (cases m) auto

lemma map_ok_eq_Inl [result_simps]: "map_ok g m = Inl e \<longleftrightarrow> m = Inl e"
  by (cases m) auto

lemma ok_or_eq_Inr [result_simps]: "ok_or e m = Inr y \<longleftrightarrow> m = Some y"
  by (cases m) auto

lemma ok_or_eq_Inl [result_simps]: "ok_or e m = Inl e' \<longleftrightarrow> m = None \<and> e' = e"
  by (cases m) auto

lemma is_ok_iff [result_simps]: "is_ok m \<longleftrightarrow> (\<exists>x. m = Inr x)"
  by (cases m) auto

lemma ok_opt_eq_Some [result_simps]: "ok_opt m = Some x \<longleftrightarrow> m = Inr x"
  by (cases m) auto

lemma rbind_cong [fundef_cong]:
  "m = m' \<Longrightarrow> (\<And>x. m' = Inr x \<Longrightarrow> f x = g x) \<Longrightarrow> rbind m f = rbind m' g"
  by (cases m') auto

text \<open>Collecting an iterator of results: the first error, or all the values in order.\<close>

fun traverse :: "('a \<Rightarrow> 'e + 'b) \<Rightarrow> 'a list \<Rightarrow> 'e + 'b list" where
  "traverse f [] = Inr []"
| "traverse f (x # xs) = rbind (f x) (\<lambda>y. map_ok (\<lambda>ys. y # ys) (traverse f xs))"

lemma traverse_eq_Inr [result_simps]:
  "traverse f xs = Inr ys \<longleftrightarrow> list_all2 (\<lambda>x y. f x = Inr y) xs ys"
  by (induction xs arbitrary: ys) (auto simp: result_simps list_all2_Cons1)

lemma traverse_Inl: "traverse f xs = Inl e \<Longrightarrow> \<exists>x \<in> set xs. f x = Inl e"
  by (induction xs) (auto simp: result_simps)

lemma traverse_cong [fundef_cong]:
  "xs = ys \<Longrightarrow> (\<And>x. x \<in> set ys \<Longrightarrow> f x = g x) \<Longrightarrow> traverse f xs = traverse g ys"
proof (induction xs arbitrary: ys)
  case Nil
  then show ?case by simp
next
  case (Cons x xs)
  from Cons.prems have "f x = g x" and "traverse f xs = traverse g xs"
    using Cons.IH [of xs] by auto
  with Cons.prems(1) show ?case by auto
qed

section \<open>Lists\<close>

lemma set_map_filter_iff: "y \<in> set (List.map_filter f xs) \<longleftrightarrow> (\<exists>x \<in> set xs. f x = Some y)"
  by (induction xs) (auto simp: map_filter_simps split: option.splits)

section \<open>Searching and cutting strings\<close>

text \<open>\<^verbatim>\<open>str::split_once\<close> at an ASCII character.\<close>

fun split_once :: "char \<Rightarrow> string \<Rightarrow> (string \<times> string) option" where
  "split_once c [] = None"
| "split_once c (x # xs) =
     (if x = c then Some ([], xs) else map_option (\<lambda>(a, b). (x # a, b)) (split_once c xs))"

lemma split_once_Some [str_simps]: "split_once c s = Some (a, b) \<longleftrightarrow> s = a @ c # b \<and> c \<notin> set a"
proof (induction s arbitrary: a)
  case Nil
  then show ?case by simp
next
  case (Cons x s)
  then show ?case by (cases a) auto
qed

lemma split_once_None [str_simps]: "split_once c s = None \<longleftrightarrow> c \<notin> set s"
  by (induction s) auto

lemma split_once_append [simp]: "c \<notin> set a \<Longrightarrow> split_once c (a @ c # b) = Some (a, b)"
  by (simp add: split_once_Some)

lemma split_unique:
  fixes c :: char
  assumes "a @ c # b = a' @ c # b'" and "c \<notin> set a" and "c \<notin> set a'"
  shows "a = a' \<and> b = b'"
proof -
  have "Some (a, b) = split_once c (a @ c # b)"
    by (rule split_once_append [symmetric]) (rule assms(2))
  also have "\<dots> = split_once c (a' @ c # b')" by (simp only: assms(1))
  also have "\<dots> = Some (a', b')"
    by (rule split_once_append) (rule assms(3))
  finally show ?thesis by simp
qed

text \<open>\<^verbatim>\<open>str::find\<close> of one ASCII character: its byte index.\<close>

definition find_char :: "char \<Rightarrow> string \<Rightarrow> nat option" where
  "find_char c s = map_option (\<lambda>(a, b). length a) (split_once c s)"

lemma find_char_Some [str_simps]:
  "find_char c s = Some i \<longleftrightarrow> (\<exists>a b. s = a @ c # b \<and> c \<notin> set a \<and> i = length a)"
  by (auto simp: find_char_def split_once_Some)

lemma find_char_None [str_simps]: "find_char c s = None \<longleftrightarrow> c \<notin> set s"
  by (simp add: find_char_def split_once_None)

lemma find_char_append [simp]: "c \<notin> set a \<Longrightarrow> find_char c (a @ c # b) = Some (length a)"
  by (simp add: find_char_def)

definition ends_with_char :: "char \<Rightarrow> string \<Rightarrow> bool" where
  "ends_with_char c s = (s \<noteq> [] \<and> last s = c)"

definition starts_with_char :: "char \<Rightarrow> string \<Rightarrow> bool" where
  "starts_with_char c s = (s \<noteq> [] \<and> hd s = c)"

definition ends_with :: "string \<Rightarrow> string \<Rightarrow> bool" where
  "ends_with t s = suffix t s"

definition strip_suffix_char :: "char \<Rightarrow> string \<Rightarrow> string option" where
  "strip_suffix_char c s = (if ends_with_char c s then Some (butlast s) else None)"

text \<open>\<^verbatim>\<open>str::replace\<close> of one ASCII character by a string.\<close>

definition replace_char :: "char \<Rightarrow> string \<Rightarrow> string \<Rightarrow> string" where
  "replace_char c r s = concat (map (\<lambda>x. if x = c then r else [x]) s)"

lemma replace_char_simps [simp]:
  "replace_char c r [] = []"
  "replace_char c r (x # s) = (if x = c then r else [x]) @ replace_char c r s"
  "replace_char c r (s @ t) = replace_char c r s @ replace_char c r t"
  by (simp_all add: replace_char_def)

lemma replace_char_id [simp]: "c \<notin> set s \<Longrightarrow> replace_char c r s = s"
  by (induction s) auto

lemma set_replace_char: "set (replace_char c r s) \<subseteq> (set s - {c}) \<union> set r"
  by (induction s) auto

text \<open>The last piece of \<^verbatim>\<open>str::rsplit\<close>: everything after the last separator.\<close>

definition after_last :: "char \<Rightarrow> string \<Rightarrow> string" where
  "after_last c s = rev (takeWhile (\<lambda>x. x \<noteq> c) (rev s))"

lemma after_last_no_sep: "c \<notin> set (after_last c s)"
  unfolding after_last_def by (metis (mono_tags, lifting) set_rev set_takeWhileD)

lemma after_last_append [simp]: "c \<notin> set b \<Longrightarrow> after_last c (a @ c # b) = b"
proof -
  assume "c \<notin> set b"
  then have "takeWhile (\<lambda>x. x \<noteq> c) (rev b @ c # rev a) = rev b"
    by (subst takeWhile_append2) auto
  then show ?thesis by (simp add: after_last_def)
qed

lemma after_last_id [simp]: "c \<notin> set b \<Longrightarrow> after_last c b = b"
proof -
  assume "c \<notin> set b"
  then have "takeWhile (\<lambda>x. x \<noteq> c) (rev b) = rev b"
    unfolding takeWhile_eq_all_conv by auto
  then show ?thesis unfolding after_last_def by (simp only: rev_rev_ident)
qed

text \<open>\<^verbatim>\<open>[String]::join\<close>.\<close>

fun join_with :: "string \<Rightarrow> string list \<Rightarrow> string" where
  "join_with sep [] = []"
| "join_with sep [x] = x"
| "join_with sep (x # y # xs) = x @ sep @ join_with sep (y # xs)"

text \<open>\<^verbatim>\<open>str::split\<close> at one character: at least one piece.\<close>

fun split_on :: "char \<Rightarrow> string \<Rightarrow> string list" where
  "split_on c [] = [[]]"
| "split_on c (x # xs) =
     (if x = c then [] # split_on c xs
      else (case split_on c xs of [] \<Rightarrow> [[x]] | p # ps \<Rightarrow> (x # p) # ps))"

lemma split_on_not_Nil [simp]: "split_on c s \<noteq> []"
  by (induction s) (auto split: list.splits)

text \<open>\<^verbatim>\<open>str::lines\<close>: split at newlines, a final empty piece and a carriage return before a
  newline dropped.\<close>

definition strip_cr :: "string \<Rightarrow> string" where
  "strip_cr s = (if ends_with_char (CHR 0x0D) s then butlast s else s)"

definition str_lines :: "string \<Rightarrow> string list" where
  "str_lines s =
     (let ps = split_on (CHR 0x0A) s
      in if last ps = [] then map strip_cr (butlast ps)
         else map strip_cr (butlast ps) @ [last ps])"

section \<open>White space\<close>

text \<open>
  The length of the UTF-8 encoding of a \<^verbatim>\<open>White_Space\<close> character at the head of a byte
  string, \<open>0\<close> when there is none.
\<close>

definition ascii_ws :: "char \<Rightarrow> bool" where
  "ascii_ws c = (c \<in> set [CHR 0x09, CHR 0x0A, CHR 0x0B, CHR 0x0C, CHR 0x0D, CHR 0x20])"

fun ws_len :: "string \<Rightarrow> nat" where
  "ws_len [] = 0"
| "ws_len (a # s) =
     (if ascii_ws a then 1
      else if a = CHR 0xC2 \<and> take 1 s \<in> set [[CHR 0x85], [CHR 0xA0]] then 2
      else if a = CHR 0xE1 \<and> take 2 s = [CHR 0x9A, CHR 0x80] then 3
      else if a = CHR 0xE2 \<and> take 1 s = [CHR 0x80] \<and> length s \<ge> 2
            \<and> ((of_char (s ! 1) :: nat) \<in> {0x80..0x8A} \<union> {0xA8, 0xA9, 0xAF}) then 3
      else if a = CHR 0xE2 \<and> take 2 s = [CHR 0x81, CHR 0x9F] then 3
      else if a = CHR 0xE3 \<and> take 2 s = [CHR 0x80, CHR 0x80] then 3
      else 0)"

declare ws_len.simps [simp del]

lemma ws_len_Nil [simp]: "ws_len [] = 0"
  by (simp add: ws_len.simps)

lemma ws_len_ascii [simp]: "ascii_ws c \<Longrightarrow> ws_len (c # s) = 1"
  by (simp add: ws_len.simps)

lemma ws_len_plain:
  "(of_char c :: nat) < 128 \<Longrightarrow> \<not> ascii_ws c \<Longrightarrow> ws_len (c # s) = 0"
  by (auto simp: ws_len.simps)

fun trim_start_fuel :: "nat \<Rightarrow> string \<Rightarrow> string" where
  "trim_start_fuel 0 s = s"
| "trim_start_fuel (Suc n) s =
     (if ws_len s = 0 then s else trim_start_fuel n (drop (ws_len s) s))"

text \<open>Each turn drops at least one byte, so the length of the string is fuel enough.\<close>

definition trim_start :: "string \<Rightarrow> string" where
  "trim_start s = trim_start_fuel (length s) s"

lemma trim_start_fuel_done: "length s \<le> n \<Longrightarrow> ws_len (trim_start_fuel n s) = 0"
proof (induction n arbitrary: s)
  case 0
  then show ?case by simp
next
  case (Suc n)
  show ?case
  proof (cases "ws_len s = 0")
    case False
    then have "length (drop (ws_len s) s) \<le> n" using Suc.prems by simp
    with False Suc.IH show ?thesis by simp
  qed simp
qed

lemma trim_start_done: "ws_len (trim_start s) = 0"
  by (simp add: trim_start_def trim_start_fuel_done)

lemma trim_start_id: "ws_len s = 0 \<Longrightarrow> trim_start s = s"
  by (cases s) (simp_all add: trim_start_def)

text \<open>The end of the string: the longest white space character that is a suffix.\<close>

definition ws_suffix_len :: "string \<Rightarrow> nat" where
  "ws_suffix_len s =
     (if length s \<ge> 1 \<and> ws_len (drop (length s - 1) s) = 1 then 1
      else if length s \<ge> 2 \<and> ws_len (drop (length s - 2) s) = 2 then 2
      else if length s \<ge> 3 \<and> ws_len (drop (length s - 3) s) = 3 then 3
      else 0)"

fun trim_end_fuel :: "nat \<Rightarrow> string \<Rightarrow> string" where
  "trim_end_fuel 0 s = s"
| "trim_end_fuel (Suc n) s =
     (if ws_suffix_len s = 0 then s
      else trim_end_fuel n (take (length s - ws_suffix_len s) s))"

definition trim_end :: "string \<Rightarrow> string" where
  "trim_end s = trim_end_fuel (length s) s"

definition trim :: "string \<Rightarrow> string" where
  "trim s = trim_end (trim_start s)"

text \<open>\<^verbatim>\<open>s.chars().any(char::is_whitespace)\<close>.\<close>

fun has_whitespace :: "string \<Rightarrow> bool" where
  "has_whitespace [] = False"
| "has_whitespace (c # s) = (ws_len (c # s) > 0 \<or> has_whitespace s)"

section \<open>Decimal numbers\<close>

text \<open>\<^verbatim>\<open>Display\<close> of an unsigned integer and \<^verbatim>\<open>from_str\<close> of one with the bound \<open>m\<close>.\<close>

definition digit_char :: "nat \<Rightarrow> char" where
  "digit_char d = char_of (48 + d)"

definition char_digit :: "char \<Rightarrow> nat option" where
  "char_digit c =
     (let n = (of_char c :: nat) in if 48 \<le> n \<and> n \<le> 57 then Some (n - 48) else None)"

fun show_nat :: "nat \<Rightarrow> string" where
  "show_nat n = (if n < 10 then [digit_char n] else show_nat (n div 10) @ [digit_char (n mod 10)])"

declare show_nat.simps [simp del]

datatype parse_int_error = Empty | InvalidDigit | PosOverflow

fun parse_digits :: "nat \<Rightarrow> nat \<Rightarrow> string \<Rightarrow> parse_int_error + nat" where
  "parse_digits m acc [] = Inr acc"
| "parse_digits m acc (c # cs) =
     (case char_digit c of
        None \<Rightarrow> Inl InvalidDigit
      | Some d \<Rightarrow> if acc * 10 + d > m then Inl PosOverflow else parse_digits m (acc * 10 + d) cs)"

definition parse_unsigned :: "nat \<Rightarrow> string \<Rightarrow> parse_int_error + nat" where
  "parse_unsigned m s =
     (case s of
        [] \<Rightarrow> Inl Empty
      | c # cs \<Rightarrow>
          if cs = [] \<and> (c = CHR ''+'' \<or> c = CHR ''-'') then Inl InvalidDigit
          else if c = CHR ''+'' then parse_digits m 0 cs
          else parse_digits m 0 (c # cs))"

lemma of_char_digit: "d < 10 \<Longrightarrow> (of_char (digit_char d) :: nat) = 48 + d"
  by (simp add: digit_char_def)

lemma char_digit_digit_char [simp]: "d < 10 \<Longrightarrow> char_digit (digit_char d) = Some d"
  by (simp add: char_digit_def of_char_digit Let_def)

lemma digit_char_neq: "d < 10 \<Longrightarrow> (of_char c :: nat) < 48 \<or> 57 < (of_char c :: nat) \<Longrightarrow> digit_char d \<noteq> c"
  using of_char_digit [of d] by auto

lemma set_show_nat: "c \<in> set (show_nat n) \<Longrightarrow> \<exists>d < 10. c = digit_char d"
proof (induction n rule: show_nat.induct)
  case (1 n)
  have "\<exists>d < 10. digit_char (n mod 10) = digit_char d"
    by (rule exI [of _ "n mod 10"]) simp
  with 1 show ?case
    by (cases "n < 10") (auto simp: show_nat.simps [of n])
qed

lemma show_nat_not_Nil [simp]: "show_nat n \<noteq> []"
  by (subst show_nat.simps) simp

lemma show_nat_no_char: "(of_char c :: nat) < 48 \<or> 57 < (of_char c :: nat) \<Longrightarrow> c \<notin> set (show_nat n)"
  using set_show_nat digit_char_neq by metis

lemma parse_digits_append:
  "parse_digits m a (xs @ ys) = rbind (parse_digits m a xs) (\<lambda>b. parse_digits m b ys)"
  by (induction xs arbitrary: a) (auto split: option.splits)

lemma parse_digits_show_nat: "n \<le> m \<Longrightarrow> parse_digits m 0 (show_nat n) = Inr n"
proof (induction n rule: show_nat.induct)
  case (1 n)
  show ?case
  proof (cases "n < 10")
    case True
    with 1 show ?thesis by (simp add: show_nat.simps [of n])
  next
    case False
    with 1 have "parse_digits m 0 (show_nat (n div 10)) = Inr (n div 10)" by simp
    with False "1.prems" show ?thesis
      by (simp add: show_nat.simps [of n] parse_digits_append)
  qed
qed

lemma parse_unsigned_show_nat: "n \<le> m \<Longrightarrow> parse_unsigned m (show_nat n) = Inr n"
proof -
  assume le: "n \<le> m"
  obtain c cs where s: "show_nat n = c # cs" by (cases "show_nat n") auto
  then have "c \<in> set (show_nat n)" by simp
  with show_nat_no_char [of "CHR ''+''" n] show_nat_no_char [of "CHR ''-''" n]
  have "c \<noteq> CHR ''+''" and "c \<noteq> CHR ''-''" by auto
  with s parse_digits_show_nat [OF le] show ?thesis by (simp add: parse_unsigned_def)
qed

lemma parse_digits_bound: "parse_digits m a s = Inr n \<Longrightarrow> a \<le> m \<Longrightarrow> n \<le> m"
  by (induction m a s rule: parse_digits.induct) (auto split: option.splits if_splits)

lemma parse_unsigned_bound: "parse_unsigned m s = Inr n \<Longrightarrow> n \<le> m"
  unfolding parse_unsigned_def
  by (auto simp del: parse_digits.simps dest: parse_digits_bound split: list.splits if_splits)

section \<open>Association lists with distinct keys\<close>

text \<open>
  A Rust map is the association list of its entries in the order its iterator yields them,
  an order the program must not rely on for a \<^verbatim>\<open>HashMap\<close>; \<open>wf_map\<close> says that keys are
  distinct.
\<close>

definition wf_map :: "('k \<times> 'v) list \<Rightarrow> bool" where
  "wf_map m = distinct (map fst m)"

lemma wf_map_Nil [simp]: "wf_map []"
  by (simp add: wf_map_def)

lemma wf_map_update [simp]: "wf_map m \<Longrightarrow> wf_map (AList.update k v m)"
  by (simp add: wf_map_def distinct_update)

lemma map_of_update [simp]: "map_of (AList.update k v m) = (map_of m)(k \<mapsto> v)"
  by (simp add: update_conv')

lemma wf_map_lookup: "wf_map m \<Longrightarrow> (k, v) \<in> set m \<longleftrightarrow> map_of m k = Some v"
  by (simp add: wf_map_def)

lemma fst_set_update: "fst ` set (AList.update k v m) = insert k (fst ` set m)"
  by (simp add: dom_map_of_conv_image_fst [symmetric])

end
