(* ===== verification/Text_Format.thy ===== *)
theory Text_Format
  imports Prelude
begin

text \<open>
  The interface of a type with \<^verbatim>\<open>FromStr\<close> and \<^verbatim>\<open>Display\<close>: what printing and parsing promise
  each other. \<open>lib\<close> is the contract of the libraries the format is built on, under which the
  laws hold. Every textual type of the lockfile interprets one of these locales.
\<close>

locale text_format =
  fixes lib :: bool
    and parse :: "string \<Rightarrow> 'e + 'a"
    and print :: "'a \<Rightarrow> string"
    and valid :: "'a \<Rightarrow> bool"
  assumes parse_print: "lib \<Longrightarrow> valid x \<Longrightarrow> parse (print x) = Inr x"
begin

lemma print_inject: "lib \<Longrightarrow> valid x \<Longrightarrow> valid y \<Longrightarrow> print x = print y \<longleftrightarrow> x = y"
  by (metis parse_print sum.inject(2))

end

text \<open>A format that accepts valid values only: a second reading changes nothing.\<close>

locale checked_text_format = text_format +
  assumes parse_valid: "lib \<Longrightarrow> parse s = Inr x \<Longrightarrow> valid x"
begin

lemma reparse: "lib \<Longrightarrow> parse s = Inr x \<Longrightarrow> parse (print x) = Inr x"
  using parse_print parse_valid by blast

lemma valid_iff_parsed: "lib \<Longrightarrow> valid x \<longleftrightarrow> (\<exists>s. parse s = Inr x)"
  using parse_print parse_valid by blast

end

text \<open>A format with one spelling for each value: parsing loses nothing of the text.\<close>

locale exact_text_format = checked_text_format +
  assumes print_parse: "lib \<Longrightarrow> parse s = Inr x \<Longrightarrow> print x = s"
begin

lemma parse_iff: "lib \<Longrightarrow> parse s = Inr x \<longleftrightarrow> valid x \<and> s = print x"
  using parse_print parse_valid print_parse by blast

lemma parse_inject: "lib \<Longrightarrow> parse s = Inr x \<Longrightarrow> parse t = Inr x \<Longrightarrow> s = t"
  using print_parse by blast

end

end
