(* ===== verification/Extern.thy ===== *)
theory Extern
  imports Prelude
begin

text \<open>
  The third-party functions on names and versions that the program calls
  (\<^verbatim>\<open>split-first-char\<close>, \<^verbatim>\<open>node-semver\<close>) are parameters, gathered in one record; the predicates
  below are what the program relies on of their documentation. Values of type \<open>'v\<close> are
  versions, two that \<^verbatim>\<open>==\<close> identifies being the same value; \<open>'r\<close> are version ranges. The
  \<^verbatim>\<open>SemverError\<close> of a failed parse is its message.
\<close>

section \<open>The libraries\<close>

record ('v, 'r) extern =
  split_first_char :: "string \<Rightarrow> (char \<times> string) option"
  parse_version :: "string \<Rightarrow> string + 'v"
  show_version :: "'v \<Rightarrow> string"
  version_le :: "'v \<Rightarrow> 'v \<Rightarrow> bool"
  parse_range :: "string \<Rightarrow> string + 'r"
  satisfies :: "'v \<Rightarrow> 'r \<Rightarrow> bool"

text \<open>
  \<^verbatim>\<open>split_first_char\<close> cuts off the first character, or returns \<open>None\<close> for the empty string.
  The program compares that character with \<^verbatim>\<open>@\<close> only.
\<close>

definition split_first_ok :: "('v, 'r) extern \<Rightarrow> bool" where
  "split_first_ok X \<longleftrightarrow>
     split_first_char X [] = None
     \<and> (\<forall>s. split_first_char X (CHR ''@'' # s) = Some (CHR ''@'', s))
     \<and> (\<forall>c s. c \<noteq> CHR ''@'' \<longrightarrow>
          (\<exists>c' s'. split_first_char X (c # s) = Some (c', s') \<and> c' \<noteq> CHR ''@''))"

text \<open>
  A printed version parses to the same version, and the grammar of versions has no
  parenthesis, \<^verbatim>\<open>@\<close> or \<^verbatim>\<open>/\<close> and no empty word.
\<close>

definition delimiters :: "char set" where
  "delimiters = {CHR ''('', CHR '')'', CHR ''@'', CHR ''/''}"

definition version_text_ok :: "('v, 'r) extern \<Rightarrow> bool" where
  "version_text_ok X \<longleftrightarrow>
     (\<forall>v. parse_version X (show_version X v) = Inr v)
     \<and> (\<forall>s v. parse_version X s = Inr v \<longrightarrow> s \<noteq> [] \<and> set s \<inter> delimiters = {})"

text \<open>Versions are totally ordered (\<^verbatim>\<open>impl Ord for Version\<close>).\<close>

definition version_order_ok :: "('v, 'r) extern \<Rightarrow> bool" where
  "version_order_ok X \<longleftrightarrow>
     (\<forall>a b. version_le X a b \<or> version_le X b a)
     \<and> (\<forall>a b c. version_le X a b \<longrightarrow> version_le X b c \<longrightarrow> version_le X a c)
     \<and> (\<forall>a b. version_le X a b \<longrightarrow> version_le X b a \<longrightarrow> a = b)"

definition names_ok :: "('v, 'r) extern \<Rightarrow> bool" where
  "names_ok X \<longleftrightarrow> split_first_ok X \<and> version_text_ok X"

lemma names_okD: "names_ok X \<Longrightarrow> split_first_ok X" "names_ok X \<Longrightarrow> version_text_ok X"
  by (simp_all add: names_ok_def)

lemma split_first_simps:
  assumes "split_first_ok X"
  shows "split_first_char X [] = None"
    and "split_first_char X (CHR ''@'' # s) = Some (CHR ''@'', s)"
  using assms by (simp_all add: split_first_ok_def)

lemma split_first_other:
  assumes "split_first_ok X" and "c \<noteq> CHR ''@''"
  shows "\<exists>c' s'. split_first_char X (c # s) = Some (c', s') \<and> c' \<noteq> CHR ''@''"
  using assms by (simp add: split_first_ok_def)

lemma parse_show_version: "version_text_ok X \<Longrightarrow> parse_version X (show_version X v) = Inr v"
  by (simp add: version_text_ok_def)

lemma parse_version_plain:
  assumes "version_text_ok X" and "parse_version X s = Inr v"
  shows "s \<noteq> []" and "set s \<inter> delimiters = {}"
proof -
  from assms(1) have "\<forall>s v. parse_version X s = Inr v \<longrightarrow> s \<noteq> [] \<and> set s \<inter> delimiters = {}"
    unfolding version_text_ok_def by (rule conjunct2)
  from this [rule_format, OF assms(2)] show "s \<noteq> []" and "set s \<inter> delimiters = {}"
    by (rule conjunct1, rule conjunct2)
qed

lemmas show_version_plain = parse_version_plain [OF _ parse_show_version]

lemma show_version_not_in:
  "version_text_ok X \<Longrightarrow> c \<in> delimiters \<Longrightarrow> c \<notin> set (show_version X v)"
  using show_version_plain(2) [of X v] by auto

section \<open>An instance\<close>

text \<open>
  Plain three-part versions with exact, caret and wildcard ranges: an instance of the record
  that satisfies all three contracts, on which the closed examples evaluate.
\<close>

type_synonym ver3 = "nat \<times> nat \<times> nat"

datatype range3 = AnyRange | ExactRange ver3 | CaretRange ver3

definition split_first_ref :: "string \<Rightarrow> (char \<times> string) option" where
  "split_first_ref s = (case s of [] \<Rightarrow> None | c # cs \<Rightarrow> Some (c, cs))"

definition parse_part :: "string \<Rightarrow> nat option" where
  "parse_part s = ok_opt (parse_unsigned (10 ^ length s) s)"

definition parse_ver3 :: "string \<Rightarrow> string + ver3" where
  "parse_ver3 s =
     (if set s \<inter> delimiters \<noteq> {} then Inl ''Failed to parse version.'' else
      case split_once (CHR ''.'') s of
        None \<Rightarrow> Inl ''Failed to parse version.''
      | Some (a, r) \<Rightarrow>
          (case split_once (CHR ''.'') r of
             None \<Rightarrow> Inl ''Failed to parse version.''
           | Some (b, c) \<Rightarrow>
               (case (parse_part a, parse_part b, parse_part c) of
                  (Some x, Some y, Some z) \<Rightarrow> Inr (x, y, z)
                | _ \<Rightarrow> Inl ''Failed to parse version.'')))"

fun show_ver3 :: "ver3 \<Rightarrow> string" where
  "show_ver3 (x, y, z) = show_nat x @ ''.'' @ show_nat y @ ''.'' @ show_nat z"

fun ver3_le :: "ver3 \<Rightarrow> ver3 \<Rightarrow> bool" where
  "ver3_le (a, b, c) (x, y, z) = (a < x \<or> a = x \<and> (b < y \<or> b = y \<and> c \<le> z))"

definition parse_range3 :: "string \<Rightarrow> string + range3" where
  "parse_range3 s =
     (if s = ''*'' then Inr AnyRange
      else case s of
        c # cs \<Rightarrow> if c = CHR ''^'' then map_ok CaretRange (parse_ver3 cs)
                  else map_ok ExactRange (parse_ver3 s)
      | [] \<Rightarrow> Inl ''Failed to parse range.'')"

fun satisfies3 :: "ver3 \<Rightarrow> range3 \<Rightarrow> bool" where
  "satisfies3 v AnyRange = True"
| "satisfies3 v (ExactRange w) = (v = w)"
| "satisfies3 v (CaretRange w) = (fst v = fst w \<and> ver3_le w v)"

definition lib3 :: "(ver3, range3) extern" where
  "lib3 = \<lparr> split_first_char = split_first_ref, parse_version = parse_ver3,
            show_version = show_ver3, version_le = ver3_le,
            parse_range = parse_range3, satisfies = satisfies3 \<rparr>"

lemma lib3_simps [simp]:
  "split_first_char lib3 = split_first_ref" "parse_version lib3 = parse_ver3"
  "show_version lib3 = show_ver3" "version_le lib3 = ver3_le"
  "parse_range lib3 = parse_range3" "satisfies lib3 = satisfies3"
  by (simp_all add: lib3_def)

lemma show_nat_bound: "n < 10 ^ length (show_nat n)"
proof (induction n rule: show_nat.induct)
  case (1 n)
  show ?case
  proof (cases "n < 10")
    case False
    with 1 have "n div 10 < 10 ^ length (show_nat (n div 10))" by simp
    with False show ?thesis by (simp add: show_nat.simps [of n])
  qed (simp add: show_nat.simps [of n])
qed

lemma parse_part_show: "parse_part (show_nat n) = Some n"
  using parse_unsigned_show_nat [of n "10 ^ length (show_nat n)"] show_nat_bound [of n]
  by (simp add: parse_part_def less_imp_le)

lemma show_nat_delims [simp]: "set (show_nat n) \<inter> delimiters = {}"
  unfolding delimiters_def
  using show_nat_no_char [of "CHR ''(''" n] show_nat_no_char [of "CHR '')''" n]
    show_nat_no_char [of "CHR ''@''" n] show_nat_no_char [of "CHR ''/''" n] by auto

lemma dot_show_nat [simp]: "CHR ''.'' \<notin> set (show_nat n)"
  by (rule show_nat_no_char) simp

lemma set_show_ver3: "set (show_ver3 v) \<inter> delimiters = {}"
  by (cases v) (auto simp: delimiters_def show_nat_no_char)

lemma parse_show_ver3: "parse_ver3 (show_ver3 v) = Inr v"
proof (cases v)
  case (fields x y z)
  then show ?thesis
    using set_show_ver3 [of v] by (simp add: parse_ver3_def parse_part_show)
qed

lemma parse_ver3_text: "parse_ver3 s = Inr v \<Longrightarrow> s \<noteq> [] \<and> set s \<inter> delimiters = {}"
  by (auto simp: parse_ver3_def split: if_splits option.splits)

lemma names_ok_lib3 [simp]: "names_ok lib3"
  using parse_ver3_text
  by (auto simp: names_ok_def split_first_ok_def version_text_ok_def split_first_ref_def parse_show_ver3)

lemma version_order_ok_lib3 [simp]: "version_order_ok lib3"
  by (auto simp: version_order_ok_def)

end
