(* ===== verification/Lockfile_Names.thy ===== *)
theory Lockfile_Names
  imports Text_Format Extern
begin

text \<open>
  The textual types of \<^verbatim>\<open>crates/lockfile\<close>: \<^verbatim>\<open>ComVer\<close>, \<^verbatim>\<open>LockfileVersion\<close>, \<^verbatim>\<open>PkgName\<close>,
  \<^verbatim>\<open>PkgNameSuffix\<close>, \<^verbatim>\<open>PkgVerPeer\<close>, \<^verbatim>\<open>PkgNameVerPeer\<close> with its virtual store name, and
  \<^verbatim>\<open>DependencyPath\<close>. Each has the parser and the printer of the code and interprets a locale of
  \<^theory_text>\<open>Text_Format\<close>.
\<close>

section \<open>ComVer and LockfileVersion\<close>

record comver =
  cv_major :: "16 word"
  cv_minor :: "16 word"

datatype parse_comver_error =
    MissingDot
  | InvalidMajor parse_int_error
  | InvalidMinor parse_int_error

definition u16_from_str :: "string \<Rightarrow> parse_int_error + 16 word" where
  "u16_from_str s = map_ok of_nat (parse_unsigned 65535 s)"

definition comver_from_str :: "string \<Rightarrow> parse_comver_error + comver" where
  "comver_from_str s =
     rbind (ok_or MissingDot (split_once (CHR ''.'') s)) (\<lambda>(major, minor).
     rbind (map_err InvalidMajor (u16_from_str major)) (\<lambda>major.
     rbind (map_err InvalidMinor (u16_from_str minor)) (\<lambda>minor.
     Inr \<lparr> cv_major = major, cv_minor = minor \<rparr>)))"

definition comver_to_string :: "comver \<Rightarrow> string" where
  "comver_to_string c = show_nat (unat (cv_major c)) @ ''.'' @ show_nat (unat (cv_minor c))"

datatype lockfile_version_error = IncompatibleMajor comver

definition is_compatible :: "16 word \<Rightarrow> comver \<Rightarrow> bool" where
  "is_compatible MAJOR c = (cv_major c = MAJOR)"

definition lockfile_version_try_from :: "16 word \<Rightarrow> comver \<Rightarrow> lockfile_version_error + comver" where
  "lockfile_version_try_from MAJOR c =
     ok_or (IncompatibleMajor c) (if is_compatible MAJOR c then Some c else None)"

lemma u16_show: "u16_from_str (show_nat (unat (w :: 16 word))) = Inr w"
proof -
  have "unat w \<le> 65535" using unsigned_less [of w, where ?'a = nat] by simp
  then show ?thesis by (simp add: u16_from_str_def parse_unsigned_show_nat)
qed

lemma dot_not_in_show_nat [simp]: "CHR ''.'' \<notin> set (show_nat n)"
  by (rule show_nat_no_char) simp

interpretation comver_text: checked_text_format True comver_from_str comver_to_string "\<lambda>_. True"
proof (unfold_locales, goal_cases)
  case (1 c)
  show ?case
    by (simp add: comver_from_str_def comver_to_string_def u16_show del: append_assoc)
qed simp_all

section \<open>PkgName\<close>

record pkg_name =
  pn_scope :: "string option"
  pn_bare :: string

datatype parse_pkg_name_error = MissingName | EmptyName

definition pkg_name_parse :: "('v, 'r) extern \<Rightarrow> string \<Rightarrow> parse_pkg_name_error + pkg_name" where
  "pkg_name_parse X input =
     (case split_first_char X input of
        Some (c, rest) \<Rightarrow>
          if c = CHR ''@'' then
            rbind (ok_or MissingName (split_once (CHR ''/'') rest)) (\<lambda>(scope, bare).
            Inr \<lparr> pn_scope = Some scope, pn_bare = bare \<rparr>)
          else Inr \<lparr> pn_scope = None, pn_bare = input \<rparr>
      | None \<Rightarrow> Inl EmptyName)"

definition pkg_name_to_string :: "pkg_name \<Rightarrow> string" where
  "pkg_name_to_string n =
     (case pn_scope n of Some scope \<Rightarrow> ''@'' @ scope @ ''/'' | None \<Rightarrow> []) @ pn_bare n"

text \<open>The names that a parse can yield.\<close>

definition pkg_name_valid :: "pkg_name \<Rightarrow> bool" where
  "pkg_name_valid n =
     (case pn_scope n of
        Some scope \<Rightarrow> CHR ''/'' \<notin> set scope
      | None \<Rightarrow> pn_bare n \<noteq> [] \<and> hd (pn_bare n) \<noteq> CHR ''@'')"

lemma pkg_name_parse_at:
  "split_first_ok X \<Longrightarrow> pkg_name_parse X (CHR ''@'' # rest) =
     (case split_once (CHR ''/'') rest of
        None \<Rightarrow> Inl MissingName
      | Some (a, b) \<Rightarrow> Inr \<lparr> pn_scope = Some a, pn_bare = b \<rparr>)"
  by (auto simp: pkg_name_parse_def split_first_simps split: option.splits)

lemma pkg_name_parse_plain:
  assumes "split_first_ok X" and "c \<noteq> CHR ''@''"
  shows "pkg_name_parse X (c # s) = Inr \<lparr> pn_scope = None, pn_bare = c # s \<rparr>"
  using split_first_other [OF assms, of s] assms(2) by (auto simp: pkg_name_parse_def)

lemma pkg_name_parse_Nil: "split_first_ok X \<Longrightarrow> pkg_name_parse X [] = Inl EmptyName"
  by (simp add: pkg_name_parse_def split_first_simps)

lemmas pkg_name_parse_eqs = pkg_name_parse_Nil pkg_name_parse_at pkg_name_parse_plain

interpretation pkg_name_text: exact_text_format
    "split_first_ok X" "pkg_name_parse X" pkg_name_to_string pkg_name_valid
  for X :: "('v, 'r) extern"
proof (unfold_locales, goal_cases)
  case (1 n)
  show ?case
  proof (cases "pn_scope n")
    case None
    with 1 obtain c s where "pn_bare n = c # s" and "c \<noteq> CHR ''@''"
      by (cases "pn_bare n") (auto simp: pkg_name_valid_def)
    with 1 None show ?thesis
      by (cases n) (simp add: pkg_name_to_string_def pkg_name_parse_eqs)
  next
    case (Some a)
    with 1 show ?thesis
      by (cases n) (simp add: pkg_name_to_string_def pkg_name_parse_eqs pkg_name_valid_def)
  qed
next
  case (2 s n)
  then show ?case
    by (cases s; cases "hd s = CHR ''@''")
      (auto simp: pkg_name_parse_eqs pkg_name_valid_def str_simps split: option.splits)
next
  case (3 s n)
  then show ?case
    by (cases s; cases "hd s = CHR ''@''")
      (auto simp: pkg_name_parse_eqs pkg_name_to_string_def str_simps split: option.splits)
qed

section \<open>PkgNameSuffix\<close>

record 's pkg_name_suffix =
  ns_name :: pkg_name
  ns_suffix :: 's

datatype 'e parse_pkg_name_suffix_error =
    EmptyInput
  | MissingSuffix
  | SuffixEmptyName
  | ParseSuffixFailure 'e
  | ParseNameFailure parse_pkg_name_error

text \<open>The cut of the input into the name text and the suffix text.\<close>

definition split_name_suffix ::
    "('v, 'r) extern \<Rightarrow> string \<Rightarrow> 'e parse_pkg_name_suffix_error + (string \<times> string)" where
  "split_name_suffix X value =
     (case split_first_char X value of
        None \<Rightarrow> Inl EmptyInput
      | Some (c, rest) \<Rightarrow>
          if c = CHR ''@'' then
            rbind (ok_or MissingSuffix (split_once (CHR ''@'') rest)) (\<lambda>(name_without_at, suffix).
            Inr (take (length name_without_at + 1) value, suffix))
          else ok_or MissingSuffix (split_once (CHR ''@'') value))"

definition pkg_name_suffix_from_str ::
    "('v, 'r) extern \<Rightarrow> (string \<Rightarrow> 'e + 's) \<Rightarrow> string
     \<Rightarrow> 'e parse_pkg_name_suffix_error + 's pkg_name_suffix" where
  "pkg_name_suffix_from_str X parse_suffix value =
     rbind (split_name_suffix X value) (\<lambda>(name, suffix).
     if name \<in> set ['''', ''@'', ''@/''] then Inl SuffixEmptyName
     else if suffix = [] then Inl MissingSuffix
     else rbind (map_err ParseSuffixFailure (parse_suffix suffix)) (\<lambda>suffix.
          rbind (map_err ParseNameFailure (pkg_name_parse X name)) (\<lambda>name.
          Inr \<lparr> ns_name = name, ns_suffix = suffix \<rparr>)))"

definition pkg_name_suffix_to_string :: "('s \<Rightarrow> string) \<Rightarrow> 's pkg_name_suffix \<Rightarrow> string" where
  "pkg_name_suffix_to_string show_suffix p =
     pkg_name_to_string (ns_name p) @ ''@'' @ show_suffix (ns_suffix p)"

definition name_text_valid :: "pkg_name \<Rightarrow> bool" where
  "name_text_valid n \<longleftrightarrow>
     pkg_name_valid n
     \<and> (\<forall>scope. pn_scope n = Some scope \<longrightarrow> CHR ''@'' \<notin> set scope)
     \<and> CHR ''@'' \<notin> set (pn_bare n)
     \<and> pkg_name_to_string n \<noteq> ''@/''"

definition pkg_name_suffix_valid :: "('s \<Rightarrow> bool) \<Rightarrow> 's pkg_name_suffix \<Rightarrow> bool" where
  "pkg_name_suffix_valid suffix_valid p \<longleftrightarrow>
     name_text_valid (ns_name p) \<and> suffix_valid (ns_suffix p)"

lemma split_name_suffix_eqs:
  assumes "split_first_ok X"
  shows "split_name_suffix X [] = Inl EmptyInput"
    and "split_name_suffix X (CHR ''@'' # rest) =
           (case split_once (CHR ''@'') rest of
              None \<Rightarrow> Inl MissingSuffix
            | Some (a, b) \<Rightarrow> Inr (CHR ''@'' # take (length a) rest, b))"
    and "c \<noteq> CHR ''@'' \<Longrightarrow>
           split_name_suffix X (c # s) = ok_or MissingSuffix (split_once (CHR ''@'') (c # s))"
proof -
  assume "c \<noteq> CHR ''@''"
  then show "split_name_suffix X (c # s) = ok_or MissingSuffix (split_once (CHR ''@'') (c # s))"
    using split_first_other [OF assms, of c s] by (auto simp: split_name_suffix_def)
qed (auto simp: split_name_suffix_def split_first_simps [OF assms] split: option.splits)

text \<open>The cut succeeds exactly on a text with an \<^verbatim>\<open>@\<close> after its first character.\<close>

lemma split_name_suffix_Inr:
  assumes "split_first_ok X"
  shows "split_name_suffix X value = Inr (n, t) \<longleftrightarrow>
     value = n @ CHR ''@'' # t \<and> n \<noteq> [] \<and> CHR ''@'' \<notin> set (tl n)"
proof (cases "value")
  case Nil
  then show ?thesis by (simp add: split_name_suffix_eqs [OF assms])
next
  case (Cons c s)
  show ?thesis
  proof (cases "c = CHR ''@''")
    case True
    with Cons show ?thesis
      by (cases n)
        (auto simp: split_name_suffix_eqs [OF assms] str_simps split: option.splits
          dest: split_unique)
  next
    case False
    with Cons show ?thesis
      by (cases n) (auto simp: split_name_suffix_eqs [OF assms] str_simps result_simps)
  qed
qed

lemma pkg_name_suffix_from_str_Inr:
  assumes "split_first_ok X"
  shows "pkg_name_suffix_from_str X ps value = Inr p \<longleftrightarrow>
     (\<exists>n t. value = n @ CHR ''@'' # t \<and> n \<noteq> [] \<and> CHR ''@'' \<notin> set (tl n)
        \<and> n \<notin> set [''@'', ''@/''] \<and> t \<noteq> []
        \<and> ps t = Inr (ns_suffix p) \<and> pkg_name_parse X n = Inr (ns_name p))"
  by (cases p)
    (auto simp: pkg_name_suffix_from_str_def result_simps split_name_suffix_Inr [OF assms]
      split: if_splits)

lemma name_text_valid_iff:
  assumes "pkg_name_valid n"
  shows "name_text_valid n \<longleftrightarrow>
     pkg_name_to_string n \<noteq> [] \<and> CHR ''@'' \<notin> set (tl (pkg_name_to_string n))
     \<and> pkg_name_to_string n \<notin> set [''@'', ''@/'']"
proof (cases "pn_scope n")
  case None
  with assms show ?thesis
    by (cases "pn_bare n") (auto simp: name_text_valid_def pkg_name_valid_def pkg_name_to_string_def)
next
  case (Some a)
  with assms show ?thesis
    by (auto simp: name_text_valid_def pkg_name_valid_def pkg_name_to_string_def)
qed

text \<open>
  The format of a suffix gives the format of \<^verbatim>\<open>name@suffix\<close>: proved once for every suffix
  type.
\<close>

locale suffix_format =
  suffix: checked_text_format lib parse_suffix show_suffix suffix_valid
  for lib :: bool and parse_suffix :: "string \<Rightarrow> 'e + 's" and show_suffix and suffix_valid +
  fixes X :: "('v, 'r) extern"
  assumes lib_names: "lib \<Longrightarrow> split_first_ok X"
    and show_not_Nil: "lib \<Longrightarrow> suffix_valid x \<Longrightarrow> show_suffix x \<noteq> []"
begin

sublocale name_suffix: checked_text_format lib
  "pkg_name_suffix_from_str X parse_suffix" "pkg_name_suffix_to_string show_suffix"
  "pkg_name_suffix_valid suffix_valid"
proof (unfold_locales, goal_cases)
  case (1 p)
  then have v: "pkg_name_valid (ns_name p)" "name_text_valid (ns_name p)" "suffix_valid (ns_suffix p)"
    by (simp_all add: pkg_name_suffix_valid_def name_text_valid_def)
  show ?case
    unfolding pkg_name_suffix_from_str_Inr [OF lib_names [OF 1(1)]] pkg_name_suffix_to_string_def
    using v(2) [unfolded name_text_valid_iff [OF v(1)]] v show_not_Nil [OF 1(1) v(3)]
      suffix.parse_print [OF 1(1) v(3)] pkg_name_text.parse_print [OF lib_names [OF 1(1)] v(1)]
    by auto
next
  case (2 s p)
  from 2(2) obtain n t where *: "n \<noteq> []" "CHR ''@'' \<notin> set (tl n)" "n \<notin> set [''@'', ''@/'']"
      "parse_suffix t = Inr (ns_suffix p)" "pkg_name_parse X n = Inr (ns_name p)"
    unfolding pkg_name_suffix_from_str_Inr [OF lib_names [OF 2(1)]] by blast
  have "pkg_name_valid (ns_name p)" and "pkg_name_to_string (ns_name p) = n"
    using *(5) pkg_name_text.parse_iff [OF lib_names [OF 2(1)]] by auto
  then have "name_text_valid (ns_name p)" using * by (simp add: name_text_valid_iff)
  then show ?case
    using suffix.parse_valid [OF 2(1) *(4)] by (simp add: pkg_name_suffix_valid_def)
qed

end

end
