(* ===== verification/Lockfile_Specs.thy ===== *)
theory Lockfile_Specs
  imports Lockfile_Names
begin

text \<open>
  The specifiers of \<^verbatim>\<open>crates/lockfile\<close>: \<^verbatim>\<open>PkgVerPeer\<close>, \<^verbatim>\<open>PkgNameVer\<close>, \<^verbatim>\<open>PkgNameVerPeer\<close> with its
  virtual store name, \<^verbatim>\<open>DependencyPath\<close> and \<^verbatim>\<open>PackageSnapshotDependency\<close>.
\<close>

section \<open>PkgVerPeer\<close>

record 'v pkg_ver_peer =
  vp_version :: 'v
  vp_peer :: string

datatype parse_pkg_ver_peer_error = ParseVersionFailure string | MismatchParenthesis

definition pkg_ver_peer_from_str ::
    "('v, 'r) extern \<Rightarrow> string \<Rightarrow> parse_pkg_ver_peer_error + 'v pkg_ver_peer" where
  "pkg_ver_peer_from_str X value =
     (if \<not> ends_with_char (CHR '')'') value then
        (if list_ex (\<lambda>c. c = CHR ''('' \<or> c = CHR '')'') value then Inl MismatchParenthesis
         else rbind (map_err ParseVersionFailure (parse_version X value)) (\<lambda>version.
              Inr \<lparr> vp_version = version, vp_peer = [] \<rparr>))
      else
        rbind (ok_or MismatchParenthesis (find_char (CHR ''('') value)) (\<lambda>opening_parenthesis.
        rbind (map_err ParseVersionFailure (parse_version X (take opening_parenthesis value)))
          (\<lambda>version.
        Inr \<lparr> vp_version = version, vp_peer = drop opening_parenthesis value \<rparr>)))"

definition pkg_ver_peer_to_string :: "('v, 'r) extern \<Rightarrow> 'v pkg_ver_peer \<Rightarrow> string" where
  "pkg_ver_peer_to_string X p = show_version X (vp_version p) @ vp_peer p"

definition pkg_ver_peer_into_tuple :: "'v pkg_ver_peer \<Rightarrow> 'v \<times> string" where
  "pkg_ver_peer_into_tuple p = (vp_version p, vp_peer p)"

definition pkg_ver_peer_valid :: "'v pkg_ver_peer \<Rightarrow> bool" where
  "pkg_ver_peer_valid p \<longleftrightarrow>
     vp_peer p = [] \<or> starts_with_char (CHR ''('') (vp_peer p) \<and> ends_with_char (CHR '')'') (vp_peer p)"

lemma parens_not_in_version:
  assumes "version_text_ok X"
  shows "CHR ''('' \<notin> set (show_version X v)" and "CHR '')'' \<notin> set (show_version X v)"
    and "CHR ''@'' \<notin> set (show_version X v)" and "CHR ''/'' \<notin> set (show_version X v)"
  using show_version_not_in [OF assms] by (simp_all add: delimiters_def)

text \<open>The parser as a relation: the text is a version followed by a well-formed peer part.\<close>

lemma pkg_ver_peer_from_str_Inr:
  assumes "version_text_ok X"
  shows "pkg_ver_peer_from_str X s = Inr p \<longleftrightarrow>
     (\<exists>t. s = t @ vp_peer p \<and> parse_version X t = Inr (vp_version p) \<and> pkg_ver_peer_valid p)"
    (is "?L \<longleftrightarrow> ?R")
proof
  show "?L \<Longrightarrow> ?R"
    by (cases p) (auto simp: pkg_ver_peer_from_str_def pkg_ver_peer_valid_def starts_with_char_def
        ends_with_char_def result_simps str_simps split: if_splits)
next
  assume ?R
  then obtain t where s: "s = t @ vp_peer p" and v: "parse_version X t = Inr (vp_version p)"
    and w: "pkg_ver_peer_valid p" by blast
  have t: "CHR ''('' \<notin> set t" "CHR '')'' \<notin> set t" "t \<noteq> []"
    using parse_version_plain [OF assms v] by (auto simp: delimiters_def)
  show ?L
  proof (cases "vp_peer p")
    case Nil
    have "last t \<noteq> CHR '')''" using t(2,3) last_in_set [of t] by metis
    with Nil s v t show ?thesis
      by (cases p) (auto simp: pkg_ver_peer_from_str_def ends_with_char_def list_ex_iff)
  next
    case (Cons c q)
    with w have "c = CHR ''(''" and "last (c # q) = CHR '')''"
      by (auto simp: pkg_ver_peer_valid_def starts_with_char_def ends_with_char_def)
    with Cons s v t show ?thesis
      by (cases p) (simp add: pkg_ver_peer_from_str_def ends_with_char_def)
  qed
qed

interpretation ver_peer_text: checked_text_format
    "version_text_ok X" "pkg_ver_peer_from_str X" "pkg_ver_peer_to_string X" pkg_ver_peer_valid
  for X :: "('v, 'r) extern"
  by unfold_locales
    (auto simp: pkg_ver_peer_from_str_Inr pkg_ver_peer_to_string_def parse_show_version)

lemma ver_peer_not_Nil: "version_text_ok X \<Longrightarrow> pkg_ver_peer_to_string X p \<noteq> []"
  by (simp add: pkg_ver_peer_to_string_def show_version_plain)

section \<open>PkgNameVer and PkgNameVerPeer\<close>

type_synonym 'v pkg_name_ver = "'v pkg_name_suffix"
type_synonym 'v pkg_name_ver_peer = "'v pkg_ver_peer pkg_name_suffix"

abbreviation pkg_name_ver_from_str ::
    "('v, 'r) extern \<Rightarrow> string \<Rightarrow> string parse_pkg_name_suffix_error + 'v pkg_name_ver" where
  "pkg_name_ver_from_str X \<equiv> pkg_name_suffix_from_str X (parse_version X)"

abbreviation pkg_name_ver_to_string :: "('v, 'r) extern \<Rightarrow> 'v pkg_name_ver \<Rightarrow> string" where
  "pkg_name_ver_to_string X \<equiv> pkg_name_suffix_to_string (show_version X)"

definition pkg_name_ver_peer_from_str ::
    "('v, 'r) extern \<Rightarrow> string
     \<Rightarrow> parse_pkg_ver_peer_error parse_pkg_name_suffix_error + 'v pkg_name_ver_peer" where
  "pkg_name_ver_peer_from_str X = pkg_name_suffix_from_str X (pkg_ver_peer_from_str X)"

definition pkg_name_ver_peer_to_string :: "('v, 'r) extern \<Rightarrow> 'v pkg_name_ver_peer \<Rightarrow> string" where
  "pkg_name_ver_peer_to_string X = pkg_name_suffix_to_string (pkg_ver_peer_to_string X)"

interpretation name_ver: suffix_format
    "names_ok X" "parse_version X" "show_version X" "\<lambda>_. True" X
  for X :: "('v, 'r) extern"
  by unfold_locales (simp_all add: names_okD parse_show_version show_version_plain)

interpretation name_ver_peer: suffix_format
    "names_ok X" "pkg_ver_peer_from_str X" "pkg_ver_peer_to_string X" pkg_ver_peer_valid X
  for X :: "('v, 'r) extern"
  by unfold_locales
    (simp_all add: names_okD ver_peer_text.parse_print ver_peer_text.parse_valid [OF names_okD(2)]
      ver_peer_not_Nil)

subsection \<open>The directory of a package in the virtual store\<close>

definition estimated_virtual_store_name_capacity :: "pkg_name \<Rightarrow> 'v pkg_ver_peer \<Rightarrow> nat" where
  "estimated_virtual_store_name_capacity n ver_peer =
     (case pn_scope n of None \<Rightarrow> 0 | Some scope \<Rightarrow> length scope + 2)
     + length (pn_bare n) + length (vp_peer ver_peer) + 17"

definition push_virtual_store_name :: "string \<Rightarrow> pkg_name \<Rightarrow> string" where
  "push_virtual_store_name buf n =
     (case pn_scope n of Some scope \<Rightarrow> buf @ ''@'' @ scope @ ''+'' | None \<Rightarrow> buf) @ pn_bare n"

fun push_virtual_store_peer_suffix :: "string \<Rightarrow> string \<Rightarrow> string" where
  "push_virtual_store_peer_suffix buf [] = buf"
| "push_virtual_store_peer_suffix buf (ch # peer) =
     push_virtual_store_peer_suffix
       (if ch = CHR ''/'' then buf @ ''+''
        else if ch = CHR ''('' then buf @ ''_''
        else if ch = CHR '')'' then buf
        else buf @ [ch]) peer"

definition to_virtual_store_name_from_parts ::
    "('v, 'r) extern \<Rightarrow> pkg_name \<Rightarrow> 'v pkg_ver_peer \<Rightarrow> string" where
  "to_virtual_store_name_from_parts X n ver_peer =
     push_virtual_store_peer_suffix
       (push_virtual_store_name [] n @ ''@'' @ show_version X (vp_version ver_peer))
       (vp_peer ver_peer)"

definition to_virtual_store_name :: "('v, 'r) extern \<Rightarrow> 'v pkg_name_ver_peer \<Rightarrow> string" where
  "to_virtual_store_name X p = to_virtual_store_name_from_parts X (ns_name p) (ns_suffix p)"

text \<open>The loop of the peer suffix as a map: what one character contributes.\<close>

definition peer_char :: "char \<Rightarrow> string" where
  "peer_char ch =
     (if ch = CHR ''/'' then ''+'' else if ch = CHR ''('' then ''_''
      else if ch = CHR '')'' then [] else [ch])"

lemma push_peer_suffix_eq: "push_virtual_store_peer_suffix buf peer = buf @ concat (map peer_char peer)"
  by (induction peer arbitrary: buf) (auto simp: peer_char_def)

lemma peer_chars_plain:
  "set (concat (map peer_char peer)) \<inter> {CHR ''/'', CHR ''('', CHR '')''} = {}"
  by (induction peer) (auto simp: peer_char_def split: if_splits)

lemma length_peer_chars: "length (concat (map peer_char peer)) \<le> length peer"
  by (induction peer) (auto simp: peer_char_def)

lemma set_virtual_store_name:
  assumes "version_text_ok X"
  shows "c \<in> {CHR ''/'', CHR ''('', CHR '')''} \<Longrightarrow>
    c \<in> set (to_virtual_store_name_from_parts X n vp) \<longleftrightarrow>
      (\<exists>scope. pn_scope n = Some scope \<and> c \<in> set scope) \<or> c \<in> set (pn_bare n)"
  using peer_chars_plain [of "vp_peer vp"] parens_not_in_version [OF assms, of "vp_version vp"]
  by (cases "pn_scope n") (auto simp: to_virtual_store_name_from_parts_def push_peer_suffix_eq
      push_virtual_store_name_def)

section \<open>DependencyPath\<close>

record 'v dependency_path =
  dp_custom_registry :: "string option"
  dp_package_specifier :: "'v pkg_name_ver_peer"

datatype parse_dependency_path_error =
    InvalidSyntax
  | ParsePackageSpecifierFailure "parse_pkg_ver_peer_error parse_pkg_name_suffix_error"

definition dependency_path_from_str ::
    "('v, 'r) extern \<Rightarrow> string \<Rightarrow> parse_dependency_path_error + 'v dependency_path" where
  "dependency_path_from_str X s =
     rbind (ok_or InvalidSyntax (split_once (CHR ''/'') s)) (\<lambda>(custom_registry, package_specifier).
     rbind (map_err ParsePackageSpecifierFailure (pkg_name_ver_peer_from_str X package_specifier))
       (\<lambda>package_specifier.
     Inr \<lparr> dp_custom_registry = (if custom_registry = [] then None else Some custom_registry),
           dp_package_specifier = package_specifier \<rparr>))"

definition dependency_path_to_string :: "('v, 'r) extern \<Rightarrow> 'v dependency_path \<Rightarrow> string" where
  "dependency_path_to_string X d =
     (case dp_custom_registry d of None \<Rightarrow> [] | Some r \<Rightarrow> r) @ ''/''
     @ pkg_name_ver_peer_to_string X (dp_package_specifier d)"

abbreviation pkg_name_ver_peer_valid :: "'v pkg_name_ver_peer \<Rightarrow> bool" where
  "pkg_name_ver_peer_valid \<equiv> pkg_name_suffix_valid pkg_ver_peer_valid"

definition dependency_path_valid :: "'v dependency_path \<Rightarrow> bool" where
  "dependency_path_valid d \<longleftrightarrow>
     pkg_name_ver_peer_valid (dp_package_specifier d)
     \<and> (\<forall>r. dp_custom_registry d = Some r \<longrightarrow> r \<noteq> [] \<and> CHR ''/'' \<notin> set r)"

lemma name_ver_peer_parse_print:
  "names_ok X \<Longrightarrow> pkg_name_ver_peer_valid p \<Longrightarrow>
     pkg_name_ver_peer_from_str X (pkg_name_ver_peer_to_string X p) = Inr p"
  unfolding pkg_name_ver_peer_from_str_def pkg_name_ver_peer_to_string_def
  by (rule name_ver_peer.name_suffix.parse_print)

lemma name_ver_peer_parse_valid:
  "names_ok X \<Longrightarrow> pkg_name_ver_peer_from_str X s = Inr p \<Longrightarrow> pkg_name_ver_peer_valid p"
  unfolding pkg_name_ver_peer_from_str_def by (rule name_ver_peer.name_suffix.parse_valid)

interpretation dependency_path_text: checked_text_format
    "names_ok X" "dependency_path_from_str X" "dependency_path_to_string X" dependency_path_valid
  for X :: "('v, 'r) extern"
proof (unfold_locales, goal_cases)
  case (1 d)
  then show ?case
    by (cases d)
      (auto simp: dependency_path_from_str_def dependency_path_to_string_def
        dependency_path_valid_def name_ver_peer_parse_print split: option.splits)
next
  case (2 s d)
  then show ?case
    by (auto simp: dependency_path_from_str_def dependency_path_valid_def result_simps str_simps
        intro: name_ver_peer_parse_valid split: if_splits)
qed

section \<open>PackageSnapshotDependency\<close>

datatype 'v package_snapshot_dependency =
    PkgVerPeer "'v pkg_ver_peer"
  | DependencyPath "'v dependency_path"

fun package_snapshot_dependency_to_string ::
    "('v, 'r) extern \<Rightarrow> 'v package_snapshot_dependency \<Rightarrow> string" where
  "package_snapshot_dependency_to_string X (PkgVerPeer p) = pkg_ver_peer_to_string X p"
| "package_snapshot_dependency_to_string X (DependencyPath d) = dependency_path_to_string X d"

text \<open>The untagged enum: the variants are tried in the order of their declaration.\<close>

definition package_snapshot_dependency_from_str ::
    "('v, 'r) extern \<Rightarrow> string \<Rightarrow> 'v package_snapshot_dependency option" where
  "package_snapshot_dependency_from_str X s =
     (case pkg_ver_peer_from_str X s of
        Inr p \<Rightarrow> Some (PkgVerPeer p)
      | Inl _ \<Rightarrow> (case dependency_path_from_str X s of
           Inr d \<Rightarrow> Some (DependencyPath d)
         | Inl _ \<Rightarrow> None))"

fun package_snapshot_dependency_valid :: "'v package_snapshot_dependency \<Rightarrow> bool" where
  "package_snapshot_dependency_valid (PkgVerPeer p) = pkg_ver_peer_valid p"
| "package_snapshot_dependency_valid (DependencyPath d) =
     (dependency_path_valid d
      \<and> (\<forall>r. dp_custom_registry d = Some r \<longrightarrow> CHR ''('' \<notin> set r))"

text \<open>A text with a slash before its first parenthesis is no version with peers.\<close>

lemma ver_peer_rejects_slash:
  assumes "version_text_ok X" and "CHR ''('' \<notin> set a"
  shows "\<exists>e. pkg_ver_peer_from_str X (a @ CHR ''/'' # b) = Inl e"
proof (rule ccontr)
  assume "\<not> ?thesis"
  then obtain p where "pkg_ver_peer_from_str X (a @ CHR ''/'' # b) = Inr p"
    by (cases "pkg_ver_peer_from_str X (a @ CHR ''/'' # b)") auto
  then obtain t where s: "a @ CHR ''/'' # b = t @ vp_peer p"
    and t: "parse_version X t = Inr (vp_version p)" and p: "pkg_ver_peer_valid p"
    unfolding pkg_ver_peer_from_str_Inr [OF assms(1)] by blast
  from parse_version_plain(2) [OF assms(1) t] have "CHR ''/'' \<notin> set t"
    by (auto simp: delimiters_def)
  with s obtain u where u: "a = t @ u" "vp_peer p = u @ CHR ''/'' # b"
    by (auto simp: append_eq_append_conv2 Cons_eq_append_conv)
  with p have "hd (u @ [CHR ''/'']) = CHR ''(''"
    by (cases u) (auto simp: pkg_ver_peer_valid_def starts_with_char_def)
  with u(1) assms(2) show False by (cases u) auto
qed

end
