(* ===== verification/Lockfile_Text.thy ===== *)
theory Lockfile_Text
  imports Lockfile_Specs
begin

text \<open>
  What the textual types of the lockfile promise: versions within their bounds, specifiers and
  paths that are read back as they were printed, and directory names of the virtual store.
\<close>

section \<open>The lockfile version\<close>

lemma u16_from_str_show_nat:
  "u16_from_str (show_nat n) = (if n \<le> 65535 then Inr (of_nat n) else Inl PosOverflow)"
proof (cases "n \<le> 65535")
  case True
  then show ?thesis by (simp add: u16_from_str_def parse_unsigned_show_nat)
next
  case False
  have over: "parse_digits m 0 (show_nat k) = Inl PosOverflow" if "m < k" for m k
    using that
  proof (induction k rule: show_nat.induct)
    case (1 k)
    show ?case
    proof (cases "k < 10")
      case True
      with 1 show ?thesis by (simp add: show_nat.simps [of k])
    next
      case False
      then have s: "show_nat k = show_nat (k div 10) @ [digit_char (k mod 10)]"
        by (subst show_nat.simps) simp
      show ?thesis
      proof (cases "m < k div 10")
        case True
        with 1 False show ?thesis by (simp add: s parse_digits_append)
      next
        case le: False
        then have "parse_digits m 0 (show_nat (k div 10)) = Inr (k div 10)"
          by (intro parse_digits_show_nat) simp
        with "1.prems" show ?thesis by (simp add: s parse_digits_append)
      qed
    qed
  qed
  obtain c cs where s: "show_nat n = c # cs" by (cases "show_nat n") auto
  then have "c \<in> set (show_nat n)" by simp
  with show_nat_no_char [of "CHR ''+''" n] show_nat_no_char [of "CHR ''-''" n]
  have "c \<noteq> CHR ''+''" and "c \<noteq> CHR ''-''" by auto
  with s over [of 65535 n] False show ?thesis by (simp add: u16_from_str_def parse_unsigned_def)
qed

text \<open>C14: The version gate of the lockfile: a version \<^verbatim>\<open>a.b\<close> is read exactly when both numbers fit
  sixteen bits, the first one that does not is reported as an overflow, and what is read passes
  the gate exactly when its major number is 6.\<close>

theorem lockfile_version_gate:
  "comver_from_str (show_nat a @ ''.'' @ show_nat b) =
     (if 65535 < a then Inl (InvalidMajor PosOverflow)
      else if 65535 < b then Inl (InvalidMinor PosOverflow)
      else Inr \<lparr> cv_major = of_nat a, cv_minor = of_nat b \<rparr>)
   \<and> lockfile_version_try_from 6 c =
     (if unat (cv_major c) = 6 then Inr c else Inl (IncompatibleMajor c))"
proof
  show "comver_from_str (show_nat a @ ''.'' @ show_nat b) =
     (if 65535 < a then Inl (InvalidMajor PosOverflow)
      else if 65535 < b then Inl (InvalidMinor PosOverflow)
      else Inr \<lparr> cv_major = of_nat a, cv_minor = of_nat b \<rparr>)"
    by (auto simp: comver_from_str_def u16_from_str_show_nat)
  have "cv_major c = 6 \<longleftrightarrow> unat (cv_major c) = 6"
    by (simp add: word_unat_eq_iff)
  then show "lockfile_version_try_from 6 c =
     (if unat (cv_major c) = 6 then Inr c else Inl (IncompatibleMajor c))"
    by (simp add: lockfile_version_try_from_def is_compatible_def)
qed

section \<open>Specifiers and paths\<close>

text \<open>C12: The keys of the \<^verbatim>\<open>packages\<close> map are read back as they were printed: every key that a
  parse can yield prints to a text that parses to it again, so two different keys never print
  alike.\<close>

theorem dependency_path_roundtrip:
  assumes "names_ok X"
  shows "(dependency_path_valid d \<longleftrightarrow> (\<exists>s. dependency_path_from_str X s = Inr d))
    \<and> (dependency_path_valid d \<longrightarrow> dependency_path_from_str X (dependency_path_to_string X d) = Inr d
       \<and> (\<forall>d'. dependency_path_valid d' \<longrightarrow>
             (dependency_path_to_string X d = dependency_path_to_string X d' \<longleftrightarrow> d = d')))"
  using dependency_path_text.valid_iff_parsed [OF assms] dependency_path_text.parse_print [OF assms]
    dependency_path_text.print_inject [OF assms] by blast

definition example_dependency_path :: "ver3 dependency_path" where
  "example_dependency_path =
     \<lparr> dp_custom_registry = Some ''registry.example'',
       dp_package_specifier =
         \<lparr> ns_name = \<lparr> pn_scope = Some ''types'', pn_bare = ''node'' \<rparr>,
           ns_suffix = \<lparr> vp_version = (18, 7, 19), vp_peer = ''(react@17.0.2)'' \<rparr> \<rparr> \<rparr>"

lemma example_dependency_path_valid: "dependency_path_valid example_dependency_path"
  by (simp add: example_dependency_path_def dependency_path_valid_def pkg_name_suffix_valid_def
      name_text_valid_def pkg_name_valid_def pkg_name_to_string_def pkg_ver_peer_valid_def
      starts_with_char_def ends_with_char_def)

theorem dependency_path_roundtrip_witness:
  "dependency_path_from_str lib3 (dependency_path_to_string lib3 example_dependency_path)
     = Inr example_dependency_path
   \<and> (\<exists>s. dependency_path_from_str lib3 s = Inr example_dependency_path)"
  using dependency_path_roundtrip [OF names_ok_lib3, of example_dependency_path]
    example_dependency_path_valid by blast

text \<open>The untagged values of the \<^verbatim>\<open>dependencies\<close> maps are unambiguous: a version and a
  dependency path print to texts that are read back as the same variant with the same content.\<close>

theorem snapshot_dependency_roundtrip:
  assumes "names_ok X" and "package_snapshot_dependency_valid d"
  shows "package_snapshot_dependency_from_str X (package_snapshot_dependency_to_string X d) = Some d"
proof (cases d)
  case (PkgVerPeer p)
  then show ?thesis
    using assms ver_peer_text.parse_print [OF names_okD(2) [OF assms(1)], of p]
    by (simp add: package_snapshot_dependency_from_str_def)
next
  case (DependencyPath p)
  with assms have v: "dependency_path_valid p"
    and r: "CHR ''('' \<notin> set (case dp_custom_registry p of None \<Rightarrow> [] | Some r \<Rightarrow> r)"
    by (auto split: option.split)
  from ver_peer_rejects_slash [OF names_okD(2) [OF assms(1)] r]
  obtain e where "pkg_ver_peer_from_str X (dependency_path_to_string X p) = Inl e"
    unfolding dependency_path_to_string_def by auto
  with DependencyPath dependency_path_text.parse_print [OF assms(1) v] show ?thesis
    by (simp add: package_snapshot_dependency_from_str_def)
qed

theorem snapshot_dependency_roundtrip_witness:
  "package_snapshot_dependency_from_str lib3
     (package_snapshot_dependency_to_string lib3 (DependencyPath example_dependency_path))
   = Some (DependencyPath example_dependency_path)"
proof -
  have "package_snapshot_dependency_valid (DependencyPath example_dependency_path)"
    using example_dependency_path_valid by (simp add: example_dependency_path_def)
  from snapshot_dependency_roundtrip [OF names_ok_lib3 this] show ?thesis .
qed

section \<open>The virtual store name\<close>

lemma virtual_store_name_eq:
  "to_virtual_store_name X p =
     (case pn_scope (ns_name p) of Some scope \<Rightarrow> ''@'' @ scope @ ''+'' | None \<Rightarrow> []) @ pn_bare (ns_name p)
     @ ''@'' @ show_version X (vp_version (ns_suffix p)) @ concat (map peer_char (vp_peer (ns_suffix p)))"
  by (auto simp: to_virtual_store_name_def to_virtual_store_name_from_parts_def push_peer_suffix_eq
      push_virtual_store_name_def split: option.split)

lemma split_last_unique:
  fixes c :: char
  assumes "a @ c # b = a' @ c # b'" and "c \<notin> set b" and "c \<notin> set b'"
  shows "a = a' \<and> b = b'"
proof -
  have "rev b @ c # rev a = rev b' @ c # rev a'" using arg_cong [OF assms(1), of rev] by simp
  from split_unique [OF this] assms(2,3) show ?thesis by simp
qed

text \<open>Without peers, the name of a package can be read off its virtual store name.\<close>

lemma virtual_store_prefix_inject:
  assumes v: "pkg_name_valid m" "pkg_name_valid n"
    and plus: "\<And>a. pn_scope m = Some a \<Longrightarrow> CHR ''+'' \<notin> set a" "\<And>a. pn_scope n = Some a \<Longrightarrow> CHR ''+'' \<notin> set a"
    and pre: "(case pn_scope m of Some scope \<Rightarrow> ''@'' @ scope @ ''+'' | None \<Rightarrow> []) @ pn_bare m
      = (case pn_scope n of Some scope \<Rightarrow> ''@'' @ scope @ ''+'' | None \<Rightarrow> []) @ pn_bare n"
  shows "m = n"
proof (cases "pn_scope m"; cases "pn_scope n")
  fix a b assume s: "pn_scope m = Some a" "pn_scope n = Some b"
  then have "a @ CHR ''+'' # pn_bare m = b @ CHR ''+'' # pn_bare n" using pre by simp
  from split_unique [OF this] s plus show ?thesis by simp
next
  fix b assume "pn_scope m = None" "pn_scope n = Some b"
  with pre v(1) show ?thesis by (cases "pn_bare m") (auto simp: pkg_name_valid_def)
next
  fix a assume "pn_scope m = Some a" "pn_scope n = None"
  with pre v(2) show ?thesis by (cases "pn_bare n") (auto simp: pkg_name_valid_def)
next
  assume "pn_scope m = None" "pn_scope n = None"
  with pre show ?thesis by simp
qed

lemma virtual_store_name_inject:
  assumes names: "names_ok X" and v: "pkg_name_valid (ns_name p)" "pkg_name_valid (ns_name q)"
    and plus: "\<forall>n \<in> {ns_name p, ns_name q}. \<forall>a. pn_scope n = Some a \<longrightarrow> CHR ''+'' \<notin> set a"
    and peer: "vp_peer (ns_suffix p) = []" "vp_peer (ns_suffix q) = []"
    and eq: "to_virtual_store_name X p = to_virtual_store_name X q"
  shows "p = q"
proof -
  let ?pre = "\<lambda>n. (case pn_scope n of Some scope \<Rightarrow> ''@'' @ scope @ ''+'' | None \<Rightarrow> []) @ pn_bare n"
  have at: "CHR ''@'' \<notin> set (show_version X w)" for w
    by (rule parens_not_in_version(3) [OF names_okD(2) [OF names]])
  have "?pre (ns_name p) @ CHR ''@'' # show_version X (vp_version (ns_suffix p))
      = ?pre (ns_name q) @ CHR ''@'' # show_version X (vp_version (ns_suffix q))"
    using eq peer by (simp add: virtual_store_name_eq)
  from split_last_unique [OF this at at]
  have pre: "?pre (ns_name p) = ?pre (ns_name q)"
    and ver: "show_version X (vp_version (ns_suffix p)) = show_version X (vp_version (ns_suffix q))" by auto
  from ver have "vp_version (ns_suffix p) = vp_version (ns_suffix q)"
    using parse_show_version [OF names_okD(2) [OF names]] by (metis sum.inject(2))
  then have "ns_suffix p = ns_suffix q" using peer by simp
  moreover have "ns_name p = ns_name q"
    by (rule virtual_store_prefix_inject [OF v _ _ pre]) (use plus in auto)
  ultimately show ?thesis by simp
qed



text \<open>
  The peers of a package are not that safe: closing parentheses are dropped, so a peer of a peer
  and a second peer lead to one directory.
\<close>

lemma nested_peers_share_a_directory:
  "to_virtual_store_name X \<lparr> ns_name = n, ns_suffix = \<lparr> vp_version = v, vp_peer = ''(a@1.0.0(b@1.0.0))'' \<rparr> \<rparr>
   = to_virtual_store_name X \<lparr> ns_name = n, ns_suffix = \<lparr> vp_version = v, vp_peer = ''(a@1.0.0)(b@1.0.0)'' \<rparr> \<rparr>"
  by (simp add: virtual_store_name_eq peer_char_def)

end
