(* ===== verification/Paths.thy ===== *)
theory Paths
  imports Prelude
begin

text \<open>
  \<^verbatim>\<open>std::path\<close> on Unix. A \<^verbatim>\<open>Path\<close> is the list of its components, which is what its \<^verbatim>\<open>Eq\<close>,
  \<^verbatim>\<open>parent\<close>, \<^verbatim>\<open>file_name\<close> and \<^verbatim>\<open>components\<close> observe.
\<close>

datatype component = RootDir | CurDir | ParentDir | Normal string

type_synonym path = "component list"

definition piece_component :: "string \<Rightarrow> component option" where
  "piece_component s =
     (if s = [] \<or> s = ''.'' then None else if s = ''..'' then Some ParentDir else Some (Normal s))"

definition path_of_string :: "string \<Rightarrow> path" where
  "path_of_string s =
     (let pieces = split_on (CHR ''/'') s; cs = List.map_filter piece_component pieces
      in if starts_with_char (CHR ''/'') s then RootDir # cs
         else if hd pieces = ''.'' then CurDir # cs
         else cs)"

fun component_to_string :: "component \<Rightarrow> string" where
  "component_to_string RootDir = ''/''"
| "component_to_string CurDir = ''.''"
| "component_to_string ParentDir = ''..''"
| "component_to_string (Normal s) = s"

definition path_to_string :: "path \<Rightarrow> string" where
  "path_to_string p =
     (case p of
        RootDir # r \<Rightarrow> ''/'' @ join_with ''/'' (map component_to_string r)
      | _ \<Rightarrow> join_with ''/'' (map component_to_string p))"

definition is_absolute :: "path \<Rightarrow> bool" where
  "is_absolute p = (case p of RootDir # _ \<Rightarrow> True | _ \<Rightarrow> False)"

definition path_join :: "path \<Rightarrow> path \<Rightarrow> path" where
  "path_join a b =
     (if is_absolute b \<or> a = [] then b
      else a @ (case b of CurDir # r \<Rightarrow> r | _ \<Rightarrow> b))"

abbreviation join_str :: "path \<Rightarrow> string \<Rightarrow> path" where
  "join_str a s \<equiv> path_join a (path_of_string s)"

definition path_parent :: "path \<Rightarrow> path option" where
  "path_parent p = (if p = [] \<or> last p = RootDir then None else Some (butlast p))"

definition path_file_name :: "path \<Rightarrow> string option" where
  "path_file_name p =
     (if p = [] then None else case last p of Normal n \<Rightarrow> Some n | _ \<Rightarrow> None)"

text \<open>\<^verbatim>\<open>PathBuf::pop\<close>.\<close>

definition path_pop :: "path \<Rightarrow> path" where
  "path_pop p = (case path_parent p of None \<Rightarrow> p | Some q \<Rightarrow> q)"

text \<open>A name that is one component of a path by itself.\<close>

definition file_name_ok :: "string \<Rightarrow> bool" where
  "file_name_ok s \<longleftrightarrow> s \<notin> set [[], ''.'', ''..''] \<and> CHR ''/'' \<notin> set s"

lemma split_on_id: "c \<notin> set s \<Longrightarrow> split_on c s = [s]"
  by (induction s) auto

lemma split_on_append: "c \<notin> set a \<Longrightarrow> split_on c (a @ c # b) = a # split_on c b"
  by (induction a) auto

lemma path_of_file_name [simp]: "file_name_ok s \<Longrightarrow> path_of_string s = [Normal s]"
  by (cases s) (auto simp: file_name_ok_def path_of_string_def piece_component_def split_on_id
      starts_with_char_def map_filter_simps Let_def)

lemma join_name [simp]: "path_join p [Normal s] = p @ [Normal s]"
  by (simp add: path_join_def is_absolute_def)

lemma path_of_two_names:
  "file_name_ok a \<Longrightarrow> file_name_ok b \<Longrightarrow> path_of_string (a @ ''/'' @ b) = [Normal a, Normal b]"
  by (cases a) (auto simp: file_name_ok_def path_of_string_def piece_component_def split_on_append
      split_on_id starts_with_char_def map_filter_simps Let_def)

lemma path_parent_snoc [simp]: "path_parent (p @ [Normal n]) = Some p"
  by (simp add: path_parent_def)

lemma path_file_name_snoc [simp]: "path_file_name (p @ [Normal n]) = Some n"
  by (simp add: path_file_name_def)

lemma is_absolute_append: "p \<noteq> [] \<Longrightarrow> is_absolute (p @ q) = is_absolute p"
  by (cases p) (auto simp: is_absolute_def split: component.splits)

lemma is_absolute_join: "is_absolute p \<Longrightarrow> is_absolute (path_join p q)"
  by (cases p) (auto simp: path_join_def is_absolute_def split: component.splits)

end
