(* ===== verification/File_System.thy ===== *)
theory File_System
  imports Paths
begin

unbundle bit_operations_syntax

text \<open>
  \<^verbatim>\<open>std::fs\<close> over a Unix file system. Nodes sit at canonical paths (name lists below the root);
  regular files share inodes, so that a hard link and its source are the same file. A path is
  resolved component by component through symbolic links, at most forty of them.
  \<open>fs_fault\<close> says which system calls the environment makes fail: every \<^verbatim>\<open>io::Error\<close> the
  program handles is reachable.
\<close>

section \<open>The state\<close>

type_synonym names = "string list"

datatype io_kind =
    NotFound | AlreadyExists | PermissionDenied | NotADirectory | IsADirectory
  | DirectoryNotEmpty | FilesystemLoop | InvalidData | OtherIo

datatype node = File nat | Dir | Symlink path

record inode =
  in_data :: string
  in_mode :: "32 word"

datatype syscall =
    Stat | Lstat | Mkdir | Open | WriteAll | ReadFile | ReadDir | Unlink | Rmdir | RemoveTree
  | SymlinkCall | Link | Copy | Chmod

record fs =
  fs_nodes :: "(names \<times> node) list"
  fs_inodes :: "nat \<Rightarrow> inode"
  fs_next :: nat
  fs_cwd :: names
  fs_umask :: "32 word"
  fs_fault :: "syscall \<Rightarrow> path \<Rightarrow> io_kind option"

definition node_at :: "fs \<Rightarrow> names \<Rightarrow> node option" where
  "node_at F q = (if q = [] then Some Dir else map_of (fs_nodes F) q)"

definition set_node :: "names \<Rightarrow> node \<Rightarrow> fs \<Rightarrow> fs" where
  "set_node q nd F = F\<lparr>fs_nodes := AList.update q nd (fs_nodes F)\<rparr>"

definition del_nodes :: "(names \<Rightarrow> bool) \<Rightarrow> fs \<Rightarrow> fs" where
  "del_nodes P F = F\<lparr>fs_nodes := filter (\<lambda>e. \<not> P (fst e)) (fs_nodes F)\<rparr>"

definition abs_path :: "names \<Rightarrow> path" where
  "abs_path q = RootDir # map Normal q"

section \<open>Path resolution\<close>

datatype resolved = Found names node | Absent names string | Bad io_kind

function resolve :: "fs \<Rightarrow> bool \<Rightarrow> nat \<Rightarrow> names \<Rightarrow> path \<Rightarrow> resolved" where
  "resolve F follow b cur [] = Found cur Dir"
| "resolve F follow b cur (RootDir # r) = resolve F follow b [] r"
| "resolve F follow b cur (CurDir # r) = resolve F follow b cur r"
| "resolve F follow b cur (ParentDir # r) = resolve F follow b (butlast cur) r"
| "resolve F follow b cur (Normal n # r) =
     (case node_at F (cur @ [n]) of
        None \<Rightarrow> if r = [] then Absent cur n else Bad NotFound
      | Some Dir \<Rightarrow> resolve F follow b (cur @ [n]) r
      | Some (File i) \<Rightarrow> if r = [] then Found (cur @ [n]) (File i) else Bad NotADirectory
      | Some (Symlink t) \<Rightarrow>
          if r = [] \<and> \<not> follow then Found (cur @ [n]) (Symlink t)
          else if b = 0 then Bad FilesystemLoop
          else resolve F follow (b - 1) cur (t @ r))"
  by pat_completeness auto
termination
  by (relation "measures [\<lambda>(F, follow, b, cur, p). b, \<lambda>(F, follow, b, cur, p). length p]") auto

definition lookup :: "fs \<Rightarrow> bool \<Rightarrow> path \<Rightarrow> resolved" where
  "lookup F follow p = (if p = [] then Bad NotFound else resolve F follow 40 (fs_cwd F) p)"

section \<open>The calls\<close>

definition guarded :: "fs \<Rightarrow> syscall \<Rightarrow> path \<Rightarrow> io_kind + 'a \<Rightarrow> io_kind + 'a" where
  "guarded F sc p m = (case fs_fault F sc p of Some e \<Rightarrow> Inl e | None \<Rightarrow> m)"

definition fs_metadata :: "fs \<Rightarrow> path \<Rightarrow> io_kind + (names \<times> node)" where
  "fs_metadata F p = guarded F Stat p
     (case lookup F True p of Found q nd \<Rightarrow> Inr (q, nd) | Absent _ _ \<Rightarrow> Inl NotFound | Bad e \<Rightarrow> Inl e)"

definition fs_symlink_metadata :: "fs \<Rightarrow> path \<Rightarrow> io_kind + (names \<times> node)" where
  "fs_symlink_metadata F p = guarded F Lstat p
     (case lookup F False p of Found q nd \<Rightarrow> Inr (q, nd) | Absent _ _ \<Rightarrow> Inl NotFound | Bad e \<Rightarrow> Inl e)"

definition fs_exists :: "fs \<Rightarrow> path \<Rightarrow> bool" where
  "fs_exists F p = is_ok (fs_metadata F p)"

definition fs_is_dir :: "fs \<Rightarrow> path \<Rightarrow> bool" where
  "fs_is_dir F p = (case fs_metadata F p of Inr (_, Dir) \<Rightarrow> True | _ \<Rightarrow> False)"

definition fs_is_file :: "fs \<Rightarrow> path \<Rightarrow> bool" where
  "fs_is_file F p = (case fs_metadata F p of Inr (_, File _) \<Rightarrow> True | _ \<Rightarrow> False)"

definition fs_canonicalize :: "fs \<Rightarrow> path \<Rightarrow> io_kind + path" where
  "fs_canonicalize F p = map_ok (\<lambda>(q, _). abs_path q) (fs_metadata F p)"

definition fs_mkdir :: "fs \<Rightarrow> path \<Rightarrow> io_kind + fs" where
  "fs_mkdir F p = guarded F Mkdir p
     (case lookup F False p of
        Found _ _ \<Rightarrow> Inl AlreadyExists
      | Absent d n \<Rightarrow> Inr (set_node (d @ [n]) Dir F)
      | Bad e \<Rightarrow> Inl e)"

text \<open>\<^verbatim>\<open>DirBuilder::create_dir_all\<close>.\<close>

function fs_create_dir_all :: "fs \<Rightarrow> path \<Rightarrow> io_kind + fs" where
  "fs_create_dir_all F p =
     (if p = [] then Inr F
      else case fs_mkdir F p of
        Inr F' \<Rightarrow> Inr F'
      | Inl e \<Rightarrow>
          if e \<noteq> NotFound then (if fs_is_dir F p then Inr F else Inl e)
          else (case path_parent p of
                  None \<Rightarrow> Inl OtherIo
                | Some q \<Rightarrow> rbind (fs_create_dir_all F q) (\<lambda>F1.
                    case fs_mkdir F1 p of
                      Inr F2 \<Rightarrow> Inr F2
                    | Inl e' \<Rightarrow> if fs_is_dir F1 p then Inr F1 else Inl e')))"
  by pat_completeness auto
termination
  by (relation "measure (\<lambda>(F, p). length p)") (auto simp: path_parent_def split: if_splits)

declare fs_create_dir_all.simps [simp del]

definition fresh_file :: "names \<Rightarrow> inode \<Rightarrow> fs \<Rightarrow> fs" where
  "fresh_file q ino F =
     (set_node q (File (fs_next F)) F)
       \<lparr>fs_inodes := (fs_inodes F)(fs_next F := ino), fs_next := Suc (fs_next F)\<rparr>"

text \<open>
  \<^verbatim>\<open>OpenOptions\<close> with \<^verbatim>\<open>write\<close> and \<^verbatim>\<open>create\<close>, the handle being the inode; then
  \<^verbatim>\<open>write_all\<close> at its start.
\<close>

definition fs_open_create :: "fs \<Rightarrow> path \<Rightarrow> 32 word \<Rightarrow> io_kind + (fs \<times> nat)" where
  "fs_open_create F p mode = guarded F Open p
     (case lookup F True p of
        Found _ (File i) \<Rightarrow> Inr (F, i)
      | Found _ Dir \<Rightarrow> Inl IsADirectory
      | Found _ (Symlink _) \<Rightarrow> Inl OtherIo
      | Absent d n \<Rightarrow>
          Inr (fresh_file (d @ [n]) \<lparr>in_data = [], in_mode = mode AND NOT (fs_umask F)\<rparr> F, fs_next F)
      | Bad e \<Rightarrow> Inl e)"

definition set_data :: "nat \<Rightarrow> string \<Rightarrow> fs \<Rightarrow> fs" where
  "set_data i d F = F\<lparr>fs_inodes := (fs_inodes F)(i := (fs_inodes F i)\<lparr>in_data := d\<rparr>)\<rparr>"

definition set_mode :: "nat \<Rightarrow> 32 word \<Rightarrow> fs \<Rightarrow> fs" where
  "set_mode i m F = F\<lparr>fs_inodes := (fs_inodes F)(i := (fs_inodes F i)\<lparr>in_mode := m\<rparr>)\<rparr>"

definition fs_write_all :: "fs \<Rightarrow> path \<Rightarrow> nat \<Rightarrow> string \<Rightarrow> io_kind + fs" where
  "fs_write_all F p i buf = guarded F WriteAll p
     (Inr (set_data i (buf @ drop (length buf) (in_data (fs_inodes F i))) F))"

text \<open>\<^verbatim>\<open>fs::write\<close> and \<^verbatim>\<open>File::create\<close> with \<^verbatim>\<open>write_all\<close>: the file is truncated first.\<close>

definition fs_write :: "fs \<Rightarrow> path \<Rightarrow> string \<Rightarrow> io_kind + fs" where
  "fs_write F p buf =
     rbind (fs_open_create F p 0x1B6) (\<lambda>(F1, i). fs_write_all (set_data i [] F1) p i buf)"

definition fs_read :: "fs \<Rightarrow> path \<Rightarrow> io_kind + string" where
  "fs_read F p = guarded F ReadFile p
     (case lookup F True p of
        Found _ (File i) \<Rightarrow> Inr (in_data (fs_inodes F i))
      | Found _ Dir \<Rightarrow> Inl IsADirectory
      | Found _ (Symlink _) \<Rightarrow> Inl OtherIo
      | Absent _ _ \<Rightarrow> Inl NotFound
      | Bad e \<Rightarrow> Inl e)"

definition cont_byte :: "char \<Rightarrow> bool" where
  "cont_byte c = (0x80 \<le> (of_char c :: nat) \<and> (of_char c :: nat) < 0xC0)"

definition byte_in :: "nat \<Rightarrow> nat \<Rightarrow> char \<Rightarrow> bool" where
  "byte_in lo hi c = (lo \<le> (of_char c :: nat) \<and> (of_char c :: nat) \<le> hi)"

fun valid_utf8 :: "string \<Rightarrow> bool" where
  "valid_utf8 [] = True"
| "valid_utf8 (a # s) =
     (if byte_in 0 0x7F a then valid_utf8 s
      else case s of
        [] \<Rightarrow> False
      | b # s2 \<Rightarrow>
          if byte_in 0xC2 0xDF a then cont_byte b \<and> valid_utf8 s2
          else case s2 of
            [] \<Rightarrow> False
          | c # s3 \<Rightarrow>
              if byte_in 0xE0 0xEF a then
                (if a = CHR 0xE0 then byte_in 0xA0 0xBF b
                 else if a = CHR 0xED then byte_in 0x80 0x9F b else cont_byte b)
                \<and> cont_byte c \<and> valid_utf8 s3
              else case s3 of
                [] \<Rightarrow> False
              | d # s4 \<Rightarrow>
                  byte_in 0xF0 0xF4 a
                  \<and> (if a = CHR 0xF0 then byte_in 0x90 0xBF b
                     else if a = CHR 0xF4 then byte_in 0x80 0x8F b else cont_byte b)
                  \<and> cont_byte c \<and> cont_byte d \<and> valid_utf8 s4)"

definition fs_read_to_string :: "fs \<Rightarrow> path \<Rightarrow> io_kind + string" where
  "fs_read_to_string F p =
     rbind (fs_read F p) (\<lambda>s. if valid_utf8 s then Inr s else Inl InvalidData)"

definition dir_names :: "fs \<Rightarrow> names \<Rightarrow> string list" where
  "dir_names F q =
     map (\<lambda>e. last (fst e)) (filter (\<lambda>e. fst e \<noteq> [] \<and> butlast (fst e) = q) (fs_nodes F))"

definition fs_read_dir :: "fs \<Rightarrow> path \<Rightarrow> io_kind + string list" where
  "fs_read_dir F p = guarded F ReadDir p
     (case lookup F True p of
        Found q Dir \<Rightarrow> Inr (dir_names F q)
      | Found _ _ \<Rightarrow> Inl NotADirectory
      | Absent _ _ \<Rightarrow> Inl NotFound
      | Bad e \<Rightarrow> Inl e)"

definition fs_remove_file :: "fs \<Rightarrow> path \<Rightarrow> io_kind + fs" where
  "fs_remove_file F p = guarded F Unlink p
     (case lookup F False p of
        Found _ Dir \<Rightarrow> Inl IsADirectory
      | Found q _ \<Rightarrow> Inr (del_nodes (\<lambda>x. x = q) F)
      | Absent _ _ \<Rightarrow> Inl NotFound
      | Bad e \<Rightarrow> Inl e)"

definition fs_remove_dir :: "fs \<Rightarrow> path \<Rightarrow> io_kind + fs" where
  "fs_remove_dir F p = guarded F Rmdir p
     (case lookup F False p of
        Found q Dir \<Rightarrow>
          if q = [] then Inl PermissionDenied
          else if dir_names F q = [] then Inr (del_nodes (\<lambda>x. x = q) F) else Inl DirectoryNotEmpty
      | Found _ _ \<Rightarrow> Inl NotADirectory
      | Absent _ _ \<Rightarrow> Inl NotFound
      | Bad e \<Rightarrow> Inl e)"

definition fs_remove_dir_all :: "fs \<Rightarrow> path \<Rightarrow> io_kind + fs" where
  "fs_remove_dir_all F p = guarded F RemoveTree p
     (case lookup F False p of
        Found q Dir \<Rightarrow> if q = [] then Inl PermissionDenied else Inr (del_nodes (prefix q) F)
      | Found q (Symlink _) \<Rightarrow> Inr (del_nodes (\<lambda>x. x = q) F)
      | Found _ (File _) \<Rightarrow> Inl NotADirectory
      | Absent _ _ \<Rightarrow> Inl NotFound
      | Bad e \<Rightarrow> Inl e)"

definition fs_symlink :: "fs \<Rightarrow> path \<Rightarrow> path \<Rightarrow> io_kind + fs" where
  "fs_symlink F original link = guarded F SymlinkCall link
     (case lookup F False link of
        Found _ _ \<Rightarrow> Inl AlreadyExists
      | Absent d n \<Rightarrow> Inr (set_node (d @ [n]) (Symlink original) F)
      | Bad e \<Rightarrow> Inl e)"

definition fs_hard_link :: "fs \<Rightarrow> path \<Rightarrow> path \<Rightarrow> io_kind + fs" where
  "fs_hard_link F original link = guarded F Link link
     (case lookup F False original of
        Found _ Dir \<Rightarrow> Inl PermissionDenied
      | Found _ nd \<Rightarrow>
          (case lookup F False link of
             Found _ _ \<Rightarrow> Inl AlreadyExists
           | Absent d n \<Rightarrow> Inr (set_node (d @ [n]) nd F)
           | Bad e \<Rightarrow> Inl e)
      | Absent _ _ \<Rightarrow> Inl NotFound
      | Bad e \<Rightarrow> Inl e)"

definition fs_copy :: "fs \<Rightarrow> path \<Rightarrow> path \<Rightarrow> io_kind + fs" where
  "fs_copy F from to = guarded F Copy to
     (case lookup F True from of
        Found _ (File i) \<Rightarrow>
          rbind (fs_open_create F to (in_mode (fs_inodes F i))) (\<lambda>(F1, j).
            Inr (set_mode j (in_mode (fs_inodes F i)) (set_data j (in_data (fs_inodes F i)) F1)))
      | Found _ _ \<Rightarrow> Inl OtherIo
      | Absent _ _ \<Rightarrow> Inl NotFound
      | Bad e \<Rightarrow> Inl e)"

section \<open>Laws of resolution\<close>

text \<open>
  A file system grows when every node stays in place; then what resolved still does, with
  the same result.
\<close>

definition grows :: "fs \<Rightarrow> fs \<Rightarrow> bool" where
  "grows F F' \<longleftrightarrow>
     (\<forall>q nd. node_at F q = Some nd \<longrightarrow> node_at F' q = Some nd) \<and> fs_cwd F' = fs_cwd F"

lemma grows_refl [simp]: "grows F F"
  by (simp add: grows_def)

lemma grows_trans: "grows F G \<Longrightarrow> grows G H \<Longrightarrow> grows F H"
  by (simp add: grows_def)

lemma node_at_root [simp]: "node_at F [] = Some Dir"
  by (simp add: node_at_def)

lemma node_at_set_node: "node_at (set_node q nd F) r = (if r \<noteq> [] \<and> r = q then Some nd else node_at F r)"
  by (simp add: node_at_def set_node_def)

lemma set_node_frame [simp]:
  "fs_inodes (set_node q nd F) = fs_inodes F" "fs_next (set_node q nd F) = fs_next F"
  "fs_cwd (set_node q nd F) = fs_cwd F" "fs_umask (set_node q nd F) = fs_umask F"
  "fs_fault (set_node q nd F) = fs_fault F"
  by (simp_all add: set_node_def)

lemma set_data_frame [simp]:
  "fs_nodes (set_data i d F) = fs_nodes F" "fs_next (set_data i d F) = fs_next F"
  "fs_cwd (set_data i d F) = fs_cwd F" "fs_umask (set_data i d F) = fs_umask F"
  "fs_fault (set_data i d F) = fs_fault F" "node_at (set_data i d F) = node_at F"
  by (simp_all add: set_data_def node_at_def fun_eq_iff)

lemma set_mode_frame [simp]:
  "fs_nodes (set_mode i d F) = fs_nodes F" "fs_next (set_mode i d F) = fs_next F"
  "fs_cwd (set_mode i d F) = fs_cwd F" "fs_umask (set_mode i d F) = fs_umask F"
  "fs_fault (set_mode i d F) = fs_fault F" "node_at (set_mode i d F) = node_at F"
  by (simp_all add: set_mode_def node_at_def fun_eq_iff)

lemma del_nodes_frame [simp]:
  "fs_inodes (del_nodes P F) = fs_inodes F" "fs_cwd (del_nodes P F) = fs_cwd F"
  "fs_fault (del_nodes P F) = fs_fault F" "fs_next (del_nodes P F) = fs_next F"
  by (simp_all add: del_nodes_def)

lemma map_of_filter_key: "map_of (filter (\<lambda>e. Q (fst e)) xs) k = (if Q k then map_of xs k else None)"
  by (induction xs) auto

lemma node_at_del_nodes:
  "node_at (del_nodes P F) q = (if q = [] then Some Dir else if P q then None else node_at F q)"
  using map_of_filter_key [of "\<lambda>x. \<not> P x" "fs_nodes F" q] by (simp add: node_at_def del_nodes_def)

lemma resolve_same_nodes:
  "node_at F' = node_at F \<Longrightarrow> resolve F' f b cur p = resolve F f b cur p"
proof (induction F f b cur p rule: resolve.induct)
  case (5 F f b cur n r)
  then show ?case by (auto split: option.split node.split)
qed simp_all

lemma lookup_same_nodes:
  "node_at F' = node_at F \<Longrightarrow> fs_cwd F' = fs_cwd F \<Longrightarrow> lookup F' f p = lookup F f p"
  using resolve_same_nodes [of F' F f 40 "fs_cwd F" p] by (simp add: lookup_def)

lemma resolve_grows:
  "resolve F f b cur p = Found q nd \<Longrightarrow> grows F F' \<Longrightarrow> resolve F' f b cur p = Found q nd"
proof (induction F f b cur p rule: resolve.induct)
  case (5 F f b cur n r)
  then obtain nd' where here: "node_at F (cur @ [n]) = Some nd'"
    by (auto split: option.splits if_splits)
  with "5.prems"(2) have "node_at F' (cur @ [n]) = Some nd'" by (simp add: grows_def)
  with here 5 show ?case by (cases nd') (auto split: if_splits)
qed simp_all

lemma lookup_grows: "lookup F f p = Found q nd \<Longrightarrow> grows F F' \<Longrightarrow> lookup F' f p = Found q nd"
  using resolve_grows [of F f 40 "fs_cwd F" p q nd F']
  by (simp add: lookup_def grows_def split: if_splits)

lemma resolve_Absent: "resolve F f b cur p = Absent d n \<Longrightarrow> node_at F (d @ [n]) = None"
  by (induction F f b cur p rule: resolve.induct) (auto split: option.splits node.splits if_splits)

lemma lookup_Absent: "lookup F f p = Absent d n \<Longrightarrow> node_at F (d @ [n]) = None"
  by (auto simp: lookup_def split: if_splits dest: resolve_Absent)

lemma resolve_set_Absent:
  "resolve F f b cur p = Absent d n \<Longrightarrow> (\<forall>t. nd = Symlink t \<longrightarrow> \<not> f)
     \<Longrightarrow> resolve (set_node (d @ [n]) nd F) f b cur p = Found (d @ [n]) nd"
proof (induction F f b cur p rule: resolve.induct)
  case (5 F f b cur n' r)
  show ?case
  proof (cases "node_at F (cur @ [n'])")
    case None
    with 5 show ?thesis by (auto simp: node_at_set_node split: node.splits if_splits)
  next
    case (Some nd')
    have "cur @ [n'] \<noteq> d @ [n]" using Some resolve_Absent [OF "5.prems"(1)] by auto
    with Some 5 show ?thesis by (auto simp: node_at_set_node split: node.splits if_splits)
  qed
qed auto

lemma lookup_set_Absent:
  "lookup F f p = Absent d n \<Longrightarrow> (\<forall>t. nd = Symlink t \<longrightarrow> \<not> f)
     \<Longrightarrow> lookup (set_node (d @ [n]) nd F) f p = Found (d @ [n]) nd"
  using resolve_set_Absent [of F f 40 "fs_cwd F" p d n nd] by (simp add: lookup_def split: if_splits)

lemma resolve_Found: "resolve F f b cur p = Found q nd \<Longrightarrow> node_at F cur = Some Dir
    \<Longrightarrow> (\<forall>x. node_at F x \<noteq> None \<longrightarrow> node_at F (butlast x) = Some Dir) \<Longrightarrow> node_at F q = Some nd"
  by (induction F f b cur p rule: resolve.induct) (auto split: option.splits node.splits if_splits)

lemma resolve_del_files:
  "resolve F f b cur p = Found q nd \<Longrightarrow> (\<forall>x. P x \<longrightarrow> (\<exists>i. node_at F x = Some (File i))) \<Longrightarrow> \<not> P q
     \<Longrightarrow> resolve (del_nodes P F) f b cur p = Found q nd"
proof (induction F f b cur p rule: resolve.induct)
  case (5 F f b cur n r)
  show ?case
  proof (cases "P (cur @ [n])")
    case True
    with 5 obtain i where "node_at F (cur @ [n]) = Some (File i)" by auto
    with True 5 show ?thesis by (auto split: if_splits)
  next
    case False
    with 5 show ?thesis
      by (auto simp: node_at_del_nodes split: option.splits node.splits if_splits)
  qed
qed auto

lemma lookup_del_files:
  "lookup F f p = Found q nd \<Longrightarrow> (\<forall>x. P x \<longrightarrow> (\<exists>i. node_at F x = Some (File i))) \<Longrightarrow> \<not> P q
     \<Longrightarrow> lookup (del_nodes P F) f p = Found q nd"
  using resolve_del_files [of F f 40 "fs_cwd F" p q nd P] by (simp add: lookup_def split: if_splits)

section \<open>Laws of the calls\<close>

lemma guarded_Inr: "guarded F sc p m = Inr x \<longleftrightarrow> fs_fault F sc p = None \<and> m = Inr x"
  by (simp add: guarded_def split: option.splits)

lemma node_at_fresh_file: "node_at (fresh_file q ino F) r = node_at (set_node q (File (fs_next F)) F) r"
  by (simp add: fresh_file_def node_at_def)

lemma fresh_file_frame [simp]:
  "fs_cwd (fresh_file q ino F) = fs_cwd F" "fs_umask (fresh_file q ino F) = fs_umask F"
  "fs_fault (fresh_file q ino F) = fs_fault F" "fs_next (fresh_file q ino F) = Suc (fs_next F)"
  "fs_inodes (fresh_file q ino F) = (fs_inodes F)(fs_next F := ino)"
  by (simp_all add: fresh_file_def)

lemma lookup_fresh_file:
  assumes "lookup F f p = Absent d n"
  shows "lookup (fresh_file (d @ [n]) ino F) f p = Found (d @ [n]) (File (fs_next F))"
proof -
  have "node_at (fresh_file (d @ [n]) ino F) = node_at (set_node (d @ [n]) (File (fs_next F)) F)"
    by (rule ext) (simp add: node_at_fresh_file)
  then have "lookup (fresh_file (d @ [n]) ino F) f p = lookup (set_node (d @ [n]) (File (fs_next F)) F) f p"
    by (rule lookup_same_nodes) simp
  also have "\<dots> = Found (d @ [n]) (File (fs_next F))" by (rule lookup_set_Absent [OF assms]) simp
  finally show ?thesis .
qed

lemma grows_set_Absent: "node_at F q = None \<Longrightarrow> grows F (set_node q nd F)"
  by (auto simp: grows_def node_at_set_node)

lemma grows_fresh_file: "node_at F q = None \<Longrightarrow> grows F (fresh_file q ino F)"
  by (auto simp: grows_def node_at_fresh_file node_at_set_node)

lemma grows_mkdir: "fs_mkdir F p = Inr F' \<Longrightarrow> grows F F'"
  by (auto simp: fs_mkdir_def guarded_Inr split: resolved.splits
      intro!: grows_set_Absent dest: lookup_Absent)

lemma mkdir_frame:
  "fs_mkdir F p = Inr F' \<Longrightarrow> fs_inodes F' = fs_inodes F \<and> fs_next F' = fs_next F
     \<and> fs_fault F' = fs_fault F \<and> fs_cwd F' = fs_cwd F \<and> fs_umask F' = fs_umask F"
  by (auto simp: fs_mkdir_def guarded_Inr split: resolved.splits)

text \<open>Every step of \<^verbatim>\<open>create_dir_all\<close> is a \<^verbatim>\<open>mkdir\<close>.\<close>

lemma create_dir_all_induct:
  assumes "fs_create_dir_all F p = Inr F'"
    and refl: "\<And>F. R F F"
    and mkdir: "\<And>F q F'. fs_mkdir F q = Inr F' \<Longrightarrow> R F F'"
    and trans: "\<And>F G H. R F G \<Longrightarrow> R G H \<Longrightarrow> R F H"
  shows "R F F'"
  using assms(1)
proof (induction F p arbitrary: F' rule: fs_create_dir_all.induct)
  case (1 F p)
  show ?case
  proof (cases "p = [] \<or> is_ok (fs_mkdir F p) \<or> (\<exists>e. fs_mkdir F p = Inl e \<and> e \<noteq> NotFound)")
    case True
    with "1.prems" show ?thesis
      by (auto simp: fs_create_dir_all.simps [of F p] result_simps refl
          split: if_splits intro: mkdir)
  next
    case False
    then have e: "p \<noteq> []" "fs_mkdir F p = Inl NotFound"
      by (cases "fs_mkdir F p"; auto)+
    with "1.prems" obtain q F1 where q: "path_parent p = Some q" and F1: "fs_create_dir_all F q = Inr F1"
      and c: "(case fs_mkdir F1 p of Inr F2 \<Rightarrow> Inr F2
        | Inl e' \<Rightarrow> if fs_is_dir F1 p then Inr F1 else Inl e') = Inr F'"
      by (auto simp: fs_create_dir_all.simps [of F p] result_simps split: option.splits)
    from c have last: "F' = F1 \<or> fs_mkdir F1 p = Inr F'"
      by (auto split: sum.splits if_splits)
    have "R F F1" by (rule "1.IH" [OF e _ q F1]) simp
    with last show ?thesis using mkdir trans by blast
  qed
qed

lemma grows_create_dir_all: "fs_create_dir_all F p = Inr F' \<Longrightarrow> grows F F'"
  by (erule create_dir_all_induct) (auto intro: grows_mkdir grows_trans)

lemma create_dir_all_frame:
  "fs_create_dir_all F p = Inr F' \<Longrightarrow> fs_inodes F' = fs_inodes F \<and> fs_next F' = fs_next F
     \<and> fs_fault F' = fs_fault F \<and> fs_cwd F' = fs_cwd F \<and> fs_umask F' = fs_umask F"
  by (erule create_dir_all_induct) (auto dest: mkdir_frame)

text \<open>What \<^verbatim>\<open>fs::write\<close> wrote is what \<^verbatim>\<open>fs::read\<close> reads.\<close>

lemma write_lookup:
  assumes "fs_write F p buf = Inr F'"
  shows "\<exists>q i. lookup F' True p = Found q (File i) \<and> in_data (fs_inodes F' i) = buf"
    and "fs_fault F' = fs_fault F"
proof -
  from assms obtain F1 i where o1: "fs_open_create F p 0x1B6 = Inr (F1, i)"
    and w1: "fs_write_all (set_data i [] F1) p i buf = Inr F'"
    by (auto simp: fs_write_def result_simps)
  from o1 have l: "\<exists>q. lookup F1 True p = Found q (File i)" and f1: "fs_fault F1 = fs_fault F"
    by (auto simp: fs_open_create_def guarded_Inr split: resolved.splits node.splits
        dest: lookup_fresh_file)
  from w1 have F': "F' = set_data i buf (set_data i [] F1)"
    by (auto simp: fs_write_all_def guarded_Inr set_data_def)
  then have "lookup F' True p = lookup F1 True p"
    by (intro lookup_same_nodes) simp_all
  with l F' show "\<exists>q i. lookup F' True p = Found q (File i) \<and> in_data (fs_inodes F' i) = buf"
    by (auto simp: set_data_def)
  from F' f1 show "fs_fault F' = fs_fault F" by simp
qed

lemma read_after_write:
  "fs_write F p buf = Inr F' \<Longrightarrow> fs_fault F ReadFile p = None \<Longrightarrow> fs_read F' p = Inr buf"
  using write_lookup [of F p buf F'] by (auto simp: fs_read_def guarded_Inr)

lemma exists_after_write:
  "fs_write F p buf = Inr F' \<Longrightarrow> fs_fault F Stat p = None \<Longrightarrow> fs_exists F' p"
  using write_lookup [of F p buf F'] by (auto simp: fs_exists_def fs_metadata_def guarded_def)

text \<open>An empty file system, on which the closed examples run.\<close>

definition empty_fs :: fs where
  "empty_fs =
     \<lparr> fs_nodes = [], fs_inodes = (\<lambda>_. \<lparr> in_data = [], in_mode = 0 \<rparr>), fs_next = 0, fs_cwd = [],
       fs_umask = 0x12, fs_fault = (\<lambda>_ _. None) \<rparr>"

end
