(* ===== verification/Actions.thy ===== *)
theory Actions
  imports Prelude
begin

text \<open>
  Stateful computations that may fail: what the effectful functions of the program are. The
  state an error leaves behind is kept, since callers go on with it.
\<close>

type_synonym ('s, 'e, 'a) action = "'s \<Rightarrow> 's \<times> ('e + 'a)"

definition act_return :: "'a \<Rightarrow> ('s, 'e, 'a) action" where
  "act_return x = (\<lambda>s. (s, Inr x))"

definition act_throw :: "'e \<Rightarrow> ('s, 'e, 'a) action" where
  "act_throw e = (\<lambda>s. (s, Inl e))"

definition act_bind :: "('s, 'e, 'a) action \<Rightarrow> ('a \<Rightarrow> ('s, 'e, 'b) action) \<Rightarrow> ('s, 'e, 'b) action" where
  "act_bind m f = (\<lambda>s. case m s of (s', Inl e) \<Rightarrow> (s', Inl e) | (s', Inr x) \<Rightarrow> f x s')"

abbreviation act_then :: "('s, 'e, unit) action \<Rightarrow> ('s, 'e, 'b) action \<Rightarrow> ('s, 'e, 'b) action" where
  "act_then m m' \<equiv> act_bind m (\<lambda>_. m')"

text \<open>A result that depends on the state and does not change it.\<close>

definition act_read :: "('s \<Rightarrow> 'e + 'a) \<Rightarrow> ('s, 'e, 'a) action" where
  "act_read f = (\<lambda>s. (s, f s))"

text \<open>A call that changes the state when it succeeds.\<close>

definition act_call :: "('s \<Rightarrow> 'e + 's) \<Rightarrow> ('s, 'e, unit) action" where
  "act_call f = (\<lambda>s. case f s of Inl e \<Rightarrow> (s, Inl e) | Inr s' \<Rightarrow> (s', Inr ()))"

text \<open>A call that returns a value with the new state.\<close>

definition act_run :: "('s \<Rightarrow> 'e + 's \<times> 'a) \<Rightarrow> ('s, 'e, 'a) action" where
  "act_run f = (\<lambda>s. case f s of Inl e \<Rightarrow> (s, Inl e) | Inr (s', x) \<Rightarrow> (s', Inr x))"

definition act_map_err :: "('e \<Rightarrow> 'f) \<Rightarrow> ('s, 'e, 'a) action \<Rightarrow> ('s, 'f, 'a) action" where
  "act_map_err g m = (\<lambda>s. case m s of (s', r) \<Rightarrow> (s', map_err g r))"

text \<open>The result of a computation as a value, its failure included.\<close>

definition act_catch :: "('s, 'e, 'a) action \<Rightarrow> ('s, 'f, 'e + 'a) action" where
  "act_catch m = (\<lambda>s. case m s of (s', r) \<Rightarrow> (s', Inr r))"

text \<open>A computation on a part of the state.\<close>

definition act_on :: "('s \<Rightarrow> 't) \<Rightarrow> ('t \<Rightarrow> 's \<Rightarrow> 's) \<Rightarrow> ('t, 'e, 'a) action \<Rightarrow> ('s, 'e, 'a) action" where
  "act_on get put m = (\<lambda>s. case m (get s) of (t, r) \<Rightarrow> (put t s, r))"

text \<open>One action per element, stopping at the first error.\<close>

fun act_each :: "('a \<Rightarrow> ('s, 'e, 'b) action) \<Rightarrow> 'a list \<Rightarrow> ('s, 'e, 'b list) action" where
  "act_each f [] = act_return []"
| "act_each f (x # xs) = act_bind (f x) (\<lambda>y. act_bind (act_each f xs) (\<lambda>ys. act_return (y # ys)))"

text \<open>A loop for its effects.\<close>

definition act_for :: "('a \<Rightarrow> ('s, 'e, unit) action) \<Rightarrow> 'a list \<Rightarrow> ('s, 'e, unit) action" where
  "act_for f xs = act_bind (act_each f xs) (\<lambda>_. act_return ())"

text \<open>Errors that are also panics.\<close>

abbreviation act_err :: "('s, 'e, 'a) action \<Rightarrow> ('s, 'e failure, 'a) action" where
  "act_err \<equiv> act_map_err Err"

definition map_failure_err :: "('e \<Rightarrow> 'f) \<Rightarrow> 'e failure \<Rightarrow> 'f failure" where
  "map_failure_err g x = (case x of Err e \<Rightarrow> Err (g e) | Panic m \<Rightarrow> Panic m | Blocked \<Rightarrow> Blocked | OutOfFuel \<Rightarrow> OutOfFuel)"

lemma map_failure_err_simps [simp]:
  "map_failure_err g (Err e) = Err (g e)" "map_failure_err g (Panic m) = Panic m"
  "map_failure_err g Blocked = Blocked" "map_failure_err g OutOfFuel = OutOfFuel"
  by (simp_all add: map_failure_err_def)

text \<open>\<^verbatim>\<open>unwrap\<close> and \<^verbatim>\<open>expect\<close>: an error becomes a panic.\<close>

definition act_expect :: "string \<Rightarrow> ('s, 'e failure, 'a) action \<Rightarrow> ('s, 'f failure, 'a) action" where
  "act_expect msg =
     act_map_err (\<lambda>x. case x of Err _ \<Rightarrow> Panic msg | Panic m \<Rightarrow> Panic m | Blocked \<Rightarrow> Blocked | OutOfFuel \<Rightarrow> OutOfFuel)"

section \<open>Evaluation\<close>

named_theorems act_simps \<open>evaluation of actions\<close>

lemma act_eval [act_simps]:
  "act_return x s = (s, Inr x)"
  "act_throw e s = (s, Inl e)"
  "act_read h0 s = (s, h0 s)"
  "act_bind m f s = (case m s of (s', Inl e) \<Rightarrow> (s', Inl e) | (s', Inr x) \<Rightarrow> f x s')"
  "act_call h s = (case h s of Inl e \<Rightarrow> (s, Inl e) | Inr s' \<Rightarrow> (s', Inr ()))"
  "act_run k s = (case k s of Inl e \<Rightarrow> (s, Inl e) | Inr (s', x) \<Rightarrow> (s', Inr x))"
  "act_map_err g m s = (fst (m s), map_err g (snd (m s)))"
  "act_catch m s = (fst (m s), Inr (snd (m s)))"
  by (simp_all add: act_return_def act_throw_def act_read_def act_bind_def act_call_def act_run_def
      act_map_err_def act_catch_def split: prod.split)

lemma act_bind_Inr [result_simps]:
  "act_bind m f s = (s', Inr y) \<longleftrightarrow> (\<exists>s1 x. m s = (s1, Inr x) \<and> f x s1 = (s', Inr y))"
  by (auto simp: act_bind_def split: prod.splits sum.splits)

lemma act_bind_Inl [result_simps]:
  "act_bind m f s = (s', Inl e) \<longleftrightarrow>
     m s = (s', Inl e) \<or> (\<exists>s1 x. m s = (s1, Inr x) \<and> f x s1 = (s', Inl e))"
  by (auto simp: act_bind_def split: prod.splits sum.splits)

lemma act_return_eq [result_simps]: "act_return x s = (s', r) \<longleftrightarrow> s' = s \<and> r = Inr x"
  by (auto simp: act_return_def)

lemma act_throw_eq [result_simps]: "act_throw e s = (s', r) \<longleftrightarrow> s' = s \<and> r = Inl e"
  by (auto simp: act_throw_def)

lemma act_read_eq [result_simps]: "act_read f s = (s', r) \<longleftrightarrow> s' = s \<and> f s = r"
  by (auto simp: act_read_def)

lemma act_call_Inr [result_simps]: "act_call f s = (s', Inr u) \<longleftrightarrow> f s = Inr s'"
  by (auto simp: act_call_def split: sum.splits)

lemma act_call_Inl [result_simps]: "act_call f s = (s', Inl e) \<longleftrightarrow> f s = Inl e \<and> s' = s"
  by (auto simp: act_call_def split: sum.splits)

lemma act_run_Inr [result_simps]: "act_run f s = (s', Inr x) \<longleftrightarrow> f s = Inr (s', x)"
  by (auto simp: act_run_def split: sum.splits)

lemma act_run_Inl [result_simps]: "act_run f s = (s', Inl e) \<longleftrightarrow> f s = Inl e \<and> s' = s"
  by (auto simp: act_run_def split: sum.splits)

lemma act_map_err_eq_Inr [result_simps]: "act_map_err g m s = (s', Inr y) \<longleftrightarrow> m s = (s', Inr y)"
  by (auto simp: act_map_err_def result_simps split: prod.splits)

lemma act_map_err_eq_Inl [result_simps]:
  "act_map_err g m s = (s', Inl e) \<longleftrightarrow> (\<exists>e'. m s = (s', Inl e') \<and> e = g e')"
  by (auto simp: act_map_err_def result_simps split: prod.splits)

lemma act_expect_Inr [result_simps]: "act_expect msg m s = (s', Inr y) \<longleftrightarrow> m s = (s', Inr y)"
  by (simp add: act_expect_def result_simps)

lemma act_catch_eq [result_simps]:
  "act_catch m s = (s', r) \<longleftrightarrow> (\<exists>q. m s = (s', q) \<and> r = Inr q)"
  by (auto simp: act_catch_def split: prod.splits)

lemma act_bind_cong [fundef_cong]:
  "m s = m' s' \<Longrightarrow> (\<And>s1 x. m' s' = (s1, Inr x) \<Longrightarrow> f x s1 = g x s1)
     \<Longrightarrow> act_bind m f s = act_bind m' g s'"
  by (auto simp: act_bind_def split: prod.split sum.split)

lemma ex_state: "snd x = r \<Longrightarrow> \<exists>s. x = (s, r)"
  by (cases x) simp

lemma act_for_Nil [simp]: "act_for f [] = act_return ()"
  by (simp add: act_for_def act_bind_def act_return_def)

lemma act_for_Cons_Inr:
  "act_for f (x # xs) s = (s', Inr ()) \<longleftrightarrow> (\<exists>s1. f x s = (s1, Inr ()) \<and> act_for f xs s1 = (s', Inr ()))"
  by (auto simp: act_for_def result_simps)

lemma act_for_map: "act_for f (map h xs) = act_for (\<lambda>x. f (h x)) xs"
proof -
  have "act_each f (map h xs) = act_each (\<lambda>x. f (h x)) xs" by (induction xs) simp_all
  then show ?thesis by (simp add: act_for_def)
qed

lemma act_for_cong: "(\<And>x. x \<in> set xs \<Longrightarrow> f x = g x) \<Longrightarrow> act_for f xs = act_for g xs"
proof -
  assume "\<And>x. x \<in> set xs \<Longrightarrow> f x = g x"
  then have "act_each f xs = act_each g xs" by (induction xs) simp_all
  then show ?thesis by (simp add: act_for_def)
qed

text \<open>What holds of every single result holds of the list.\<close>

lemma each_results:
  assumes "act_each f xs s = (s', Inr ys)" and "\<And>x s s' y. f x s = (s', Inr y) \<Longrightarrow> P x y"
  shows "list_all2 P xs ys"
  using assms(1) by (induction xs arbitrary: s ys) (auto simp: result_simps dest: assms(2))

text \<open>
  \<open>refines e m m'\<close>: \<open>m'\<close> does what \<open>m\<close> does wherever \<open>m\<close> does not fail with \<open>e\<close>. More fuel refines.
\<close>

definition refines :: "'e \<Rightarrow> ('s, 'e, 'a) action \<Rightarrow> ('s, 'e, 'a) action \<Rightarrow> bool" where
  "refines e m m' \<longleftrightarrow> (\<forall>s. snd (m s) = Inl e \<or> m' s = m s)"

lemma refines_refl [simp]: "refines e m m"
  by (simp add: refines_def)

lemma refines_bind:
  assumes "refines e m m'" and "\<And>x. refines e (f x) (f' x)"
  shows "refines e (act_bind m f) (act_bind m' f')"
  unfolding refines_def
proof
  fix s
  obtain s1 r where r: "m s = (s1, r)" by (cases "m s")
  have m: "r = Inl e \<or> m' s = (s1, r)" using assms(1) r unfolding refines_def by (metis snd_conv)
  show "snd (act_bind m f s) = Inl e \<or> act_bind m' f' s = act_bind m f s"
  proof (cases r)
    case (Inl e')
    with m r show ?thesis by (auto simp: act_bind_def)
  next
    case (Inr x)
    have "snd (f x s1) = Inl e \<or> f' x s1 = f x s1" using assms(2) unfolding refines_def by blast
    with m r Inr show ?thesis by (auto simp: act_bind_def)
  qed
qed

lemma refines_each: "(\<And>x. x \<in> set xs \<Longrightarrow> refines e (f x) (f' x)) \<Longrightarrow> refines e (act_each f xs) (act_each f' xs)"
  by (induction xs) (auto intro!: refines_bind)

text \<open>An action that is no bounded recursion.\<close>

definition fuel_free :: "('s, 'e failure, 'a) action \<Rightarrow> bool" where
  "fuel_free m \<longleftrightarrow> (\<forall>s. snd (m s) \<noteq> Inl OutOfFuel)"

lemma fuel_freeD: "fuel_free m \<Longrightarrow> m s = (s', r) \<Longrightarrow> r \<noteq> Inl OutOfFuel"
  unfolding fuel_free_def by (metis snd_conv)

lemma fuel_free_simps [simp]:
  "fuel_free (act_return x)" "fuel_free (act_throw (Err e))" "fuel_free (act_throw (Panic m))"
  "fuel_free (act_catch a)"
  by (simp_all add: fuel_free_def act_simps)

lemma fuel_free_read: "(\<And>s. f s \<noteq> Inl OutOfFuel) \<Longrightarrow> fuel_free (act_read f)"
  by (simp add: fuel_free_def act_simps)

lemma fuel_free_map_err: "(\<And>e. g e \<noteq> OutOfFuel) \<Longrightarrow> fuel_free (act_map_err g m)"
  by (auto simp: fuel_free_def act_map_err_def result_simps split: prod.split) (metis (no_types))

lemma fuel_free_bind: "fuel_free m \<Longrightarrow> (\<And>x. fuel_free (f x)) \<Longrightarrow> fuel_free (act_bind m f)"
  by (auto simp: fuel_free_def act_bind_def split: prod.split sum.split) (metis snd_conv)

lemma fuel_free_on: "fuel_free m \<Longrightarrow> fuel_free (act_on g p m)"
  by (auto simp: fuel_free_def act_on_def split: prod.split) (metis snd_conv)

lemmas fuel_free_intros = fuel_free_read fuel_free_map_err fuel_free_bind fuel_free_on

section \<open>What every run of an action does to the state\<close>

text \<open>
  \<open>steps R m\<close>: whatever the outcome, the state after is related to the state before. For a
  preorder it composes; frames, growth and invariants are proved with it.
\<close>

definition steps :: "('s \<Rightarrow> 's \<Rightarrow> bool) \<Rightarrow> ('s, 'e, 'a) action \<Rightarrow> bool" where
  "steps R m \<longleftrightarrow> (\<forall>s. R s (fst (m s)))"

lemma stepsD: "steps R m \<Longrightarrow> m s = (s', r) \<Longrightarrow> R s s'"
  unfolding steps_def by (metis fst_conv)

text \<open>The interface of a state relation, with the composition rules proved once.\<close>

locale state_order =
  fixes R :: "'s \<Rightarrow> 's \<Rightarrow> bool"
  assumes refl: "R s s"
    and trans: "R a b \<Longrightarrow> R b c \<Longrightarrow> R a c"
begin

lemma steps_return: "steps R (act_return x)"
  by (simp add: steps_def act_return_def refl)

lemma steps_throw: "steps R (act_throw e)"
  by (simp add: steps_def act_throw_def refl)

lemma steps_read: "steps R (act_read f)"
  by (simp add: steps_def act_read_def refl)

lemma steps_call: "(\<And>s s'. f s = Inr s' \<Longrightarrow> R s s') \<Longrightarrow> steps R (act_call f)"
  by (auto simp: steps_def act_call_def refl split: sum.split)

lemma steps_run: "(\<And>s s' x. f s = Inr (s', x) \<Longrightarrow> R s s') \<Longrightarrow> steps R (act_run f)"
  by (auto simp: steps_def act_run_def refl split: sum.split)

lemma steps_map_err: "steps R m \<Longrightarrow> steps R (act_map_err g m)"
  by (auto simp: steps_def act_map_err_def split: prod.split) (metis fst_conv)

lemma steps_expect: "steps R m \<Longrightarrow> steps R (act_expect msg m)"
  unfolding act_expect_def by (rule steps_map_err)

lemma steps_catch: "steps R m \<Longrightarrow> steps R (act_catch m)"
  by (auto simp: steps_def act_catch_def split: prod.split) (metis fst_conv)

lemma steps_bind:
  assumes m: "steps R m" and f: "\<And>x. steps R (f x)"
  shows "steps R (act_bind m f)"
  unfolding steps_def
proof
  fix s
  obtain s1 r where r: "m s = (s1, r)" by (cases "m s")
  have "R s s1" by (rule stepsD [OF m r])
  moreover have "R s1 (fst (f x s1))" for x using f unfolding steps_def by blast
  ultimately show "R s (fst (act_bind m f s))"
    by (cases r) (auto simp: act_bind_def r intro: trans)
qed

lemma steps_each: "(\<And>x. steps R (f x)) \<Longrightarrow> steps R (act_each f xs)"
  by (induction xs) (auto intro!: steps_bind steps_return)

text \<open>A loop that keeps an invariant \<open>I\<close>, moves along \<open>R\<close>, and whose results stay true along \<open>R\<close>.\<close>

lemma each_run:
  assumes step: "\<And>x s s' y. x \<in> set xs \<Longrightarrow> I s \<Longrightarrow> f x s = (s', Inr y) \<Longrightarrow> I s' \<and> R s s' \<and> Q x y s'"
    and stable: "\<And>x y s s'. Q x y s \<Longrightarrow> R s s' \<Longrightarrow> Q x y s'"
    and run: "act_each f xs s = (s', Inr ys)" and inv: "I s"
  shows "I s' \<and> R s s' \<and> list_all2 (\<lambda>x y. Q x y s') xs ys"
  using step run inv
proof (induction xs arbitrary: s ys)
  case Nil
  then show ?case by (auto simp: result_simps refl)
next
  case (Cons x xs)
  then obtain s1 y ys1 where y: "f x s = (s1, Inr y)" and ys: "act_each f xs s1 = (s', Inr ys1)"
    and eq: "ys = y # ys1"
    by (auto simp: result_simps)
  from Cons.prems(1) [OF _ Cons.prems(3) y] have s1: "I s1" "R s s1" "Q x y s1" by auto
  have "I s' \<and> R s1 s' \<and> list_all2 (\<lambda>x y. Q x y s') xs ys1"
  proof (rule Cons.IH [of s1 ys1])
    fix z s s' y assume "z \<in> set xs" "I s" "f z s = (s', Inr y)"
    then show "I s' \<and> R s s' \<and> Q z y s'" by (intro Cons.prems(1)) simp_all
  qed (rule ys, rule s1(1))
  then have r: "I s'" "R s1 s'" "list_all2 (\<lambda>x y. Q x y s') xs ys1" by blast+
  have "R s s'" by (rule trans [OF s1(2) r(2)])
  moreover have "Q x y s'" by (rule stable [OF s1(3) r(2)])
  ultimately show ?case using r eq by simp
qed

text \<open>The same with an invariant on what is left to do.\<close>

lemma each_run_todo:
  assumes step: "\<And>x xs s s' y. I (x # xs) s \<Longrightarrow> f x s = (s', Inr y) \<Longrightarrow> I xs s' \<and> R s s' \<and> Q x s'"
    and stable: "\<And>x xs s s'. Q x s \<Longrightarrow> I xs s \<Longrightarrow> R s s' \<Longrightarrow> Q x s'"
  shows "act_each f xs s = (s', Inr ys) \<Longrightarrow> I xs s \<Longrightarrow> I [] s' \<and> R s s' \<and> (\<forall>x \<in> set xs. Q x s')"
proof (induction xs arbitrary: s ys)
  case Nil
  then show ?case by (simp add: result_simps refl)
next
  case (Cons x xs)
  from Cons.prems(1) obtain s1 y ys1 where one: "f x s = (s1, Inr y)" and rest: "act_each f xs s1 = (s', Inr ys1)"
    by (auto simp: result_simps)
  from step [OF Cons.prems(2) one] have s1: "I xs s1" "R s s1" "Q x s1" by auto
  from Cons.IH [OF rest s1(1)] have ih: "I [] s'" "R s1 s'" "\<forall>x \<in> set xs. Q x s'" by auto
  from stable [OF s1(3,1) ih(2)] ih trans [OF s1(2) ih(2)] show ?case by simp
qed

lemma each_fail:
  assumes step: "\<And>x s s' y. x \<in> set xs \<Longrightarrow> I s \<Longrightarrow> f x s = (s', Inr y) \<Longrightarrow> I s' \<and> R s s'"
    and run: "act_each f xs s = (s', Inl e)" and inv: "I s"
  shows "\<exists>x \<in> set xs. \<exists>s1. I s1 \<and> R s s1 \<and> f x s1 = (s', Inl e)"
  using step run inv
proof (induction xs arbitrary: s)
  case Nil
  then show ?case by (auto simp: result_simps)
next
  case (Cons x xs)
  show ?case
  proof (cases "f x s = (s', Inl e)")
    case True
    with Cons.prems(3) refl show ?thesis by auto
  next
    case False
    with Cons.prems(2) obtain s1 y where y: "f x s = (s1, Inr y)" and r: "act_each f xs s1 = (s', Inl e)"
      by (auto simp: result_simps)
    from Cons.prems(1) [OF _ Cons.prems(3) y] have s1: "I s1" "R s s1" by auto
    have "\<exists>x \<in> set xs. \<exists>s2. I s2 \<and> R s1 s2 \<and> f x s2 = (s', Inl e)"
    proof (rule Cons.IH [of s1])
      fix z s s' y assume "z \<in> set xs" "I s" "f z s = (s', Inr y)"
      then show "I s' \<and> R s s'" by (intro Cons.prems(1)) simp_all
    qed (rule r, rule s1(1))
    then obtain z s2 where z: "z \<in> set xs" "I s2" "R s1 s2" "f z s2 = (s', Inl e)" by blast
    have "R s s2" by (rule trans [OF s1(2) z(3)])
    with z show ?thesis by auto
  qed
qed

lemmas steps_intros =
  steps_return steps_throw steps_read steps_call steps_run steps_map_err steps_expect steps_catch
  steps_bind steps_each

end

end
