(* ===== verification/File_Tree.thy ===== *)
theory File_Tree
  imports File_System Actions
begin

text \<open>
  Well-formed file systems and absolute paths: where no symbolic link is on the way, a path
  names the node at its own names. The component proofs reason about nodes with these laws.
\<close>

section \<open>Well-formed trees\<close>

definition tree_ok :: "fs \<Rightarrow> bool" where
  "tree_ok F \<longleftrightarrow>
     (\<forall>q. q \<noteq> [] \<longrightarrow> node_at F q \<noteq> None \<longrightarrow> node_at F (butlast q) = Some Dir)
     \<and> (\<forall>q i. node_at F q = Some (File i) \<longrightarrow> i < fs_next F)"

lemma tree_okD:
  "tree_ok F \<Longrightarrow> node_at F (d @ [n]) = Some nd \<Longrightarrow> node_at F d = Some Dir"
  "tree_ok F \<Longrightarrow> node_at F q = Some (File i) \<Longrightarrow> i < fs_next F"
  by (auto simp: tree_ok_def dest!: spec [of _ "d @ [n]"])

lemma tree_ok_prefix:
  "tree_ok F \<Longrightarrow> node_at F (a @ b) = Some nd \<Longrightarrow> b \<noteq> [] \<Longrightarrow> node_at F a = Some Dir"
proof (induction b arbitrary: nd rule: rev_induct)
  case (snoc x b)
  then have "node_at F (a @ b) = Some Dir" using tree_okD(1) [of F "a @ b" x nd] by simp
  with snoc show ?case by (cases "b = []") auto
qed simp

lemma tree_ok_set_node:
  assumes "tree_ok F" and "node_at F d = Some Dir" and "node_at F (d @ [n]) = None"
    and "\<And>i. nd = File i \<Longrightarrow> i < fs_next F"
  shows "tree_ok (set_node (d @ [n]) nd F)"
proof -
  have "node_at (set_node (d @ [n]) nd F) (butlast q) = Some Dir"
    if "q \<noteq> []" and "node_at (set_node (d @ [n]) nd F) q \<noteq> None" for q
  proof -
    have "node_at F (butlast q) = Some Dir"
      using that assms by (cases "q = d @ [n]") (auto simp: node_at_set_node tree_ok_def)
    then show ?thesis using assms(3) by (auto simp: node_at_set_node)
  qed
  moreover have "i < fs_next F" if "node_at (set_node (d @ [n]) nd F) q = Some (File i)" for q i
    using that assms(4) tree_okD(2) [OF assms(1)] by (auto simp: node_at_set_node split: if_splits)
  ultimately show ?thesis unfolding tree_ok_def by simp
qed

lemma tree_ok_fresh_file:
  assumes "tree_ok F" and "node_at F d = Some Dir" and "node_at F (d @ [n]) = None"
  shows "tree_ok (fresh_file (d @ [n]) ino F)"
proof -
  let ?G = "F\<lparr>fs_next := Suc (fs_next F)\<rparr>"
  have same: "node_at ?G = node_at F" by (simp add: node_at_def fun_eq_iff)
  have "tree_ok ?G" using assms(1) by (auto simp: tree_ok_def same less_Suc_eq)
  then have "tree_ok (set_node (d @ [n]) (File (fs_next F)) ?G)"
    using assms(2,3) by (intro tree_ok_set_node) (simp_all add: same)
  moreover have "node_at (set_node (d @ [n]) (File (fs_next F)) ?G) = node_at (fresh_file (d @ [n]) ino F)"
    by (simp add: fun_eq_iff node_at_fresh_file node_at_set_node same)
  ultimately show ?thesis by (simp add: tree_ok_def)
qed

lemma tree_ok_same_nodes:
  "tree_ok F \<Longrightarrow> node_at F' = node_at F \<Longrightarrow> fs_next F' = fs_next F \<Longrightarrow> tree_ok F'"
  by (simp add: tree_ok_def)

lemma tree_ok_set_data [simp]: "tree_ok (set_data i d F) = tree_ok F"
  by (simp add: tree_ok_def)

lemma tree_ok_del_nodes:
  assumes "tree_ok F" and "\<And>q n. P q \<Longrightarrow> node_at F (q @ [n]) \<noteq> None \<Longrightarrow> P (q @ [n])"
    and "\<not> P []"
  shows "tree_ok (del_nodes P F)"
proof -
  have "node_at (del_nodes P F) (butlast q) = Some Dir"
    if q: "q \<noteq> []" and n: "node_at (del_nodes P F) q \<noteq> None" for q
  proof -
    obtain d n where dn: "q = d @ [n]" using q by (cases q rule: rev_cases) auto
    from n dn have "node_at F (d @ [n]) \<noteq> None" and "\<not> P (d @ [n])"
      by (auto simp: node_at_del_nodes split: if_splits)
    with assms(1,2) dn show ?thesis using tree_okD(1) [OF assms(1), of d n]
      by (auto simp: node_at_del_nodes)
  qed
  moreover have "i < fs_next F" if "node_at (del_nodes P F) q = Some (File i)" for q i
    using that tree_okD(2) [OF assms(1)] by (auto simp: node_at_del_nodes split: if_splits)
  ultimately show ?thesis unfolding tree_ok_def by simp
qed

section \<open>Absolute paths without links on the way\<close>

definition plain :: "fs \<Rightarrow> names \<Rightarrow> bool" where
  "plain F ns \<longleftrightarrow> (\<forall>k t. node_at F (take k ns) \<noteq> Some (Symlink t))"

lemma plain_prefix: "plain F (a @ b) \<Longrightarrow> plain F a"
  unfolding plain_def by (metis append_eq_conv_conj append_take_drop_id take_append take_take)

lemma plain_snoc: "plain F (a @ [n]) \<longleftrightarrow> plain F a \<and> (\<forall>t. node_at F (a @ [n]) \<noteq> Some (Symlink t))"
proof
  assume p: "plain F (a @ [n])"
  then have "\<forall>t. node_at F (take (length (a @ [n])) (a @ [n])) \<noteq> Some (Symlink t)"
    unfolding plain_def by blast
  then show "plain F a \<and> (\<forall>t. node_at F (a @ [n]) \<noteq> Some (Symlink t))"
    using plain_prefix [OF p] by simp
next
  assume "plain F a \<and> (\<forall>t. node_at F (a @ [n]) \<noteq> Some (Symlink t))"
  then show "plain F (a @ [n])"
    unfolding plain_def by (auto simp: take_Cons' split: nat.splits)
qed

lemma plain_Nil [simp]: "plain F []"
  by (simp add: plain_def)

lemma plain_same_nodes: "node_at F' = node_at F \<Longrightarrow> plain F' ns = plain F ns"
  by (simp add: plain_def)

lemma tree_ok_plain:
  "tree_ok F \<Longrightarrow> node_at F ns = Some nd \<Longrightarrow> (\<forall>t. nd \<noteq> Symlink t) \<Longrightarrow> plain F ns"
proof (induction ns arbitrary: nd rule: rev_induct)
  case (snoc n d)
  then show ?case using tree_okD(1) [of F d n nd] by (auto simp: plain_snoc)
qed simp

lemma resolve_names:
  assumes "tree_ok F" and "node_at F cur = Some Dir"
  shows "node_at F (cur @ ns) = Some nd \<Longrightarrow> (\<forall>t. nd = Symlink t \<longrightarrow> \<not> f) \<Longrightarrow>
    resolve F f b cur (map Normal ns) = Found (cur @ ns) nd"
  using assms(2)
proof (induction ns arbitrary: cur)
  case Nil
  then show ?case by simp
next
  case (Cons n ns)
  show ?case
  proof (cases "ns = []")
    case True
    with Cons show ?thesis by (auto split: node.split)
  next
    case False
    have "node_at F (cur @ [n]) = Some Dir"
      using tree_ok_prefix [OF assms(1), of "cur @ [n]" ns nd] Cons.prems False by simp
    with Cons show ?thesis by simp
  qed
qed

lemma lookup_abs: "lookup F f (abs_path ns) = resolve F f 40 [] (map Normal ns)"
  by (simp add: lookup_def abs_path_def)

lemma lookup_node:
  "tree_ok F \<Longrightarrow> node_at F ns = Some nd \<Longrightarrow> (\<forall>t. nd = Symlink t \<longrightarrow> \<not> f)
     \<Longrightarrow> lookup F f (abs_path ns) = Found ns nd"
  using resolve_names [of F "[]" ns nd f 40] by (simp add: lookup_abs)

lemma resolve_names_None:
  assumes "plain F (cur @ ns)"
  shows "node_at F cur = Some Dir \<Longrightarrow> node_at F (cur @ ns) = None \<Longrightarrow>
    (\<exists>e. resolve F f b cur (map Normal ns) = Bad e)
    \<or> (\<exists>d n. cur @ ns = d @ [n] \<and> node_at F d = Some Dir
         \<and> resolve F f b cur (map Normal ns) = Absent d n)"
  using assms
proof (induction ns arbitrary: cur)
  case Nil
  then show ?case by simp
next
  case (Cons n ns)
  show ?case
  proof (cases "node_at F (cur @ [n])")
    case None
    with Cons.prems show ?thesis by (cases "ns = []") auto
  next
    case (Some nd)
    have "plain F (cur @ [n])" using plain_prefix [of F "cur @ [n]" ns] Cons.prems by simp
    then have "\<And>t. nd \<noteq> Symlink t" using Some by (simp add: plain_snoc)
    with Some Cons.prems Cons.IH [of "cur @ [n]"] show ?thesis by (cases nd) auto
  qed
qed

lemma lookup_None:
  "plain F ns \<Longrightarrow> node_at F ns = None \<Longrightarrow>
     (\<exists>e. lookup F f (abs_path ns) = Bad e)
     \<or> (\<exists>d n. ns = d @ [n] \<and> node_at F d = Some Dir \<and> lookup F f (abs_path ns) = Absent d n)"
  using resolve_names_None [of F "[]" ns f 40] by (simp add: lookup_abs)

lemma resolve_names_snoc:
  assumes "tree_ok F" and "node_at F (cur @ d) = Some Dir" and "node_at F (cur @ d @ [n]) = None"
  shows "node_at F cur = Some Dir \<Longrightarrow> resolve F f b cur (map Normal (d @ [n])) = Absent (cur @ d) n"
  using assms(2,3)
proof (induction d arbitrary: cur)
  case Nil
  then show ?case by simp
next
  case (Cons m d)
  have "node_at F (cur @ [m]) = Some Dir"
    using tree_ok_prefix [OF assms(1), of "cur @ [m]" d Dir] Cons.prems by (cases "d = []") auto
  with Cons show ?case by simp
qed

lemma lookup_child_None:
  "tree_ok F \<Longrightarrow> node_at F d = Some Dir \<Longrightarrow> node_at F (d @ [n]) = None
     \<Longrightarrow> lookup F f (abs_path (d @ [n])) = Absent d n"
  using resolve_names_snoc [of F "[]" d n f 40] by (simp add: lookup_abs)

text \<open>On a plain path, resolution is the lookup of the node.\<close>

lemma lookup_Found_iff:
  assumes "tree_ok F" and "plain F ns"
  shows "lookup F f (abs_path ns) = Found q nd \<longleftrightarrow> q = ns \<and> node_at F ns = Some nd"
proof (cases "node_at F ns")
  case None
  then show ?thesis using lookup_None [OF assms(2) None, of f] by auto
next
  case (Some nd')
  have "\<forall>k t. node_at F (take k ns) \<noteq> Some (Symlink t)" using assms(2) by (simp add: plain_def)
  from this [rule_format, of "length ns"] Some have "\<forall>t. nd' \<noteq> Symlink t" by simp
  then have "lookup F f (abs_path ns) = Found ns nd'" by (intro lookup_node assms Some) simp
  with Some show ?thesis by auto
qed

lemma exists_iff:
  assumes "tree_ok F" and "plain F ns" and "fs_fault F Stat (abs_path ns) = None"
  shows "fs_exists F (abs_path ns) \<longleftrightarrow> node_at F ns \<noteq> None"
proof (cases "node_at F ns")
  case None
  then show ?thesis
    using lookup_None [OF assms(2), of True] by (auto simp: fs_exists_def fs_metadata_def guarded_def assms(3))
next
  case (Some nd)
  then have "lookup F True (abs_path ns) = Found ns nd" by (simp add: lookup_Found_iff assms)
  with Some show ?thesis by (simp add: fs_exists_def fs_metadata_def guarded_def assms(3))
qed

lemma read_node:
  assumes "tree_ok F" and "node_at F ns = Some (File i)" and "fs_fault F ReadFile (abs_path ns) = None"
  shows "fs_read F (abs_path ns) = Inr (in_data (fs_inodes F i))"
  using lookup_node [OF assms(1,2), of True] by (simp add: fs_read_def guarded_def assms(3))

lemma abs_path_parent [simp]: "path_parent (abs_path (d @ [n])) = Some (abs_path d)"
proof -
  have "abs_path (d @ [n]) = abs_path d @ [Normal n]" by (simp add: abs_path_def)
  then show ?thesis by (simp only: path_parent_snoc)
qed

lemma abs_path_snoc [simp]: "abs_path d @ Normal s # ps = abs_path (d @ [s]) @ ps"
  by (simp add: abs_path_def)

lemma abs_path_inject [simp]: "abs_path a = abs_path b \<longleftrightarrow> a = b"
  by (auto simp: abs_path_def inj_map_eq_map inj_def)

section \<open>Directories\<close>

lemma not_prefix_longer [simp]: "\<not> prefix (d @ n # r) d"
  by (auto dest!: prefix_length_le)

lemma set_dir_names: "n \<in> set (dir_names F q) \<longleftrightarrow> node_at F (q @ [n]) \<noteq> None"
proof
  assume "n \<in> set (dir_names F q)"
  then obtain e where "e \<in> set (fs_nodes F)" "fst e = q @ [n]"
    by (auto simp: dir_names_def)
  then show "node_at F (q @ [n]) \<noteq> None" by (auto simp: node_at_def map_of_eq_None_iff intro: rev_image_eqI)
next
  assume "node_at F (q @ [n]) \<noteq> None"
  then obtain e where "e \<in> set (fs_nodes F)" "fst e = q @ [n]"
    by (auto simp: node_at_def map_of_eq_None_iff)
  then show "n \<in> set (dir_names F q)" by (auto simp: dir_names_def intro!: rev_image_eqI [of e])
qed

lemma dir_names_empty: "dir_names F q = [] \<longleftrightarrow> (\<forall>n. node_at F (q @ [n]) = None)"
proof -
  have "dir_names F q = [] \<longleftrightarrow> (\<forall>n. n \<notin> set (dir_names F q))" by (cases "dir_names F q") force+
  then show ?thesis by (simp add: set_dir_names)
qed

lemma distinct_dir_names:
  assumes "distinct (map fst (fs_nodes F))"
  shows "distinct (dir_names F q)"
proof -
  let ?es = "filter (\<lambda>e. fst e \<noteq> [] \<and> butlast (fst e) = q) (fs_nodes F)"
  have "distinct (map fst ?es)" using assms by (rule distinct_map_filter)
  moreover have "inj_on last (set (map fst ?es))"
    by (auto simp: inj_on_def) (metis append_butlast_last_id)
  ultimately have "distinct (map last (map fst ?es))" by (simp only: distinct_map [of last])
  then show ?thesis by (simp add: dir_names_def comp_def)
qed

lemma read_dir_node: "tree_ok F \<Longrightarrow> node_at F q = Some Dir \<Longrightarrow> fs_fault F ReadDir (abs_path q) = None
    \<Longrightarrow> fs_read_dir F (abs_path q) = Inr (dir_names F q)"
  using lookup_node [of F q Dir True] by (simp add: fs_read_dir_def guarded_def)

section \<open>Growth that keeps the contents of files\<close>

definition keeps :: "fs \<Rightarrow> fs \<Rightarrow> bool" where
  "keeps F F' \<longleftrightarrow>
     grows F F' \<and> fs_next F \<le> fs_next F' \<and> (\<forall>i < fs_next F. fs_inodes F' i = fs_inodes F i)
     \<and> fs_fault F' = fs_fault F \<and> fs_umask F' = fs_umask F"

interpretation keeping: state_order keeps
  by unfold_locales (auto simp: keeps_def intro: grows_trans)

lemma keepsD:
  "keeps F F' \<Longrightarrow> grows F F'" "keeps F F' \<Longrightarrow> fs_fault F' = fs_fault F"
  "keeps F F' \<Longrightarrow> node_at F q = Some nd \<Longrightarrow> node_at F' q = Some nd"
  "keeps F F' \<Longrightarrow> i < fs_next F \<Longrightarrow> fs_inodes F' i = fs_inodes F i"
  by (auto simp: keeps_def grows_def)

lemma keeps_create_dir_all: "fs_create_dir_all F p = Inr F' \<Longrightarrow> keeps F F'"
  using grows_create_dir_all [of F p F'] create_dir_all_frame [of F p F'] by (simp add: keeps_def)

text \<open>Reading back what was there before.\<close>

lemma keeps_read:
  assumes "keeps F F'" and "tree_ok F" and "tree_ok F'" and "node_at F ns = Some (File i)"
  shows "fs_read F' (abs_path ns) = fs_read F (abs_path ns)"
proof (cases "fs_fault F ReadFile (abs_path ns)")
  case None
  have n: "node_at F' ns = Some (File i)" by (rule keepsD(3) [OF assms(1,4)])
  have i: "fs_inodes F' i = fs_inodes F i" by (rule keepsD(4) [OF assms(1) tree_okD(2) [OF assms(2,4)]])
  have f: "fs_fault F' = fs_fault F" by (rule keepsD(2) [OF assms(1)])
  show ?thesis
    using read_node [OF assms(2,4) None] read_node [OF assms(3) n] None i f by simp
qed (simp add: fs_read_def guarded_def keepsD(2) [OF assms(1)])

section \<open>Creating directories\<close>

text \<open>\<open>adds_dirs ns F F'\<close>: \<open>F'\<close> is \<open>F\<close> with new directories at prefixes of \<open>ns\<close> and nothing else.\<close>

definition adds_dirs :: "names \<Rightarrow> fs \<Rightarrow> fs \<Rightarrow> bool" where
  "adds_dirs ns F F' \<longleftrightarrow>
     (\<forall>q. node_at F' q = node_at F q \<or> prefix q ns \<and> node_at F q = None \<and> node_at F' q = Some Dir)"

lemma adds_dirs_refl [simp]: "adds_dirs ns F F"
  by (simp add: adds_dirs_def)

lemma adds_dirs_plain: "adds_dirs ns F F' \<Longrightarrow> plain F q \<Longrightarrow> plain F' q"
  unfolding plain_def adds_dirs_def by (metis node.distinct(5) option.inject)

lemma mkdir_plain:
  assumes "tree_ok F" and "plain F ns" and "fs_mkdir F (abs_path ns) = Inr F'"
  shows "\<exists>d n. ns = d @ [n] \<and> node_at F d = Some Dir \<and> node_at F ns = None \<and> F' = set_node ns Dir F"
proof -
  have "node_at F ns = None"
  proof (rule ccontr)
    assume "node_at F ns \<noteq> None"
    then obtain nd where "lookup F False (abs_path ns) = Found ns nd"
      using lookup_Found_iff [OF assms(1,2)] by auto
    with assms(3) show False by (simp add: fs_mkdir_def guarded_Inr)
  qed
  with lookup_None [OF assms(2) this, of False] assms(3) show ?thesis
    by (auto simp: fs_mkdir_def guarded_Inr)
qed

lemma mkdir_made:
  assumes G: "tree_ok G" "plain G ns" and H: "fs_mkdir G (abs_path ns) = Inr H"
  shows "tree_ok H \<and> adds_dirs ns G H \<and> node_at H ns = Some Dir"
proof -
  from mkdir_plain [OF G H] obtain d n where "ns = d @ [n]" "node_at G d = Some Dir" "node_at G ns = None"
    "H = set_node ns Dir G" by blast
  then show ?thesis
    using tree_ok_set_node [OF G(1), of d n Dir] by (auto simp: adds_dirs_def node_at_set_node)
qed

lemma is_dir_node:
  assumes G: "tree_ok G" "plain G ns" and "fs_is_dir G (abs_path ns)"
  shows "node_at G ns = Some Dir"
  using assms(3) lookup_Found_iff [OF G, of True]
  by (auto simp: fs_is_dir_def fs_metadata_def guarded_def
      split: option.splits resolved.splits node.splits sum.splits)

text \<open>What \<^verbatim>\<open>create_dir_all\<close> has tried when it succeeds.\<close>

lemma create_dir_all_cases:
  assumes "fs_create_dir_all F (abs_path (d @ [n])) = Inr F'"
  obtains (made) "fs_mkdir F (abs_path (d @ [n])) = Inr F'"
  | (there) "F' = F" and "fs_is_dir F (abs_path (d @ [n]))"
  | (parent) F1 where "fs_create_dir_all F (abs_path d) = Inr F1"
      and "F' = F1 \<and> fs_is_dir F1 (abs_path (d @ [n])) \<or> fs_mkdir F1 (abs_path (d @ [n])) = Inr F'"
proof -
  let ?p = "abs_path (d @ [n])"
  have ne: "?p \<noteq> []" by (simp add: abs_path_def)
  note unfolded = assms [unfolded fs_create_dir_all.simps [of F ?p]]
  show thesis
  proof (cases "fs_mkdir F ?p")
    case (Inr G)
    with unfolded ne made show thesis by simp
  next
    case (Inl e)
    show thesis
    proof (cases "e = NotFound")
      case False
      with unfolded Inl ne there show thesis by (auto split: if_splits)
    next
      case True
      with unfolded Inl ne obtain F1 where F1: "fs_create_dir_all F (abs_path d) = Inr F1"
        and c: "(case fs_mkdir F1 ?p of Inr F2 \<Rightarrow> Inr F2
          | Inl e' \<Rightarrow> if fs_is_dir F1 ?p then Inr F1 else Inl e') = Inr F'"
        by (auto simp: result_simps)
      from c have "F' = F1 \<and> fs_is_dir F1 ?p \<or> fs_mkdir F1 ?p = Inr F'" by (auto split: sum.splits if_splits)
      with F1 show thesis by (rule parent)
    qed
  qed
qed

lemma create_dir_all_plain:
  assumes "tree_ok F" and "plain F ns" and "fs_create_dir_all F (abs_path ns) = Inr F'"
  shows "tree_ok F' \<and> adds_dirs ns F F' \<and> node_at F' ns = Some Dir"
  using assms
proof (induction ns arbitrary: F F' rule: rev_induct)
  case Nil
  have "fs_mkdir F (abs_path []) \<noteq> Inr G" for G
    using mkdir_plain [OF Nil.prems(1,2), of G] by auto
  then obtain e where e: "fs_mkdir F (abs_path []) = Inl e" by (cases "fs_mkdir F (abs_path [])") auto
  with Nil.prems(3) have "F' = F"
    by (subst (asm) fs_create_dir_all.simps) (auto simp: path_parent_def abs_path_def split: if_splits)
  with Nil.prems show ?case by simp
next
  case (snoc n d)
  from snoc.prems(3) show ?case
  proof (cases rule: create_dir_all_cases)
    case made
    from mkdir_made [OF snoc.prems(1,2) this] show ?thesis .
  next
    case there
    with is_dir_node [OF snoc.prems(1,2)] snoc.prems(1) show ?thesis by simp
  next
    case (parent F1)
    have "plain F d" by (rule plain_prefix [OF snoc.prems(2)])
    from snoc.IH [OF snoc.prems(1) this parent(1)] have G: "tree_ok F1" "adds_dirs d F F1" by auto
    have p1: "plain F1 (d @ [n])" by (rule adds_dirs_plain [OF G(2) snoc.prems(2)])
    have G2: "adds_dirs (d @ [n]) F F1" using G(2) by (auto simp: adds_dirs_def)
    from parent(2) show ?thesis
    proof
      assume "F' = F1 \<and> fs_is_dir F1 (abs_path (d @ [n]))"
      with is_dir_node [OF G(1) p1] G G2 show ?thesis by simp
    next
      assume "fs_mkdir F1 (abs_path (d @ [n])) = Inr F'"
      from mkdir_made [OF G(1) p1 this] G2 show ?thesis unfolding adds_dirs_def by (metis (no_types))
    qed
  qed
qed

end
