(* ===== verification/Store_Dir.thy ===== *)
theory Store_Dir
  imports File_Tree
begin

text \<open>
  \<^verbatim>\<open>crates/fs\<close> (\<^verbatim>\<open>ensure_file\<close>, the file modes, the symbolic links) and the paths and files of
  \<^verbatim>\<open>crates/store-dir\<close>: \<^verbatim>\<open>store_dir.rs\<close>, \<^verbatim>\<open>cas_file.rs\<close> and \<^verbatim>\<open>index_file.rs\<close>.
\<close>

section \<open>File modes\<close>

definition EXEC_MASK :: "32 word" where "EXEC_MASK = 0x49"

definition EXEC_MODE :: "32 word" where "EXEC_MODE = 0x1ED"

definition is_all_exec :: "32 word \<Rightarrow> bool" where
  "is_all_exec mode \<longleftrightarrow> mode AND EXEC_MASK = EXEC_MASK"

text \<open>The file is an open handle, here its inode; \<open>p\<close> is the path it was opened at.\<close>

definition make_file_executable :: "path \<Rightarrow> nat \<Rightarrow> (fs, io_kind, unit) action" where
  "make_file_executable p i =
     act_bind (act_read (\<lambda>F. guarded F Stat p (Inr (in_mode (fs_inodes F i))))) (\<lambda>mode.
     let mode = mode OR EXEC_MASK
     in act_call (\<lambda>F. guarded F Chmod p (Inr (set_mode i mode F))))"

definition symlink_dir :: "fs \<Rightarrow> path \<Rightarrow> path \<Rightarrow> io_kind + fs" where
  "symlink_dir F original link = fs_symlink F original link"

definition symlink_file :: "fs \<Rightarrow> path \<Rightarrow> path \<Rightarrow> io_kind + fs" where
  "symlink_file F original link = fs_symlink F original link"

section \<open>ensure_file\<close>

datatype ensure_file_error =
    CreateDir path io_kind
  | CreateFile path io_kind
  | WriteFile path io_kind

definition ensure_file ::
    "path \<Rightarrow> string \<Rightarrow> 32 word option \<Rightarrow> (fs, ensure_file_error failure, unit) action" where
  "ensure_file file_path content mode =
     act_bind (act_read (\<lambda>F. Inr (fs_exists F file_path))) (\<lambda>there.
     if there then act_return ()
     else case path_parent file_path of
       None \<Rightarrow> act_throw (Panic ''called Option::unwrap() on a None value'')
     | Some parent_dir \<Rightarrow>
         act_then (act_map_err (\<lambda>e. Err (CreateDir parent_dir e))
                     (act_call (\<lambda>F. fs_create_dir_all F parent_dir)))
         (act_bind (act_map_err (\<lambda>e. Err (CreateFile file_path e))
                     (act_run (\<lambda>F. fs_open_create F file_path
                                (case mode of None \<Rightarrow> 0x1B6 | Some m \<Rightarrow> m)))) (\<lambda>i.
          act_map_err (\<lambda>e. Err (WriteFile file_path e))
            (act_call (\<lambda>F. fs_write_all F file_path i content)))))"

section \<open>The libraries\<close>

datatype algorithm = Sha512 | Sha384 | Sha256 | Sha1 | Xxh3

text \<open>An \<^verbatim>\<open>ssri::Integrity\<close>: its hashes, an algorithm and a base64 digest each.\<close>

type_synonym integrity = "(algorithm \<times> string) list"

record package_file_info =
  fi_checked_at :: "nat option"
  fi_integrity :: string
  fi_mode :: "32 word"
  fi_size :: "64 word option"

record package_files_index =
  ix_files :: "(string \<times> package_file_info) list"

text \<open>
  \<^verbatim>\<open>sha2\<close>, \<^verbatim>\<open>base64\<close>, \<^verbatim>\<open>ssri\<close> and the JSON form of an index file.
\<close>

record store_lib =
  sha512_digest :: "string \<Rightarrow> string"
  base64_encode :: "string \<Rightarrow> string"
  integrity_from_str :: "string \<Rightarrow> string + integrity"
  integrity_to_hex :: "integrity \<Rightarrow> algorithm \<times> string"
  integrity_check :: "integrity \<Rightarrow> string \<Rightarrow> string + algorithm"
  index_to_string :: "package_files_index \<Rightarrow> string + string"
  index_from_str :: "string \<Rightarrow> string + package_files_index"

section \<open>Paths of the store\<close>

record store_dir =
  sd_root :: path

text \<open>Two lower-case hexadecimal digits for each byte.\<close>

definition hex_digit :: "nat \<Rightarrow> char" where
  "hex_digit d = (if d < 10 then char_of (48 + d) else char_of (87 + d))"

definition hex_of_bytes :: "string \<Rightarrow> string" where
  "hex_of_bytes bs =
     concat (map (\<lambda>c. let n = (of_char c :: nat) in [hex_digit (n div 16), hex_digit (n mod 16)]) bs)"

definition store_v3 :: "store_dir \<Rightarrow> path" where
  "store_v3 S = join_str (sd_root S) ''v3''"

definition store_metadata :: "store_dir \<Rightarrow> path" where
  "store_metadata S = join_str (store_v3 S) ''metadata''"

definition store_files :: "store_dir \<Rightarrow> path" where
  "store_files S = join_str (store_v3 S) ''files''"

definition store_tmp :: "store_dir \<Rightarrow> path" where
  "store_tmp S = join_str (store_v3 S) ''tmp''"

definition file_path_by_head_tail :: "store_dir \<Rightarrow> string \<Rightarrow> string \<Rightarrow> path" where
  "file_path_by_head_tail S head tail = join_str (join_str (store_files S) head) tail"

text \<open>Slicing a string beyond its end panics.\<close>

definition file_path_by_hex_str :: "store_dir \<Rightarrow> string \<Rightarrow> string \<Rightarrow> 'e failure + path" where
  "file_path_by_hex_str S hex sfx =
     (if length hex < 2 then Inl (Panic ''byte index 2 is out of bounds'')
      else let head = take 2 hex; middle = drop 2 hex; tail = middle @ sfx
           in Inr (file_path_by_head_tail S head tail))"

definition registry_metadata_file_path :: "store_lib \<Rightarrow> store_dir \<Rightarrow> string \<Rightarrow> string \<Rightarrow> path" where
  "registry_metadata_file_path L S registry nm =
     (let key = registry @ [CHR 0x0A] @ nm;
          hex = hex_of_bytes (sha512_digest L key)
      in join_str (join_str (store_metadata S) (take 2 hex)) (drop 2 hex @ ''.json''))"

section \<open>Content-addressed files\<close>

definition exec_suffix :: "bool \<Rightarrow> string" where
  "exec_suffix executable = (if executable then ''-exec'' else [])"

definition cas_file_path :: "store_dir \<Rightarrow> string \<Rightarrow> bool \<Rightarrow> 'e failure + path" where
  "cas_file_path S hash executable =
     (let hex = hex_of_bytes hash in file_path_by_hex_str S hex (exec_suffix executable))"

definition cas_file_path_by_integrity ::
    "store_lib \<Rightarrow> store_dir \<Rightarrow> integrity \<Rightarrow> bool \<Rightarrow> 'e failure + path" where
  "cas_file_path_by_integrity L S i executable =
     (let (_, hex) = integrity_to_hex L i in file_path_by_hex_str S hex (exec_suffix executable))"

definition write_cas_file ::
    "store_lib \<Rightarrow> store_dir \<Rightarrow> string \<Rightarrow> bool
     \<Rightarrow> (fs, ensure_file_error failure, path \<times> string) action" where
  "write_cas_file L S buffer executable =
     (let file_hash = sha512_digest L buffer
      in act_bind (act_read (\<lambda>_. cas_file_path S file_hash executable)) (\<lambda>file_path.
         let mode = (if executable then Some EXEC_MODE else None)
         in act_then (ensure_file file_path buffer mode) (act_return (file_path, file_hash))))"

section \<open>Index files\<close>

datatype read_index_file_error = IndexReadFile io_kind | IndexParseFile string

definition index_file_path :: "store_lib \<Rightarrow> store_dir \<Rightarrow> integrity \<Rightarrow> 'e failure + path" where
  "index_file_path L S i =
     (let (algorithm, hex) = integrity_to_hex L i
      in if algorithm \<in> set [Sha512, Sha1] then file_path_by_hex_str S hex ''-index.json''
         else Inl (Panic ''Only Sha1 and Sha512 are supported''))"

definition write_index_file ::
    "store_lib \<Rightarrow> store_dir \<Rightarrow> integrity \<Rightarrow> package_files_index
     \<Rightarrow> (fs, ensure_file_error failure, unit) action" where
  "write_index_file L S i index =
     act_bind (act_read (\<lambda>_. index_file_path L S i)) (\<lambda>file_path.
     case index_to_string L index of
       Inl _ \<Rightarrow> act_throw (Panic ''convert a TarballIndex to JSON'')
     | Inr content \<Rightarrow> ensure_file file_path content (Some 0x1B6))"

definition read_index_file ::
    "store_lib \<Rightarrow> store_dir \<Rightarrow> fs \<Rightarrow> integrity
     \<Rightarrow> read_index_file_error failure + package_files_index option" where
  "read_index_file L S F i =
     rbind (index_file_path L S i) (\<lambda>file_path.
     case fs_read_to_string F file_path of
       Inl e \<Rightarrow> if e = NotFound then Inr None else Inl (Err (IndexReadFile e))
     | Inr contents \<Rightarrow> map_err (\<lambda>e. Err (IndexParseFile e)) (map_ok Some (index_from_str L contents)))"

section \<open>Laws of ensure_file\<close>

text \<open>
  \<open>file_added ns data F F'\<close>: \<open>F'\<close> is \<open>F\<close> with a new file at \<open>ns\<close> and with new directories
  above it, and nothing else.
\<close>

definition file_added :: "names \<Rightarrow> string \<Rightarrow> fs \<Rightarrow> fs \<Rightarrow> bool" where
  "file_added ns data F F' \<longleftrightarrow>
     node_at F ns = None \<and> node_at F' ns = Some (File (fs_next F))
     \<and> in_data (fs_inodes F' (fs_next F)) = data
     \<and> (\<forall>q. q = ns \<or> node_at F' q = node_at F q
          \<or> strict_prefix q ns \<and> node_at F q = None \<and> node_at F' q = Some Dir)"

lemma file_added_File:
  "file_added ns data F F' \<Longrightarrow> node_at F' q = Some (File i) \<Longrightarrow> node_at F q = Some (File i) \<or> q = ns \<and> i = fs_next F"
  unfolding file_added_def by (metis node.distinct(1) option.inject node.inject(1))

lemma file_added_plain: "file_added ns data F F' \<Longrightarrow> plain F q \<Longrightarrow> plain F' q"
  unfolding file_added_def plain_def by (metis node.distinct(3,5) option.inject)

text \<open>What a new file and the directories above it are.\<close>

definition new_on_way :: "names \<Rightarrow> fs \<Rightarrow> names \<Rightarrow> bool" where
  "new_on_way ns F' q \<longleftrightarrow>
     strict_prefix q ns \<and> node_at F' q = Some Dir \<or> q = ns \<and> (\<exists>i. node_at F' q = Some (File i))"

lemma new_on_way_prefix: "new_on_way ns F' q \<Longrightarrow> prefix q ns"
  by (auto simp: new_on_way_def strict_prefix_def)

lemma file_added_new_on_way: "file_added ns data F F' \<Longrightarrow> node_at F' q = node_at F q \<or> new_on_way ns F' q"
  by (cases "q = ns") (auto simp: file_added_def new_on_way_def)

lemma keeps_fresh_file:
  assumes "tree_ok F" and "node_at F q = None"
  shows "keeps F (fresh_file q ino F)"
  using grows_fresh_file [OF assms(2), of ino] by (simp add: keeps_def)

lemma inodes_set_data: "fs_inodes (set_data i d F) = (fs_inodes F)(i := (fs_inodes F i)\<lparr>in_data := d\<rparr>)"
  by (simp add: set_data_def)

lemma keeps_set_data: "keeps F G \<Longrightarrow> fs_next F \<le> i \<Longrightarrow> keeps F (set_data i d G)"
  by (auto simp: keeps_def grows_def inodes_set_data)

lemma open_create_child:
  assumes "tree_ok F" and "node_at F d = Some Dir" and "node_at F (d @ [n]) = None"
    and "fs_open_create F (abs_path (d @ [n])) m = Inr (F', i)"
  shows "i = fs_next F \<and> F' = fresh_file (d @ [n]) \<lparr>in_data = [], in_mode = m AND NOT (fs_umask F)\<rparr> F"
  using lookup_child_None [OF assms(1-3), of True] assms(4)
  by (simp add: fs_open_create_def guarded_Inr)

lemma adds_dirs_child:
  "adds_dirs d F F' \<Longrightarrow> node_at F' (d @ [n]) = node_at F (d @ [n])"
  by (auto simp: adds_dirs_def dest!: spec [of _ "d @ [n]"])

text \<open>Creating a file in a directory that is there, and writing to it.\<close>

lemma create_file_run:
  assumes ok: "tree_ok F1" and dirs: "adds_dirs d F F1" "node_at F1 d = Some Dir" and new: "node_at F (d @ [n]) = None"
    and fr: "fs_next F1 = fs_next F" and k1: "keeps F F1"
    and op: "fs_open_create F1 (abs_path (d @ [n])) m = Inr (F2, i)"
  shows "tree_ok F2 \<and> keeps F F2 \<and> file_added (d @ [n]) [] F F2
    \<and> keeps F (set_data i content F2) \<and> file_added (d @ [n]) content F (set_data i content F2)
    \<and> drop (length content) (in_data (fs_inodes F2 i)) = []"
proof -
  have n1: "node_at F1 (d @ [n]) = None" using adds_dirs_child [OF dirs(1), of n] new by simp
  from open_create_child [OF ok dirs(2) n1 op]
  have i: "i = fs_next F1" and F2: "F2 = fresh_file (d @ [n]) \<lparr>in_data = [], in_mode = m AND NOT (fs_umask F1)\<rparr> F1" by auto
  have k2: "keeps F F2" using keeping.trans [OF k1 keeps_fresh_file [OF ok n1]] by (simp add: F2)
  have added: "file_added (d @ [n]) (in_data (fs_inodes G (fs_next F))) F G" if "node_at G = node_at F2" for G
    using dirs(1) new
    by (auto simp: file_added_def that F2 node_at_fresh_file node_at_set_node fr adds_dirs_def
        strict_prefix_def dest: spec)
  have "tree_ok F2" unfolding F2 by (rule tree_ok_fresh_file [OF ok dirs(2) n1])
  moreover have "file_added (d @ [n]) [] F F2" using added [of F2] by (simp add: F2 fr)
  moreover have "keeps F (set_data i content F2)" by (rule keeps_set_data [OF k2]) (simp add: i fr)
  moreover have "file_added (d @ [n]) content F (set_data i content F2)"
    using added [of "set_data i content F2"] by (simp add: inodes_set_data i fr)
  moreover have "drop (length content) (in_data (fs_inodes F2 i)) = []" by (simp add: F2 i)
  ultimately show ?thesis using k2 by blast
qed

lemma ensure_file_run:
  assumes ok: "tree_ok F" and pl: "plain F ns" and nf: "fs_fault F Stat (abs_path ns) = None"
    and run: "ensure_file (abs_path ns) content mode F = (F', r)"
  shows "(node_at F ns \<noteq> None \<and> F' = F \<and> r = Inr ())
    \<or> (node_at F ns = None \<and> tree_ok F' \<and> keeps F F'
        \<and> (r = Inr () \<and> file_added ns content F F'
           \<or> (\<exists>e. r = Inl (Err (WriteFile (abs_path ns) e))) \<and> file_added ns [] F F'
           \<or> (\<exists>p e. r = Inl (Err (CreateFile p e)) \<or> r = Inl (Err (CreateDir p e)))
             \<and> adds_dirs (butlast ns) F F'))"
proof (cases "node_at F ns")
  case (Some nd)
  with run exists_iff [OF ok pl nf] show ?thesis by (simp add: ensure_file_def act_simps)
next
  case None
  then obtain d n where ns: "ns = d @ [n]" by (cases ns rule: rev_cases) auto
  have pd: "plain F d" using pl ns plain_prefix by blast
  have not_there: "\<not> fs_exists F (abs_path (d @ [n]))" using exists_iff [OF ok pl nf] None ns by simp
  show ?thesis
  proof (cases "fs_create_dir_all F (abs_path d)")
    case (Inl e)
    with run not_there ok None ns show ?thesis
      by (auto simp: ensure_file_def act_simps keeping.refl)
  next
    case made: (Inr F1)
    have c: "tree_ok F1" "adds_dirs d F F1" "node_at F1 d = Some Dir"
      using create_dir_all_plain [OF ok pd made] by auto
    have k1: "keeps F F1" by (rule keeps_create_dir_all [OF made])
    show ?thesis
    proof (cases "fs_open_create F1 (abs_path (d @ [n])) (case mode of None \<Rightarrow> 0x1B6 | Some m \<Rightarrow> m)")
      case (Inl e)
      with run not_there made c(1,2) k1 None ns show ?thesis
        by (auto simp: ensure_file_def act_simps)
    next
      case (Inr x)
      obtain F2 i where x: "x = (F2, i)" by (cases x)
      have "fs_next F1 = fs_next F" using create_dir_all_frame [OF made] by simp
      note new_file = create_file_run [OF c None [unfolded ns] this k1 Inr [unfolded x], of content]
      have "F' = (if fs_fault F2 WriteAll (abs_path ns) = None then set_data i content F2 else F2)"
        "r = (case fs_fault F2 WriteAll (abs_path ns) of None \<Rightarrow> Inr () | Some e \<Rightarrow> Inl (Err (WriteFile (abs_path ns) e)))"
        using run not_there made Inr x new_file
        by (auto simp: ensure_file_def act_simps ns fs_write_all_def guarded_def split: option.splits)
      with new_file None show ?thesis by (auto simp: ns split: option.splits if_splits)
    qed
  qed
qed

section \<open>Laws of the paths\<close>

definition hex_text :: "string \<Rightarrow> bool" where
  "hex_text s \<longleftrightarrow> (\<forall>c \<in> set s. \<exists>d < 16. c = hex_digit d)"

lemma of_char_hex_digit: "d < 16 \<Longrightarrow> (of_char (hex_digit d) :: nat) = (if d < 10 then 48 + d else 87 + d)"
  by (simp add: hex_digit_def)

lemma hex_digit_inject: "c < 16 \<Longrightarrow> d < 16 \<Longrightarrow> hex_digit c = hex_digit d \<Longrightarrow> c = d"
proof -
  assume cd: "c < 16" "d < 16" and "hex_digit c = hex_digit d"
  then have "(of_char (hex_digit c) :: nat) = of_char (hex_digit d)" by simp
  then show "c = d"
    unfolding of_char_hex_digit [OF cd(1)] of_char_hex_digit [OF cd(2)] using cd by (simp split: if_splits)
qed

lemma hex_text_not_in:
  assumes "hex_text s" and "(of_char c :: nat) < 48"
  shows "c \<notin> set s"
proof
  assume "c \<in> set s"
  with assms(1) obtain d where d: "d < 16" "c = hex_digit d" unfolding hex_text_def by blast
  with of_char_hex_digit [OF d(1)] assms(2) show False by (simp split: if_splits)
qed

lemma hex_text_punctuation:
  assumes "hex_text s"
  shows "CHR ''-'' \<notin> set s" and "CHR ''.'' \<notin> set s" and "CHR ''/'' \<notin> set s"
  by (rule hex_text_not_in [OF assms], simp)+

lemma hex_text_take_drop: "hex_text s \<Longrightarrow> hex_text (take n s)" "hex_text s \<Longrightarrow> hex_text (drop n s)"
  by (auto simp: hex_text_def dest: in_set_takeD in_set_dropD)

lemma hex_of_bytes_simps [simp]:
  "hex_of_bytes [] = []"
  "hex_of_bytes (c # bs) =
     hex_digit ((of_char c :: nat) div 16) # hex_digit ((of_char c :: nat) mod 16) # hex_of_bytes bs"
  by (simp_all add: hex_of_bytes_def Let_def)

lemma length_hex_of_bytes [simp]: "length (hex_of_bytes bs) = 2 * length bs"
  by (induction bs) simp_all

lemma nibbles: "(of_char (c :: char) :: nat) div 16 < 16" "(of_char (c :: char) :: nat) mod 16 < 16"
proof -
  have "n div 16 < 16" if "n < 256" for n :: nat using that by simp
  then show "(of_char (c :: char) :: nat) div 16 < 16" using nat_of_char_less_256 [of c] by blast
qed simp

lemma hex_text_hex_of_bytes [simp]: "hex_text (hex_of_bytes bs)"
proof (induction bs)
  case (Cons c bs)
  have "\<exists>d < 16. hex_digit (of_char c div 16) = hex_digit d"
    by (rule exI [of _ "of_char c div 16"]) (simp add: nibbles)
  moreover have "\<exists>d < 16. hex_digit (of_char c mod 16) = hex_digit d"
    by (rule exI [of _ "of_char c mod 16"]) simp
  ultimately show ?case using Cons by (simp add: hex_text_def)
qed (simp add: hex_text_def)

lemma nibbles_inject:
  assumes "hex_digit ((of_char c :: nat) div 16) = hex_digit ((of_char d :: nat) div 16)"
    and "hex_digit ((of_char c :: nat) mod 16) = hex_digit ((of_char d :: nat) mod 16)"
  shows "c = d"
proof -
  have "(of_char c :: nat) div 16 = of_char d div 16" and "(of_char c :: nat) mod 16 = of_char d mod 16"
    using hex_digit_inject [OF nibbles(1) nibbles(1) assms(1)]
      hex_digit_inject [OF nibbles(2) nibbles(2) assms(2)] by simp_all
  then have "(of_char c :: nat) = of_char d"
    by (metis div_mult_mod_eq)
  then show ?thesis by (simp only: of_char_eq_iff)
qed

lemma hex_of_bytes_eqD: "hex_of_bytes a = hex_of_bytes b \<Longrightarrow> a = b"
proof (induction a arbitrary: b)
  case Nil
  then show ?case by (cases b) simp_all
next
  case (Cons c a)
  then obtain d b' where b: "b = d # b'" by (cases b) simp_all
  note eqs = Cons.prems [unfolded b hex_of_bytes_simps list.inject]
  have "c = d" by (rule nibbles_inject [OF conjunct1 [OF eqs] conjunct1 [OF conjunct2 [OF eqs]]])
  moreover have "a = b'" by (rule Cons.IH [OF conjunct2 [OF conjunct2 [OF eqs]]])
  ultimately show ?case by (simp only: b)
qed

lemma hex_of_bytes_inject [simp]: "hex_of_bytes a = hex_of_bytes b \<longleftrightarrow> a = b"
  using hex_of_bytes_eqD by auto

text \<open>An address of the store: a hexadecimal text of more than two digits, then a suffix.\<close>

definition hex_ok :: "string \<Rightarrow> bool" where
  "hex_ok hex \<longleftrightarrow> hex_text hex \<and> 2 < length hex"

definition store_suffix :: "string \<Rightarrow> bool" where
  "store_suffix s \<longleftrightarrow> s \<in> {[], ''-exec'', ''-index.json''}"

lemma store_suffix_simps [simp]:
  "store_suffix []" "store_suffix ''-index.json''" "store_suffix (exec_suffix e)"
  by (simp_all add: store_suffix_def exec_suffix_def)

lemma file_name_ok_head: "hex_ok hex \<Longrightarrow> file_name_ok (take 2 hex)"
proof -
  assume h: "hex_ok hex"
  then have t: "hex_text (take 2 hex)" and l: "length (take 2 hex) = 2"
    by (auto simp: hex_ok_def hex_text_take_drop)
  from hex_text_punctuation [OF t] l show ?thesis by (auto simp: file_name_ok_def)
qed

lemma file_name_ok_tail: "hex_ok hex \<Longrightarrow> store_suffix sfx \<Longrightarrow> file_name_ok (drop 2 hex @ sfx)"
proof -
  assume h: "hex_ok hex" and s: "store_suffix sfx"
  then have t: "hex_text (drop 2 hex)" and l: "drop 2 hex \<noteq> []"
    by (auto simp: hex_ok_def hex_text_take_drop)
  from l obtain c cs where cs: "drop 2 hex = c # cs" by (cases "drop 2 hex") auto
  from hex_text_punctuation [OF t] s cs show ?thesis
    by (auto simp: file_name_ok_def store_suffix_def)
qed

lemma v3_name_ok [simp]: "file_name_ok ''v3''" "file_name_ok ''files''" "file_name_ok ''tmp''"
  "file_name_ok ''metadata''"
  by (simp_all add: file_name_ok_def)

lemma store_dirs:
  "store_v3 S = sd_root S @ [Normal ''v3'']"
  "store_files S = sd_root S @ [Normal ''v3'', Normal ''files'']"
  "store_tmp S = sd_root S @ [Normal ''v3'', Normal ''tmp'']"
  "store_metadata S = sd_root S @ [Normal ''v3'', Normal ''metadata'']"
  by (simp_all add: store_v3_def store_files_def store_tmp_def store_metadata_def)

lemma file_path_by_hex_str_ok:
  "hex_ok hex \<Longrightarrow> store_suffix sfx \<Longrightarrow> file_path_by_hex_str S hex sfx =
     Inr (sd_root S @ [Normal ''v3'', Normal ''files'', Normal (take 2 hex), Normal (drop 2 hex @ sfx)])"
  using file_name_ok_head [of hex] file_name_ok_tail [of hex sfx]
  by (simp add: file_path_by_hex_str_def file_path_by_head_tail_def store_dirs hex_ok_def Let_def)

lemma split_suffix:
  assumes "hex_text a" and "hex_text b" and "store_suffix s" and "store_suffix t"
  shows "a @ s = b @ t \<longleftrightarrow> a = b \<and> s = t"
proof
  assume eq: "a @ s = b @ t"
  have "takeWhile (\<lambda>c. c \<noteq> CHR ''-'') (x @ u) = x" if "hex_text x" "store_suffix u" for x u
    using hex_text_punctuation(1) [OF that(1)] that(2)
    by (subst takeWhile_append2) (auto simp: store_suffix_def)
  from this [OF assms(1,3)] this [OF assms(2,4)] eq show "a = b \<and> s = t" by simp
qed simp

lemma file_path_by_hex_str_inject:
  assumes "hex_ok a" and "hex_ok b" and "store_suffix s" and "store_suffix t"
  shows "(file_path_by_hex_str S a s :: 'e failure + path) = file_path_by_hex_str S b t \<longleftrightarrow> a = b \<and> s = t"
proof -
  have "take 2 a = take 2 b \<and> drop 2 a = drop 2 b \<longleftrightarrow> a = b"
    by (metis append_take_drop_id)
  with assms split_suffix [of "drop 2 a" "drop 2 b" s t] show ?thesis
    by (auto simp: file_path_by_hex_str_ok hex_ok_def hex_text_take_drop)
qed

lemma hex_ok_digest: "2 \<le> length h \<Longrightarrow> hex_ok (hex_of_bytes h)"
  by (simp add: hex_ok_def)

section \<open>The content-addressed store\<close>

definition cas_names :: "names \<Rightarrow> string \<Rightarrow> bool \<Rightarrow> names" where
  "cas_names r h ex =
     r @ [''v3'', ''files'', take 2 (hex_of_bytes h), drop 2 (hex_of_bytes h) @ exec_suffix ex]"

lemma cas_file_path_abs:
  "2 \<le> length h \<Longrightarrow> sd_root S = abs_path r \<Longrightarrow> cas_file_path S h ex = Inr (abs_path (cas_names r h ex))"
  by (simp add: cas_file_path_def file_path_by_hex_str_ok hex_ok_digest cas_names_def abs_path_def Let_def)

lemma cas_names_inject:
  assumes "2 \<le> length a" and "2 \<le> length b"
  shows "cas_names r a x = cas_names r b y \<longleftrightarrow> a = b \<and> x = y"
proof -
  have "exec_suffix x = exec_suffix y \<longleftrightarrow> x = y" by (auto simp: exec_suffix_def)
  with assms show ?thesis
    using file_path_by_hex_str_inject [OF hex_ok_digest hex_ok_digest, of a b "exec_suffix x" "exec_suffix y"
        "\<lparr>sd_root = abs_path r\<rparr>", where 'e = unit]
    by (simp add: file_path_by_hex_str_ok hex_ok_digest cas_names_def)
qed

text \<open>Every file of the store holds the content its name promises.\<close>

definition cas_ok :: "store_lib \<Rightarrow> names \<Rightarrow> fs \<Rightarrow> bool" where
  "cas_ok L r F \<longleftrightarrow>
     (\<forall>h ex i. 2 \<le> length h \<longrightarrow> node_at F (cas_names r h ex) = Some (File i)
        \<longrightarrow> sha512_digest L (in_data (fs_inodes F i)) = h)"

lemma cas_ok_file_added:
  assumes cas: "cas_ok L r F" and ok: "tree_ok F" and k: "keeps F F'"
    and added: "file_added ns data F F'"
    and new: "\<And>h ex. 2 \<le> length h \<Longrightarrow> ns = cas_names r h ex \<Longrightarrow> sha512_digest L data = h"
  shows "cas_ok L r F'"
  unfolding cas_ok_def
proof (intro allI impI)
  fix h ex i assume l: "2 \<le> length (h :: string)" and n: "node_at F' (cas_names r h ex) = Some (File i)"
  from file_added_File [OF added n] show "sha512_digest L (in_data (fs_inodes F' i)) = h"
  proof
    assume "node_at F (cas_names r h ex) = Some (File i)"
    then show ?thesis
      using cas l keepsD(4) [OF k tree_okD(2) [OF ok]] by (auto simp: cas_ok_def)
  next
    assume "cas_names r h ex = ns \<and> i = fs_next F"
    then show ?thesis using added new [of h ex] l by (auto simp: file_added_def)
  qed
qed

lemma write_cas_file_run:
  assumes ok: "tree_ok F" and root: "sd_root S = abs_path r"
    and len: "2 \<le> length (sha512_digest L buffer)"
    and pl: "plain F (cas_names r (sha512_digest L buffer) ex)"
    and nf: "fs_fault F Stat (abs_path (cas_names r (sha512_digest L buffer) ex)) = None"
    and cas: "cas_ok L r F"
    and run: "write_cas_file L S buffer ex F = (F', Inr (p, h))"
  shows "h = sha512_digest L buffer \<and> p = abs_path (cas_names r h ex)
    \<and> cas_ok L r F' \<and> keeps F F' \<and> tree_ok F' \<and> node_at F' (cas_names r h ex) \<noteq> None
    \<and> (\<forall>q. plain F q \<longrightarrow> plain F' q) \<and> (\<forall>q. node_at F' q = node_at F q \<or> new_on_way (cas_names r h ex) F' q)"
proof -
  let ?ns = "cas_names r (sha512_digest L buffer) ex"
  from run have h: "h = sha512_digest L buffer" "p = abs_path ?ns"
    and e: "ensure_file (abs_path ?ns) buffer (if ex then Some EXEC_MODE else None) F = (F', Inr ())"
    by (auto simp: write_cas_file_def Let_def result_simps cas_file_path_abs [OF len root] len
        simp del: abs_path_inject)
  from ensure_file_run [OF ok pl nf e]
  have "node_at F ?ns \<noteq> None \<and> F' = F
    \<or> tree_ok F' \<and> keeps F F' \<and> file_added ?ns buffer F F'" by auto
  then have "cas_ok L r F' \<and> keeps F F' \<and> tree_ok F' \<and> node_at F' ?ns \<noteq> None
      \<and> (\<forall>q. plain F q \<longrightarrow> plain F' q) \<and> (\<forall>q. node_at F' q = node_at F q \<or> new_on_way ?ns F' q)"
  proof
    assume "node_at F ?ns \<noteq> None \<and> F' = F"
    then show ?thesis using cas ok keeping.refl by simp
  next
    assume a: "tree_ok F' \<and> keeps F F' \<and> file_added ?ns buffer F F'"
    then have "cas_ok L r F'"
      using cas_names_inject [OF len] by (intro cas_ok_file_added [OF cas ok]) auto
    moreover have "\<forall>q. plain F q \<longrightarrow> plain F' q" using a file_added_plain by blast
    moreover have "node_at F' ?ns \<noteq> None" using a by (simp add: file_added_def)
    moreover have "node_at F' q = node_at F q \<or> new_on_way ?ns F' q" for q
      using a file_added_new_on_way by blast
    ultimately show ?thesis using a by blast
  qed
  with h show ?thesis by simp
qed

section \<open>Properties\<close>

text \<open>The addresses of the store are unambiguous: two content addresses coincide only for
  the same hash and the same executable flag, and no content address is an index address.\<close>

lemma store_paths_distinct:
  assumes "2 \<le> length a" and "2 \<le> length b" and "hex_ok (snd (integrity_to_hex L i))"
  shows "((cas_file_path S a x :: unit failure + path) = cas_file_path S b y \<longleftrightarrow> a = b \<and> x = y)
    \<and> (cas_file_path S a x :: unit failure + path) \<noteq> index_file_path L S i"
proof
  have e: "exec_suffix x = exec_suffix y \<longleftrightarrow> x = y" by (auto simp: exec_suffix_def)
  show "(cas_file_path S a x :: unit failure + path) = cas_file_path S b y \<longleftrightarrow> a = b \<and> x = y"
    using file_path_by_hex_str_inject [OF hex_ok_digest [OF assms(1)] hex_ok_digest [OF assms(2)],
        of "exec_suffix x" "exec_suffix y" S, where 'e = unit]
    by (simp add: cas_file_path_def Let_def e)
  have "exec_suffix x \<noteq> ''-index.json''" by (simp add: exec_suffix_def)
  then show "(cas_file_path S a x :: unit failure + path) \<noteq> index_file_path L S i"
    using file_path_by_hex_str_inject [OF hex_ok_digest [OF assms(1)] assms(3),
        of "exec_suffix x" "''-index.json''" S, where 'e = unit]
    by (auto simp: cas_file_path_def index_file_path_def Let_def file_path_by_hex_str_ok
        hex_ok_digest [OF assms(1)] split: prod.split)
qed

text \<open>The libraries of the closed examples: a digest that is the content, cut to 64 bytes.\<close>

definition pad64 :: "string \<Rightarrow> string" where
  "pad64 s = take 64 (s @ replicate 64 (CHR ''.''))"

definition store3 :: "package_files_index \<Rightarrow> store_lib" where
  "store3 ix =
     \<lparr> sha512_digest = pad64, base64_encode = (\<lambda>s. s),
       integrity_from_str = (\<lambda>s. if take 7 s = ''sha512-'' then Inr [(Sha512, drop 7 s)] else Inl ''parse''),
       integrity_to_hex = (\<lambda>i. (fst (hd i), hex_of_bytes (snd (hd i)))),
       integrity_check = (\<lambda>i b. if pad64 b = snd (hd i) then Inr Sha512 else Inl ''mismatch''),
       index_to_string = (\<lambda>_. Inr ''index''),
       index_from_str = (\<lambda>s. if s = ''index'' then Inr ix else Inl ''parse'') \<rparr>"

lemma length_pad64 [simp]: "length (pad64 s) = 64"
  by (simp add: pad64_def)

lemma store3_simps [simp]:
  "sha512_digest (store3 ix) = pad64" "base64_encode (store3 ix) s = s"
  "integrity_to_hex (store3 ix) i = (fst (hd i), hex_of_bytes (snd (hd i)))"
  "index_to_string (store3 ix) x = Inr ''index''"
  "index_from_str (store3 ix) s = (if s = ''index'' then Inr ix else Inl ''parse'')"
  by (simp_all add: store3_def)

definition store_root :: store_dir where
  "store_root = \<lparr> sd_root = abs_path [''store''] \<rparr>"

lemma store_paths_distinct_example:
  "(cas_file_path store_root (pad64 ''a'') True :: unit failure + path)
     \<noteq> cas_file_path store_root (pad64 ''a'') False
   \<and> (cas_file_path store_root (pad64 ''a'') True :: unit failure + path)
     \<noteq> index_file_path (store3 \<lparr> ix_files = [] \<rparr>) store_root [(Sha512, pad64 ''a'')]"
proof -
  have l: "2 \<le> length (pad64 ''a'')" by simp
  have x: "hex_ok (snd (integrity_to_hex (store3 \<lparr> ix_files = [] \<rparr>) [(Sha512, pad64 ''a'')]))"
    by (simp add: hex_ok_digest)
  show ?thesis
    using store_paths_distinct [OF l l x, of store_root True False] by simp
qed

text \<open>C15: \<^verbatim>\<open>ensure_file\<close> leaves a path that exists alone; otherwise success means a new file with
  the content given, and in every case, errors included, no file that was there before changes
  or disappears.\<close>

theorem ensure_file_spec:
  assumes "tree_ok F" and "plain F ns" and "fs_fault F Stat (abs_path ns) = None"
    and "ensure_file (abs_path ns) content mode F = (F', r)"
  shows "keeps F F' \<and> tree_ok F'
    \<and> (node_at F ns \<noteq> None \<longrightarrow> F' = F \<and> r = Inr ())
    \<and> (node_at F ns = None \<longrightarrow> r = Inr () \<longrightarrow> file_added ns content F F')"
  using ensure_file_run [OF assms] assms(1) keeping.refl [of F] by auto

lemma tree_ok_empty [simp]: "tree_ok empty_fs"
  by (auto simp: tree_ok_def node_at_def empty_fs_def split: if_splits)

lemma plain_empty [simp]: "plain empty_fs ns"
  by (auto simp: plain_def node_at_def empty_fs_def)

lemma fault_empty [simp]: "fs_fault empty_fs c p = None"
  by (simp add: empty_fs_def)

lemma node_at_empty [simp]: "node_at empty_fs ns = (if ns = [] then Some Dir else None)"
  by (simp add: node_at_def empty_fs_def)

theorem ensure_file_spec_witness:
  "\<exists>F'. ensure_file (abs_path [''d'', ''f'']) ''text'' None empty_fs = (F', Inr ())
     \<and> file_added [''d'', ''f''] ''text'' empty_fs F'"
proof -
  have "\<exists>F'. ensure_file (abs_path [''d'', ''f'']) ''text'' None empty_fs = (F', Inr ())"
    by (simp add: ensure_file_def act_simps fs_exists_def fs_metadata_def lookup_def guarded_def
        abs_path_def empty_fs_def node_at_def path_parent_def fs_create_dir_all.simps fs_mkdir_def
        set_node_def fs_open_create_def fresh_file_def fs_write_all_def set_data_def)
  then obtain F' where run: "ensure_file (abs_path [''d'', ''f'']) ''text'' None empty_fs = (F', Inr ())"
    by blast
  with ensure_file_spec [OF tree_ok_empty plain_empty fault_empty run] show ?thesis by auto
qed

text \<open>C8: \<^verbatim>\<open>write_cas_file\<close> keeps the store content-addressed: when it succeeds, every file of the
  store, the new one included, still has the content whose hash is its name, and the path it
  returns is the address of the buffer.\<close>

theorem write_cas_file_spec:
  assumes ok: "tree_ok F" and root: "sd_root S = abs_path r"
    and len: "2 \<le> length (sha512_digest L buffer)"
    and pl: "plain F (cas_names r (sha512_digest L buffer) ex)"
    and nf: "fs_fault F Stat (abs_path (cas_names r (sha512_digest L buffer) ex)) = None"
    and cas: "cas_ok L r F"
    and run: "write_cas_file L S buffer ex F = (F', Inr (p, h))"
  shows "h = sha512_digest L buffer \<and> p = abs_path (cas_names r h ex)
    \<and> cas_ok L r F' \<and> keeps F F' \<and> tree_ok F' \<and> node_at F' (cas_names r h ex) \<noteq> None"
  using write_cas_file_run [OF assms] by blast

definition short_lib :: store_lib where
  "short_lib = (store3 \<lparr> ix_files = [] \<rparr>)\<lparr>sha512_digest := \<lambda>s. take 2 (s @ ''..'')\<rparr>"

lemma short_names: "cas_names [''store''] (sha512_digest short_lib ''a'') True
   = [''store'', ''v3'', ''files'', ''61'', ''2e-exec'']"
  by code_simp

theorem write_cas_file_spec_witness:
  "\<exists>F' h. write_cas_file short_lib store_root ''a'' True empty_fs
       = (F', Inr (abs_path [''store'', ''v3'', ''files'', ''61'', ''2e-exec''], h))
     \<and> cas_ok short_lib [''store''] F' \<and> node_at F' [''store'', ''v3'', ''files'', ''61'', ''2e-exec''] \<noteq> None"
proof -
  let ?ns = "[''store'', ''v3'', ''files'', ''61'', ''2e-exec'']"
  have l: "2 \<le> length (sha512_digest short_lib ''a'')" by (simp add: short_lib_def)
  have root: "sd_root store_root = abs_path [''store'']" by (simp add: store_root_def)
  have "\<exists>F'. ensure_file (abs_path ?ns) ''a'' (Some EXEC_MODE) empty_fs = (F', Inr ())"
    by (simp add: ensure_file_def act_simps fs_exists_def fs_metadata_def lookup_def guarded_def
        abs_path_def empty_fs_def node_at_def path_parent_def fs_create_dir_all.simps fs_mkdir_def fs_is_dir_def
        set_node_def fs_open_create_def fresh_file_def fs_write_all_def set_data_def)
  then obtain F' where "ensure_file (abs_path ?ns) ''a'' (Some EXEC_MODE) empty_fs = (F', Inr ())" by blast
  then have run: "write_cas_file short_lib store_root ''a'' True empty_fs = (F', Inr (abs_path ?ns, sha512_digest short_lib ''a''))"
    by (simp add: write_cas_file_def Let_def result_simps cas_file_path_abs [OF l root] short_names)
  have c: "cas_ok short_lib [''store''] empty_fs" by (simp add: cas_ok_def cas_names_def)
  from write_cas_file_spec [OF tree_ok_empty root l plain_empty fault_empty c run] run show ?thesis
    by (auto simp: short_names)
qed

definition full_disk :: fs where
  "full_disk = empty_fs\<lparr>fs_fault := \<lambda>sc _. if sc = WriteAll then Some OtherIo else None\<rparr>"


end
