(* ===== verification/Npmrc.thy ===== *)
theory Npmrc
  imports Store_Dir
begin

text \<open>
  \<^verbatim>\<open>crates/npmrc\<close>: the settings, their defaults and custom deserializers, and the search for
  \<^verbatim>\<open>.npmrc\<close> files. The INI grammar of \<^verbatim>\<open>serde_ini\<close> is a parameter; the derived
  deserialization of the settings from its entries is modelled.
\<close>

section \<open>Types\<close>

datatype node_linker = Isolated | Hoisted | Pnp

datatype package_import_method = Auto | Hardlink | CopyFiles | Clone | CloneOrCopy

record npmrc =
  nc_hoist :: bool
  nc_hoist_pattern :: "string list"
  nc_public_hoist_pattern :: "string list"
  nc_shamefully_hoist :: bool
  nc_store_dir :: store_dir
  nc_modules_dir :: path
  nc_node_linker :: node_linker
  nc_symlink :: bool
  nc_virtual_store_dir :: path
  nc_package_import_method :: package_import_method
  nc_modules_cache_max_age :: "64 word"
  nc_lockfile :: bool
  nc_prefer_frozen_lockfile :: bool
  nc_lockfile_include_tarball_url :: bool
  nc_registry :: string
  nc_auto_install_peers :: bool
  nc_dedupe_peer_dependents :: bool
  nc_strict_peer_dependencies :: bool
  nc_resolve_peers_from_workspace_root :: bool

text \<open>The process: environment variables, home directory, \<^verbatim>\<open>env::consts::OS\<close>, current directory.\<close>

record environment =
  en_pnpm_home :: "string option"
  en_xdg_data_home :: "string option"
  en_home_dir :: "path option"
  en_os :: string
  en_current_dir :: "io_kind + path"

section \<open>Defaults\<close>

definition bool_true :: bool where
  "bool_true = True"

definition default_hoist_pattern :: "string list" where
  "default_hoist_pattern = [''*'']"

definition default_public_hoist_pattern :: "string list" where
  "default_public_hoist_pattern = [''*eslint*'', ''*prettier*'']"

definition default_store_dir :: "environment \<Rightarrow> 'e failure + store_dir" where
  "default_store_dir E =
     (case en_pnpm_home E of
        Some pnpm_home \<Rightarrow> Inr \<lparr> sd_root = join_str (path_of_string pnpm_home) ''store'' \<rparr>
      | None \<Rightarrow>
          (case en_xdg_data_home E of
             Some xdg \<Rightarrow> Inr \<lparr> sd_root = join_str (join_str (path_of_string xdg) ''pnpm'') ''store'' \<rparr>
           | None \<Rightarrow>
               (case en_home_dir E of
                  None \<Rightarrow> Inl (Panic ''Home directory is not available'')
                | Some home_dir \<Rightarrow>
                    if en_os E = ''linux'' then
                      Inr \<lparr> sd_root = join_str home_dir ''.local/share/pnpm/store'' \<rparr>
                    else if en_os E = ''macos'' then
                      Inr \<lparr> sd_root = join_str home_dir ''Library/pnpm/store'' \<rparr>
                    else Inl (Panic (''unsupported operating system: '' @ en_os E)))))"

definition default_modules_dir :: "environment \<Rightarrow> 'e failure + path" where
  "default_modules_dir E =
     (case en_current_dir E of
        Inl _ \<Rightarrow> Inl (Panic ''current directory is unavailable'')
      | Inr dir \<Rightarrow> Inr (join_str dir ''node_modules''))"

definition default_virtual_store_dir :: "environment \<Rightarrow> 'e failure + path" where
  "default_virtual_store_dir E =
     (case en_current_dir E of
        Inl _ \<Rightarrow> Inl (Panic ''current directory is unavailable'')
      | Inr dir \<Rightarrow> Inr (join_str dir ''node_modules/.pnpm''))"

definition default_registry :: string where
  "default_registry = ''https://registry.npmjs.org/''"

definition default_modules_cache_max_age :: "64 word" where
  "default_modules_cache_max_age = 10080"

section \<open>Deserializers\<close>

definition deserialize_bool :: "string \<Rightarrow> string + bool" where
  "deserialize_bool s =
     (if s = ''true'' then Inr True else if s = ''false'' then Inr False
      else Inl ''provided string was not `true` or `false`'')"

definition deserialize_u64 :: "string \<Rightarrow> string + 64 word" where
  "deserialize_u64 s =
     map_err (\<lambda>e. case e of
         Empty \<Rightarrow> ''cannot parse integer from empty string''
       | InvalidDigit \<Rightarrow> ''invalid digit found in string''
       | PosOverflow \<Rightarrow> ''number too large to fit in target type'')
       (map_ok of_nat (parse_unsigned (2 ^ 64 - 1) s))"

definition deserialize_pathbuf :: "environment \<Rightarrow> string \<Rightarrow> string + path" where
  "deserialize_pathbuf E s =
     (let p = path_of_string s
      in if is_absolute p then Inr p
         else map_err (\<lambda>_. ''current directory'') (map_ok (\<lambda>dir. path_join dir p) (en_current_dir E)))"

definition deserialize_store_dir :: "environment \<Rightarrow> string \<Rightarrow> string + store_dir" where
  "deserialize_store_dir E s = map_ok (\<lambda>p. \<lparr> sd_root = p \<rparr>) (deserialize_pathbuf E s)"

definition deserialize_registry :: "string \<Rightarrow> string + string" where
  "deserialize_registry s = (if ends_with_char (CHR ''/'') s then Inr s else Inr (s @ ''/''))"

definition deserialize_node_linker :: "string \<Rightarrow> string + node_linker" where
  "deserialize_node_linker s =
     (if s = ''isolated'' then Inr Isolated else if s = ''hoisted'' then Inr Hoisted
      else if s = ''pnp'' then Inr Pnp else Inl ''unknown variant'')"

definition deserialize_package_import_method :: "string \<Rightarrow> string + package_import_method" where
  "deserialize_package_import_method s =
     (if s = ''auto'' then Inr Auto else if s = ''hardlink'' then Inr Hardlink
      else if s = ''copy'' then Inr CopyFiles else if s = ''clone'' then Inr Clone
      else if s = ''clone-or-copy'' then Inr CloneOrCopy else Inl ''unknown variant'')"

section \<open>The derived deserialization\<close>

text \<open>
  \<^verbatim>\<open>serde_ini\<close>: the entries of a text in order, and how a list field reads its entries.
\<close>

record ini_lib =
  ini_entries :: "string \<Rightarrow> string + (string \<times> string) list"
  ini_list :: "string list \<Rightarrow> string + string list option"

text \<open>One field: at most one entry with its key.\<close>

definition ini_field ::
    "(string \<times> string) list \<Rightarrow> string \<Rightarrow> (string \<Rightarrow> string + 'a) \<Rightarrow> string + 'a option" where
  "ini_field es key parse =
     (case map snd (filter (\<lambda>e. fst e = key) es) of
        [] \<Rightarrow> Inr None
      | [v] \<Rightarrow> map_ok Some (parse v)
      | _ \<Rightarrow> Inl ''duplicate field'')"

definition ini_list_field :: "ini_lib \<Rightarrow> (string \<times> string) list \<Rightarrow> string \<Rightarrow> string + string list option" where
  "ini_list_field I es key = ini_list I (map snd (filter (\<lambda>e. fst e = key) es))"

definition or_default :: "'a \<Rightarrow> 'a option \<Rightarrow> 'a" where
  "or_default d m = (case m of None \<Rightarrow> d | Some x \<Rightarrow> x)"

definition or_default_of :: "'e failure + 'a \<Rightarrow> 'a option \<Rightarrow> 'e failure + 'a" where
  "or_default_of d m = (case m of None \<Rightarrow> d | Some x \<Rightarrow> Inr x)"

text \<open>All entries are read first; then the defaults fill the missing fields.\<close>

definition npmrc_from_entries ::
    "ini_lib \<Rightarrow> environment \<Rightarrow> (string \<times> string) list \<Rightarrow> string failure + npmrc" where
  "npmrc_from_entries I E es =
     (let flag = (\<lambda>key. map_err Err (ini_field es key deserialize_bool))
      in rbind (flag ''hoist'') (\<lambda>hoist.
         rbind (map_err Err (ini_list_field I es ''hoist-pattern'')) (\<lambda>hoist_pattern.
         rbind (map_err Err (ini_list_field I es ''public-hoist-pattern'')) (\<lambda>public_hoist_pattern.
         rbind (flag ''shamefully-hoist'') (\<lambda>shamefully_hoist.
         rbind (map_err Err (ini_field es ''store-dir'' (deserialize_store_dir E))) (\<lambda>store_dir.
         rbind (map_err Err (ini_field es ''modules-dir'' (deserialize_pathbuf E))) (\<lambda>modules_dir.
         rbind (map_err Err (ini_field es ''node-linker'' deserialize_node_linker)) (\<lambda>node_linker.
         rbind (flag ''symlink'') (\<lambda>symlink.
         rbind (map_err Err (ini_field es ''virtual-store-dir'' (deserialize_pathbuf E))) (\<lambda>virtual_store_dir.
         rbind (map_err Err (ini_field es ''package-import-method'' deserialize_package_import_method)) (\<lambda>import_method.
         rbind (map_err Err (ini_field es ''modules-cache-max-age'' deserialize_u64)) (\<lambda>max_age.
         rbind (flag ''lockfile'') (\<lambda>lockfile.
         rbind (flag ''prefer-frozen-lockfile'') (\<lambda>prefer_frozen.
         rbind (flag ''lockfile-include-tarball-url'') (\<lambda>tarball_url.
         rbind (map_err Err (ini_field es ''registry'' deserialize_registry)) (\<lambda>registry.
         rbind (flag ''auto-install-peers'') (\<lambda>auto_install_peers.
         rbind (flag ''dedupe-peer-dependents'') (\<lambda>dedupe.
         rbind (flag ''strict-peer-dependencies'') (\<lambda>strict.
         rbind (flag ''resolve-peers-from-workspace-root'') (\<lambda>resolve_peers.
         rbind (or_default_of (default_store_dir E) store_dir) (\<lambda>store_dir.
         rbind (or_default_of (default_modules_dir E) modules_dir) (\<lambda>modules_dir.
         rbind (or_default_of (default_virtual_store_dir E) virtual_store_dir) (\<lambda>virtual_store_dir.
         Inr \<lparr> nc_hoist = or_default bool_true hoist,
               nc_hoist_pattern = or_default default_hoist_pattern hoist_pattern,
               nc_public_hoist_pattern = or_default default_public_hoist_pattern public_hoist_pattern,
               nc_shamefully_hoist = or_default False shamefully_hoist,
               nc_store_dir = store_dir,
               nc_modules_dir = modules_dir,
               nc_node_linker = or_default Isolated node_linker,
               nc_symlink = or_default bool_true symlink,
               nc_virtual_store_dir = virtual_store_dir,
               nc_package_import_method = or_default Auto import_method,
               nc_modules_cache_max_age = or_default default_modules_cache_max_age max_age,
               nc_lockfile = or_default False lockfile,
               nc_prefer_frozen_lockfile = or_default bool_true prefer_frozen,
               nc_lockfile_include_tarball_url = or_default False tarball_url,
               nc_registry = or_default default_registry registry,
               nc_auto_install_peers = or_default bool_true auto_install_peers,
               nc_dedupe_peer_dependents = or_default bool_true dedupe,
               nc_strict_peer_dependencies = or_default False strict,
               nc_resolve_peers_from_workspace_root = or_default bool_true resolve_peers
             \<rparr>)))))))))))))))))))))))"

definition npmrc_from_str :: "ini_lib \<Rightarrow> environment \<Rightarrow> string \<Rightarrow> string failure + npmrc" where
  "npmrc_from_str I E s = rbind (map_err Err (ini_entries I s)) (npmrc_from_entries I E)"

definition npmrc_new :: "ini_lib \<Rightarrow> environment \<Rightarrow> 'e failure + npmrc" where
  "npmrc_new I E =
     map_err (\<lambda>e. case e of Err m \<Rightarrow> Panic m | Panic m \<Rightarrow> Panic m | Blocked \<Rightarrow> Blocked | OutOfFuel \<Rightarrow> OutOfFuel) (npmrc_from_str I E [])"

section \<open>Finding the file\<close>

record path_field_presence =
  pp_modules_dir :: bool
  pp_virtual_store_dir :: bool

definition no_presence :: path_field_presence where
  "no_presence = \<lparr> pp_modules_dir = False, pp_virtual_store_dir = False \<rparr>"

definition normalize_path_value :: "path \<Rightarrow> string \<Rightarrow> string" where
  "normalize_path_value config_dir v =
     (let p = path_of_string v
      in if is_absolute p then v else path_to_string (path_join config_dir p))"

definition normalize_npmrc_line ::
    "string \<Rightarrow> path \<Rightarrow> path_field_presence \<Rightarrow> path_field_presence \<times> string" where
  "normalize_npmrc_line line config_dir presence =
     (case split_once (CHR ''='') line of
        None \<Rightarrow> (presence, line)
      | Some (key, v) \<Rightarrow>
          let v = trim v
          in if trim key = ''modules-dir'' then
               (presence\<lparr>pp_modules_dir := True\<rparr>, key @ ''='' @ normalize_path_value config_dir v)
             else if trim key = ''virtual-store-dir'' then
               (presence\<lparr>pp_virtual_store_dir := True\<rparr>, key @ ''='' @ normalize_path_value config_dir v)
             else if trim key = ''store-dir'' then
               (presence, key @ ''='' @ normalize_path_value config_dir v)
             else (presence, line))"

fun normalize_npmrc_lines ::
    "string list \<Rightarrow> path \<Rightarrow> path_field_presence \<Rightarrow> path_field_presence \<times> string list" where
  "normalize_npmrc_lines [] config_dir presence = (presence, [])"
| "normalize_npmrc_lines (line # ls) config_dir presence =
     (let (presence, l) = normalize_npmrc_line line config_dir presence;
          (presence, ls) = normalize_npmrc_lines ls config_dir presence
      in (presence, l # ls))"

definition normalize_npmrc_text :: "string \<Rightarrow> path \<Rightarrow> string \<times> path_field_presence" where
  "normalize_npmrc_text text config_dir =
     (let (presence, ls) = normalize_npmrc_lines (str_lines text) config_dir no_presence
      in (join_with [CHR 0x0A] ls, presence))"

text \<open>Only a panic of a default leaves \<^verbatim>\<open>load_npmrc\<close> abnormally; every error is no result.\<close>

definition load_npmrc ::
    "ini_lib \<Rightarrow> environment \<Rightarrow> fs \<Rightarrow> path \<Rightarrow> path \<Rightarrow> 'e failure + npmrc option" where
  "load_npmrc I E F project_dir config_dir =
     (case fs_read_to_string F (join_str config_dir ''.npmrc'') of
        Inl _ \<Rightarrow> Inr None
      | Inr text \<Rightarrow>
          let (text, presence) = normalize_npmrc_text text config_dir
          in (case npmrc_from_str I E text of
                Inl (Panic m) \<Rightarrow> Inl (Panic m)
              | Inl _ \<Rightarrow> Inr None
              | Inr config \<Rightarrow>
                  let config = (if pp_modules_dir presence then config
                                else config\<lparr>nc_modules_dir := join_str project_dir ''node_modules''\<rparr>);
                      config = (if pp_virtual_store_dir presence then config
                                else config\<lparr>nc_virtual_store_dir := join_str project_dir ''node_modules/.pnpm''\<rparr>)
                  in Inr (Some config)))"

definition apply_project_dir_defaults :: "path \<Rightarrow> npmrc \<Rightarrow> npmrc" where
  "apply_project_dir_defaults project_dir config =
     config\<lparr>nc_modules_dir := join_str project_dir ''node_modules'',
            nc_virtual_store_dir := join_str project_dir ''node_modules/.pnpm''\<rparr>"

definition npmrc_current ::
    "ini_lib \<Rightarrow> environment \<Rightarrow> fs \<Rightarrow> 'd + path \<Rightarrow> path option \<Rightarrow> 'e failure + npmrc \<Rightarrow> 'e failure + npmrc" where
  "npmrc_current I E F current_dir home_dir dflt =
     (let project_dir = ok_opt current_dir;
          dflt = map_ok (case project_dir of
                              None \<Rightarrow> (\<lambda>c. c)
                            | Some d \<Rightarrow> apply_project_dir_defaults d) dflt
      in rbind (case project_dir of None \<Rightarrow> Inr None | Some dir \<Rightarrow> load_npmrc I E F dir dir) (\<lambda>c.
         case c of
           Some config \<Rightarrow> Inr config
         | None \<Rightarrow>
             rbind (case home_dir of
                      None \<Rightarrow> Inr None
                    | Some config_dir \<Rightarrow>
                        load_npmrc I E F (case project_dir of None \<Rightarrow> config_dir | Some d \<Rightarrow> d) config_dir) (\<lambda>c.
             case c of Some config \<Rightarrow> Inr config | None \<Rightarrow> dflt)))"

section \<open>Laws of the settings\<close>

lemma ini_field_Inr: "ini_field es key parse = Inr (Some x) \<Longrightarrow> \<exists>v. (key, v) \<in> set es \<and> parse v = Inr x"
proof -
  assume f: "ini_field es key parse = Inr (Some x)"
  then obtain e where e: "filter (\<lambda>e. fst e = key) es = [e]" "parse (snd e) = Inr x"
    by (auto simp: ini_field_def result_simps split: list.splits)
  then have "e \<in> set es" "fst e = key" using set_filter [of "\<lambda>e. fst e = key" es] by auto
  with e(2) show ?thesis by (cases e) auto
qed

lemma is_absolute_path_of_string: "is_absolute (path_of_string s) \<longleftrightarrow> starts_with_char (CHR ''/'') s"
proof -
  have "RootDir \<notin> set (List.map_filter piece_component ps)" for ps
    by (auto simp: set_map_filter_iff piece_component_def split: if_splits)
  then have "List.map_filter piece_component ps \<noteq> RootDir # qs" for ps qs
    by (metis list.set_intros(1))
  then show ?thesis
    by (auto simp: path_of_string_def is_absolute_def Let_def split: list.splits component.splits)
qed

lemma starts_with_path_to_string: "is_absolute p \<Longrightarrow> starts_with_char (CHR ''/'') (path_to_string p)"
  by (auto simp: is_absolute_def path_to_string_def starts_with_char_def split: list.splits component.splits)

definition env_ok :: "environment \<Rightarrow> bool" where
  "env_ok E \<longleftrightarrow>
     (\<forall>s. en_pnpm_home E = Some s \<longrightarrow> starts_with_char (CHR ''/'') s)
     \<and> (\<forall>s. en_xdg_data_home E = Some s \<longrightarrow> starts_with_char (CHR ''/'') s)
     \<and> (\<forall>d. en_home_dir E = Some d \<longrightarrow> is_absolute d)
     \<and> (\<forall>d. en_current_dir E = Inr d \<longrightarrow> is_absolute d)"

lemma default_dirs_absolute:
  assumes "env_ok E"
  shows "default_store_dir E = Inr S \<Longrightarrow> is_absolute (sd_root S)"
    and "default_modules_dir E = Inr m \<Longrightarrow> is_absolute m"
    and "default_virtual_store_dir E = Inr m \<Longrightarrow> is_absolute m"
  using assms
  by (auto simp: env_ok_def default_store_dir_def default_modules_dir_def default_virtual_store_dir_def
      is_absolute_path_of_string intro!: is_absolute_join split: option.splits if_splits sum.splits)

lemma deserialize_pathbuf_absolute:
  "env_ok E \<Longrightarrow> deserialize_pathbuf E s = Inr p \<Longrightarrow> is_absolute p"
  by (auto simp: deserialize_pathbuf_def env_ok_def result_simps Let_def intro!: is_absolute_join split: if_splits)

lemma deserialize_registry_slash: "deserialize_registry s = Inr r \<Longrightarrow> ends_with_char (CHR ''/'') r"
  by (auto simp: deserialize_registry_def ends_with_char_def split: if_splits)

definition config_ok :: "npmrc \<Rightarrow> bool" where
  "config_ok c \<longleftrightarrow>
     is_absolute (nc_modules_dir c) \<and> is_absolute (nc_virtual_store_dir c)
     \<and> is_absolute (sd_root (nc_store_dir c)) \<and> ends_with_char (CHR ''/'') (nc_registry c)"

lemma or_default_of_Inr: "or_default_of d m = Inr x \<longleftrightarrow> m = Some x \<or> m = None \<and> d = Inr x"
  by (auto simp: or_default_of_def split: option.splits)

lemma npmrc_from_entries_parts:
  assumes "npmrc_from_entries I E es = Inr c"
  shows "\<exists>s m v r.
    ini_field es ''store-dir'' (deserialize_store_dir E) = Inr s \<and> or_default_of (default_store_dir E :: string failure + _) s = Inr (nc_store_dir c)
    \<and> ini_field es ''modules-dir'' (deserialize_pathbuf E) = Inr m \<and> or_default_of (default_modules_dir E :: string failure + _) m = Inr (nc_modules_dir c)
    \<and> ini_field es ''virtual-store-dir'' (deserialize_pathbuf E) = Inr v
    \<and> or_default_of (default_virtual_store_dir E :: string failure + _) v = Inr (nc_virtual_store_dir c)
    \<and> ini_field es ''registry'' deserialize_registry = Inr r \<and> nc_registry c = or_default default_registry r"
  using assms unfolding npmrc_from_entries_def Let_def rbind_eq_Inr map_err_eq_Inr
  by (elim exE conjE) (drule sum.inject(2) [THEN iffD1], hypsubst, simp)

lemma npmrc_from_entries_ok:
  assumes "npmrc_from_entries I E es = Inr c" and "env_ok E"
  shows "config_ok c"
proof -
  from npmrc_from_entries_parts [OF assms(1)] obtain s m v r where
    s: "ini_field es ''store-dir'' (deserialize_store_dir E) = Inr s" "or_default_of (default_store_dir E :: string failure + _) s = Inr (nc_store_dir c)"
    and m: "ini_field es ''modules-dir'' (deserialize_pathbuf E) = Inr m" "or_default_of (default_modules_dir E :: string failure + _) m = Inr (nc_modules_dir c)"
    and v: "ini_field es ''virtual-store-dir'' (deserialize_pathbuf E) = Inr v"
      "or_default_of (default_virtual_store_dir E :: string failure + _) v = Inr (nc_virtual_store_dir c)"
    and r: "ini_field es ''registry'' deserialize_registry = Inr r" "nc_registry c = or_default default_registry r"
    by blast
  have "is_absolute (nc_modules_dir c)"
    using m by (auto simp: or_default_of_Inr default_dirs_absolute [OF assms(2)]
        dest!: ini_field_Inr deserialize_pathbuf_absolute [OF assms(2)])
  moreover have "is_absolute (nc_virtual_store_dir c)"
    using v by (auto simp: or_default_of_Inr default_dirs_absolute [OF assms(2)]
        dest!: ini_field_Inr deserialize_pathbuf_absolute [OF assms(2)])
  moreover have "is_absolute (sd_root (nc_store_dir c))"
    using s by (auto simp: or_default_of_Inr default_dirs_absolute [OF assms(2)] deserialize_store_dir_def result_simps
        dest!: ini_field_Inr deserialize_pathbuf_absolute [OF assms(2)])
  moreover have "ends_with_char (CHR ''/'') (nc_registry c)"
    using r by (cases r) (auto simp: or_default_def default_registry_def ends_with_char_def [of _ "''https://registry.npmjs.org/''"]
        dest!: ini_field_Inr deserialize_registry_slash)
  ultimately show ?thesis by (simp add: config_ok_def)
qed

definition sets_key :: "string \<Rightarrow> string \<Rightarrow> bool" where
  "sets_key line key = (case split_once (CHR ''='') line of None \<Rightarrow> False | Some (k, _) \<Rightarrow> trim k = key)"

definition path_keys :: "string set" where
  "path_keys = {''modules-dir'', ''virtual-store-dir'', ''store-dir''}"

lemma normalize_line_presence:
  "pp_modules_dir (fst (normalize_npmrc_line line d pr)) \<longleftrightarrow> pp_modules_dir pr \<or> sets_key line ''modules-dir''"
  "pp_virtual_store_dir (fst (normalize_npmrc_line line d pr)) \<longleftrightarrow>
     pp_virtual_store_dir pr \<or> sets_key line ''virtual-store-dir''"
  by (auto simp: normalize_npmrc_line_def sets_key_def Let_def split: option.splits)

lemma normalize_lines_presence:
  "pp_modules_dir (fst (normalize_npmrc_lines ls d pr)) \<longleftrightarrow>
     pp_modules_dir pr \<or> (\<exists>line \<in> set ls. sets_key line ''modules-dir'')"
  "pp_virtual_store_dir (fst (normalize_npmrc_lines ls d pr)) \<longleftrightarrow>
     pp_virtual_store_dir pr \<or> (\<exists>line \<in> set ls. sets_key line ''virtual-store-dir'')"
  by (induction ls arbitrary: pr)
    (auto simp: Let_def normalize_line_presence split: prod.split dest!: arg_cong [where f = fst])

lemma normalize_path_value_absolute:
  "is_absolute config_dir \<Longrightarrow> is_absolute (path_of_string (normalize_path_value config_dir v))"
  by (auto simp: normalize_path_value_def Let_def is_absolute_path_of_string
      intro!: starts_with_path_to_string is_absolute_join)

section \<open>Properties\<close>

text \<open>\<^verbatim>\<open>normalize_npmrc_line\<close> rewrites the three path settings and no other line: their value
  becomes an absolute path, an absolute value is only trimmed.\<close>

theorem normalize_npmrc_line_spec:
  assumes "is_absolute config_dir" and "normalize_npmrc_line line config_dir presence = (presence', l)"
  shows "(\<forall>key v. split_once (CHR ''='') line = Some (key, v) \<longrightarrow> trim key \<in> path_keys \<longrightarrow>
      (\<exists>v'. split_once (CHR ''='') l = Some (key, v') \<and> is_absolute (path_of_string v')
         \<and> (is_absolute (path_of_string (trim v)) \<longrightarrow> v' = trim v)))
    \<and> ((\<forall>key \<in> path_keys. \<not> sets_key line key) \<longrightarrow> l = line)"
proof (cases "split_once (CHR ''='') line")
  case None
  with assms(2) show ?thesis by (simp add: normalize_npmrc_line_def)
next
  case (Some kv)
  obtain key v where kv: "kv = (key, v)" by (cases kv)
  with Some have "CHR ''='' \<notin> set key" by (simp add: split_once_Some)
  then have cut: "split_once (CHR ''='') (key @ CHR ''='' # w) = Some (key, w)" for w by simp
  show ?thesis
    using assms(2) Some kv cut normalize_path_value_absolute [OF assms(1), of "trim v"]
    by (auto simp: normalize_npmrc_line_def sets_key_def path_keys_def Let_def normalize_path_value_def
        split: if_splits)
qed

theorem normalize_npmrc_line_spec_witness:
  "\<exists>pr l v'. normalize_npmrc_line ''store-dir = cache'' (abs_path [''home'']) no_presence = (pr, l)
     \<and> split_once (CHR ''='') l = Some (''store-dir '', v') \<and> is_absolute (path_of_string v')"
proof -
  obtain pr l where run: "normalize_npmrc_line ''store-dir = cache'' (abs_path [''home'']) no_presence = (pr, l)"
    by (cases "normalize_npmrc_line ''store-dir = cache'' (abs_path [''home'']) no_presence")
  have s: "split_once (CHR ''='') ''store-dir = cache'' = Some (''store-dir '', '' cache'')"
    and t: "trim ''store-dir '' = ''store-dir''"
    by code_simp+
  have "is_absolute (abs_path [''home''])" by (simp add: abs_path_def is_absolute_def)
  from normalize_npmrc_line_spec [OF this run] s t show ?thesis
    using run by (auto simp: path_keys_def)
qed

text \<open>C19: A settings file that loads gives absolute directories and a registry that ends in a
  slash, and the modules directory and the virtual store are those of the project unless a line
  of the file sets them.\<close>

theorem load_npmrc_spec:
  assumes "load_npmrc I E F project_dir config_dir = Inr (Some c)" and "env_ok E"
    and "is_absolute project_dir"
  shows "config_ok c \<and> (\<exists>text. fs_read_to_string F (join_str config_dir ''.npmrc'') = Inr text
    \<and> ((\<exists>line \<in> set (str_lines text). sets_key line ''modules-dir'')
       \<or> nc_modules_dir c = join_str project_dir ''node_modules'')
    \<and> ((\<exists>line \<in> set (str_lines text). sets_key line ''virtual-store-dir'')
       \<or> nc_virtual_store_dir c = join_str project_dir ''node_modules/.pnpm''))"
proof -
  from assms(1) obtain content where content: "fs_read_to_string F (join_str config_dir ''.npmrc'') = Inr content"
    by (auto simp: load_npmrc_def split: sum.splits)
  obtain t presence where n: "normalize_npmrc_text content config_dir = (t, presence)"
    by (cases "normalize_npmrc_text content config_dir")
  with assms(1) content obtain c0 where c0: "npmrc_from_str I E t = Inr c0"
    and c: "c = (let config = (if pp_modules_dir presence then c0
                   else c0\<lparr>nc_modules_dir := join_str project_dir ''node_modules''\<rparr>)
                 in if pp_virtual_store_dir presence then config
                    else config\<lparr>nc_virtual_store_dir := join_str project_dir ''node_modules/.pnpm''\<rparr>)"
    by (auto simp: load_npmrc_def Let_def split: sum.splits failure.splits)
  have ok: "config_ok c0"
    using c0 assms(2) by (auto simp: npmrc_from_str_def result_simps intro: npmrc_from_entries_ok)
  have "presence = fst (normalize_npmrc_lines (str_lines content) config_dir no_presence)"
    using n by (auto simp: normalize_npmrc_text_def Let_def split: prod.splits)
  then have p: "pp_modules_dir presence \<longleftrightarrow> (\<exists>line \<in> set (str_lines content). sets_key line ''modules-dir'')"
    "pp_virtual_store_dir presence \<longleftrightarrow> (\<exists>line \<in> set (str_lines content). sets_key line ''virtual-store-dir'')"
    by (simp_all add: normalize_lines_presence no_presence_def)
  have "config_ok c" using ok assms(3) by (simp add: config_ok_def c Let_def is_absolute_join)
  with content p show ?thesis by (auto simp: c Let_def)
qed

definition env3 :: environment where
  "env3 = \<lparr> en_pnpm_home = None, en_xdg_data_home = None, en_home_dir = Some (abs_path [''home'']),
            en_os = ''linux'', en_current_dir = Inr (abs_path [''work'']) \<rparr>"

definition ini3 :: ini_lib where
  "ini3 = \<lparr> ini_entries = (\<lambda>s. Inr (List.map_filter (split_once (CHR ''='')) (str_lines s))),
            ini_list = (\<lambda>vs. Inr (if vs = [] then None else Some vs)) \<rparr>"

text \<open>A file system with one file.\<close>

definition one_file :: "names \<Rightarrow> string \<Rightarrow> fs" where
  "one_file ns s =
     empty_fs\<lparr>fs_nodes := map (\<lambda>n. (take n ns, Dir)) [1..<length ns] @ [(ns, File 0)],
              fs_inodes := \<lambda>_. \<lparr> in_data = s, in_mode = 0 \<rparr>, fs_next := 1\<rparr>"

theorem load_npmrc_spec_witness:
  "\<exists>c. load_npmrc ini3 env3 (one_file [''.npmrc''] ''store-dir=cache'') (abs_path [''work'']) (abs_path [])
        = (Inr (Some c) :: unit failure + _)
     \<and> config_ok c \<and> nc_modules_dir c = abs_path [''work'', ''node_modules'']"
proof -
  let ?F = "one_file [''.npmrc''] ''store-dir=cache''"
  have r: "fs_read_to_string ?F (join_str (abs_path []) ''.npmrc'') = Inr ''store-dir=cache''"
    by code_simp
  have l: "str_lines ''store-dir=cache'' = [''store-dir=cache'']" by code_simp
  have nm: "normalize_npmrc_text ''store-dir=cache'' (abs_path []) = (''store-dir=/cache'', no_presence)"
    by code_simp
  have "\<exists>c. npmrc_from_str ini3 env3 ''store-dir=/cache'' = Inr c"
  proof -
    have e: "ini_entries ini3 ''store-dir=/cache'' = Inr [(''store-dir'', ''/cache'')]" by code_simp
    show ?thesis
      unfolding npmrc_from_str_def e
      by (simp add: npmrc_from_entries_def ini_field_def ini_list_field_def ini3_def Let_def
          or_default_of_def deserialize_store_dir_def deserialize_pathbuf_def default_modules_dir_def
          default_virtual_store_dir_def env3_def is_absolute_path_of_string starts_with_char_def)
  qed
  with r nm obtain c where
    run: "load_npmrc ini3 env3 ?F (abs_path [''work'']) (abs_path []) = (Inr (Some c) :: unit failure + _)"
    by (auto simp: load_npmrc_def Let_def)
  have "env_ok env3" by (simp add: env_ok_def env3_def abs_path_def is_absolute_def)
  moreover have "is_absolute (abs_path [''work''])" by (simp add: abs_path_def is_absolute_def)
  ultimately have spec: "config_ok c" "\<exists>content. Inr ''store-dir=cache'' = (Inr content :: io_kind + string)
      \<and> ((\<exists>line \<in> set (str_lines content). sets_key line ''modules-dir'')
         \<or> nc_modules_dir c = join_str (abs_path [''work'']) ''node_modules'')"
    using load_npmrc_spec [OF run] unfolding r by blast+
  have "\<not> sets_key ''store-dir=cache'' ''modules-dir''" by code_simp
  with spec l have "nc_modules_dir c = join_str (abs_path [''work'']) ''node_modules''" by simp
  moreover have "file_name_ok ''node_modules''" by (simp add: file_name_ok_def)
  ultimately have "nc_modules_dir c = abs_path [''work'', ''node_modules'']"
    by simp
  with run spec(1) show ?thesis by blast
qed

end
