(* ===== verification/Package_Spec.thy ===== *)
theory Package_Spec
  imports Prelude
begin

text \<open>
  \<^verbatim>\<open>crates/package-manager/src/package_spec.rs\<close>: the cut of a command line argument such as
  \<^verbatim>\<open>@scope/name@^1\<close> into a name and a specifier.
\<close>

record parsed_package_spec =
  sp_name :: string
  sp_specifier :: "string option"

text \<open>
  The last \<^verbatim>\<open>@\<close> after the first character, when something follows it. An \<^verbatim>\<open>@\<close> byte is always a
  character of its own, so byte indices and character indices skip the same first one.
\<close>

definition spec_separator :: "string \<Rightarrow> nat option" where
  "spec_separator input =
     (let hits = filter (\<lambda>index. input ! index = CHR ''@'') [1..<length input]
      in if hits = [] then None
         else if last hits + 1 < length input then Some (last hits) else None)"

definition package_spec_parse :: "string \<Rightarrow> parsed_package_spec" where
  "package_spec_parse input =
     (case spec_separator input of
        Some index \<Rightarrow> \<lparr> sp_name = take index input, sp_specifier = Some (drop (index + 1) input) \<rparr>
      | None \<Rightarrow> \<lparr> sp_name = input, sp_specifier = None \<rparr>)"

lemma last_filter_upt:
  assumes "k \<in> set [a..<b]" and "P k" and "\<And>j. k < j \<Longrightarrow> j < b \<Longrightarrow> \<not> P j"
  shows "filter P [a..<b] \<noteq> [] \<and> last (filter P [a..<b]) = k"
proof -
  have "[a..<b] = [a..<k] @ k # [Suc k..<b]"
    using assms(1) upt_add_eq_append [of a k "b - k"] by (simp add: upt_conv_Cons)
  moreover have "filter P [Suc k..<b] = []" using assms(3) by (auto simp: filter_empty_conv)
  ultimately show ?thesis using assms(2) by simp
qed

lemma spec_separator_append:
  assumes "n \<noteq> []" and "CHR ''@'' \<notin> set s" and "s \<noteq> []"
  shows "spec_separator (n @ CHR ''@'' # s) = Some (length n)"
proof -
  let ?i = "n @ CHR ''@'' # s"
  have "filter (\<lambda>index. ?i ! index = CHR ''@'') [1..<length ?i] \<noteq> []
    \<and> last (filter (\<lambda>index. ?i ! index = CHR ''@'') [1..<length ?i]) = length n"
  proof (rule last_filter_upt)
    have "1 \<le> length n" and "length n < length ?i" using assms(1) by (cases n, simp_all)
    then show "length n \<in> set [1..<length ?i]" unfolding set_upt by simp
    show "?i ! j \<noteq> CHR ''@''" if "length n < j" "j < length ?i" for j
    proof -
      have "?i ! j = s ! (j - length n - 1)" using that by (simp add: nth_append nth_Cons')
      moreover have "j - length n - 1 < length s" using that by simp
      ultimately show ?thesis using assms(2) nth_mem by metis
    qed
  qed simp
  with assms(3) show ?thesis by (simp add: spec_separator_def Let_def)
qed

lemma spec_separator_Some:
  "spec_separator input = Some k \<Longrightarrow> 0 < k \<and> Suc k < length input \<and> input ! k = CHR ''@''"
proof -
  assume s: "spec_separator input = Some k"
  then have "filter (\<lambda>index. input ! index = CHR ''@'') [1..<length input] \<noteq> []"
    and k: "k = last (filter (\<lambda>index. input ! index = CHR ''@'') [1..<length input])" and "Suc k < length input"
    by (auto simp: spec_separator_def Let_def split: if_splits)
  then have "k \<in> set (filter (\<lambda>index. input ! index = CHR ''@'') [1..<length input])"
    using last_in_set by blast
  with \<open>Suc k < length input\<close> show ?thesis by simp
qed

text \<open>Parsing a specification loses nothing: the name, an \<^verbatim>\<open>@\<close> and the specifier are the input
  again and neither part is empty; and a name followed by \<^verbatim>\<open>@\<close> and a specifier without \<^verbatim>\<open>@\<close> parses
  into just these two, whether the name is scoped or not.\<close>

theorem package_spec_parse_spec:
  "(case sp_specifier (package_spec_parse input) of
      None \<Rightarrow> sp_name (package_spec_parse input) = input
    | Some s \<Rightarrow> sp_name (package_spec_parse input) @ ''@'' @ s = input
        \<and> s \<noteq> [] \<and> sp_name (package_spec_parse input) \<noteq> [])
   \<and> (n \<noteq> [] \<longrightarrow> s \<noteq> [] \<longrightarrow> CHR ''@'' \<notin> set s \<longrightarrow>
       package_spec_parse (n @ ''@'' @ s) = \<lparr> sp_name = n, sp_specifier = Some s \<rparr>)"
proof (intro conjI impI)
  show "case sp_specifier (package_spec_parse input) of
      None \<Rightarrow> sp_name (package_spec_parse input) = input
    | Some s \<Rightarrow> sp_name (package_spec_parse input) @ ''@'' @ s = input
        \<and> s \<noteq> [] \<and> sp_name (package_spec_parse input) \<noteq> []"
  proof (cases "spec_separator input")
    case (Some k)
    from spec_separator_Some [OF this] have "take k input @ CHR ''@'' # drop (Suc k) input = input"
      by (metis Suc_lessD id_take_nth_drop)
    with Some spec_separator_Some [OF Some] show ?thesis by (auto simp: package_spec_parse_def)
  qed (simp add: package_spec_parse_def)
  assume "n \<noteq> []" "s \<noteq> []" "CHR ''@'' \<notin> set s"
  then show "package_spec_parse (n @ ''@'' @ s) = \<lparr> sp_name = n, sp_specifier = Some s \<rparr>"
    by (simp add: package_spec_parse_def spec_separator_append)
qed

theorem package_spec_parse_spec_witness:
  "package_spec_parse ''@types/node@^20'' = \<lparr> sp_name = ''@types/node'', sp_specifier = Some ''^20'' \<rparr>"
  using package_spec_parse_spec [of "[]" "''@types/node''" "''^20''"] by simp

end
