(* ===== verification/Json.thy ===== *)
theory Json
  imports Prelude
begin

text \<open>
  JSON documents: the values of \<^verbatim>\<open>serde_json::Value\<close> with objects as the entries of their map
  in its order, the accessors the program calls, and the contract of the library operations
  that stay parameters: parsing, printing, and insertion into and removal from a map.
\<close>

datatype json =
    JNull
  | JBool bool
  | JNum string
  | JStr string
  | JArr "json list"
  | JObj "(string \<times> json) list"

type_synonym json_map = "(string \<times> json) list"

text \<open>\<^verbatim>\<open>Value::get\<close> with a string index, \<^verbatim>\<open>Value::as_str\<close>, \<^verbatim>\<open>Value::as_object\<close>.\<close>

definition json_get :: "json \<Rightarrow> string \<Rightarrow> json option" where
  "json_get v k = (case v of JObj m \<Rightarrow> map_of m k | _ \<Rightarrow> None)"

definition as_str :: "json \<Rightarrow> string option" where
  "as_str v = (case v of JStr s \<Rightarrow> Some s | _ \<Rightarrow> None)"

definition as_object :: "json \<Rightarrow> json_map option" where
  "as_object v = (case v of JObj m \<Rightarrow> Some m | _ \<Rightarrow> None)"

lemma json_get_simps [simp]:
  "json_get (JObj m) k = map_of m k"
  "json_get JNull k = None" "json_get (JBool b) k = None" "json_get (JNum n) k = None"
  "json_get (JStr s) k = None" "json_get (JArr xs) k = None"
  by (simp_all add: json_get_def)

lemma as_str_Some [simp]: "as_str v = Some s \<longleftrightarrow> v = JStr s"
  by (cases v) (simp_all add: as_str_def)

lemma as_str_JStr [simp]: "as_str (JStr s) = Some s"
  by simp

lemma as_object_Some [simp]: "as_object v = Some m \<longleftrightarrow> v = JObj m"
  by (cases v) (simp_all add: as_object_def)

lemma as_object_JObj [simp]: "as_object (JObj m) = Some m"
  by simp

lemma as_object_None: "as_object v = None \<longleftrightarrow> (\<nexists>m. v = JObj m)"
  by (cases v) (simp_all add: as_object_def)

section \<open>The library\<close>

text \<open>
  \<open>hash_order\<close> is the order in which a \<^verbatim>\<open>HashMap<String, String>\<close> built from these entries
  yields them.
\<close>

record json_lib =
  json_from_str :: "string \<Rightarrow> string + json"
  json_to_string_pretty :: "json \<Rightarrow> string + string"
  map_insert :: "string \<Rightarrow> json \<Rightarrow> json_map \<Rightarrow> json_map"
  map_remove :: "string \<Rightarrow> json_map \<Rightarrow> json_map"
  hash_order :: "(string \<times> string) list \<Rightarrow> (string \<times> string) list"

definition json_map_ok :: "json_lib \<Rightarrow> bool" where
  "json_map_ok J \<longleftrightarrow>
     (\<forall>k v m. wf_map m \<longrightarrow>
        wf_map (map_insert J k v m) \<and> map_of (map_insert J k v m) = (map_of m)(k \<mapsto> v))
     \<and> (\<forall>k m. wf_map m \<longrightarrow>
        wf_map (map_remove J k m) \<and> map_of (map_remove J k m) = (map_of m)(k := None))"

lemma json_map_okD:
  assumes "json_map_ok J" and "wf_map m"
  shows "wf_map (map_insert J k v m)" and "map_of (map_insert J k v m) = (map_of m)(k \<mapsto> v)"
    and "wf_map (map_remove J k m)" and "map_of (map_remove J k m) = (map_of m)(k := None)"
  using assms by (simp_all add: json_map_ok_def)

lemma map_remove_is_Nil:
  assumes "json_map_ok J" and "wf_map m"
  shows "map_remove J k m = [] \<longleftrightarrow> dom (map_of m) \<subseteq> {k}"
proof -
  have "map_remove J k m = [] \<longleftrightarrow> dom (map_of (map_remove J k m)) = {}"
    by (auto simp: dom_map_of_conv_image_fst)
  also have "\<dots> \<longleftrightarrow> dom (map_of m) \<subseteq> {k}"
    by (auto simp: json_map_okD [OF assms])
  finally show ?thesis .
qed

text \<open>A document whose objects have distinct keys, as every parsed document has.\<close>

fun wf_json :: "json \<Rightarrow> bool" where
  "wf_json (JObj m) = (wf_map m \<and> list_all (\<lambda>e. wf_json (snd e)) m)"
| "wf_json (JArr xs) = list_all wf_json xs"
| "wf_json _ = True"

lemma wf_json_get: "wf_json v \<Longrightarrow> json_get v k = Some w \<Longrightarrow> wf_json w"
  by (cases v) (auto simp: list_all_iff dest!: map_of_SomeD)

lemma wf_json_obj: "wf_json (JObj m) \<Longrightarrow> wf_map m"
  by simp

text \<open>An instance: association lists, and a printer of one document.\<close>

definition json3 :: "json \<Rightarrow> json_lib" where
  "json3 doc =
     \<lparr> json_from_str = (\<lambda>s. if s = ''{}'' then Inr doc else Inl ''expected value''),
       json_to_string_pretty = (\<lambda>_. Inr ''{}''),
       map_insert = AList.update, map_remove = AList.delete, hash_order = (\<lambda>m. m) \<rparr>"

lemma json3_simps [simp]:
  "json_from_str (json3 doc) s = (if s = ''{}'' then Inr doc else Inl ''expected value'')"
  "json_to_string_pretty (json3 doc) v = Inr ''{}''"
  "map_insert (json3 doc) = AList.update" "map_remove (json3 doc) = AList.delete"
  "hash_order (json3 doc) m = m"
  by (simp_all add: json3_def)

lemma json_map_ok_json3 [simp]: "json_map_ok (json3 doc)"
  by (auto simp: json_map_ok_def wf_map_def distinct_update distinct_delete delete_conv')

end
