(* ===== verification/Manifest.thy ===== *)
theory Manifest
  imports Json File_System
begin

text \<open>
  \<^verbatim>\<open>crates/package-manifest/src/lib.rs\<close>: the \<^verbatim>\<open>package.json\<close> file, its dependency groups and
  every operation on them.
\<close>

section \<open>Types\<close>

datatype manifest_error =
    Serialization string
  | ManifestIo io_kind
  | AlreadyExist
  | InvalidAttribute string
  | NoImporterManifestFound string
  | NoScript string

datatype dependency_group = Prod | Dev | Optional | Peer

text \<open>The names that \<^verbatim>\<open>IntoStaticStr\<close> gives the groups.\<close>

fun group_name :: "dependency_group \<Rightarrow> string" where
  "group_name Prod = ''dependencies''"
| "group_name Dev = ''devDependencies''"
| "group_name Optional = ''optionalDependencies''"
| "group_name Peer = ''peerDependencies''"

lemma group_name_inject [simp]: "group_name g = group_name h \<longleftrightarrow> g = h"
  by (cases g; cases h) simp_all

datatype bundle_dependencies = Boolean bool | BundleList "string list"

datatype package_bin = BinString string | BinMap "(string \<times> string) list"

record package_manifest =
  mf_path :: path
  mf_value :: json

section \<open>Reading and writing the file\<close>

definition create_init_package_json :: "string \<Rightarrow> json" where
  "create_init_package_json nm =
     JObj [(''name'', JStr nm), (''version'', JStr ''1.0.0''), (''description'', JStr []),
           (''main'', JStr ''index.js''),
           (''scripts'', JObj [(''test'', JStr (''echo '' @ [CHR 0x22]
              @ ''Error: no test specified'' @ [CHR 0x22] @ '' && exit 1''))]),
           (''keywords'', JArr []), (''author'', JStr []), (''license'', JStr ''ISC'')]"

definition manifest_write_to_file ::
    "json_lib \<Rightarrow> fs \<Rightarrow> path \<Rightarrow> manifest_error + (fs \<times> json \<times> string)" where
  "manifest_write_to_file J F p =
     (let nm = (case path_parent p of
                  None \<Rightarrow> []
                | Some folder \<Rightarrow> (case path_file_name folder of None \<Rightarrow> [] | Some n \<Rightarrow> n));
          manifest = create_init_package_json nm
      in rbind (map_err Serialization (json_to_string_pretty J manifest)) (\<lambda>contents.
         rbind (map_err ManifestIo (fs_write F p contents)) (\<lambda>F'.
         Inr (F', manifest, contents))))"

definition manifest_read_from_file :: "json_lib \<Rightarrow> fs \<Rightarrow> path \<Rightarrow> manifest_error + json" where
  "manifest_read_from_file J F p =
     rbind (map_err ManifestIo (fs_read_to_string F p)) (\<lambda>contents.
     map_err Serialization (json_from_str J contents))"

text \<open>\<^verbatim>\<open>init\<close> also returns what it prints.\<close>

definition manifest_init :: "json_lib \<Rightarrow> fs \<Rightarrow> path \<Rightarrow> manifest_error + (fs \<times> string)" where
  "manifest_init J F p =
     (if fs_exists F p then Inl AlreadyExist
      else rbind (manifest_write_to_file J F p) (\<lambda>(F', _, contents).
           Inr (F', ''Wrote to '' @ path_to_string p @ [CHR 0x0A, CHR 0x0A] @ contents)))"

definition manifest_from_path :: "json_lib \<Rightarrow> fs \<Rightarrow> path \<Rightarrow> manifest_error + package_manifest" where
  "manifest_from_path J F p =
     (if \<not> fs_exists F p then Inl (NoImporterManifestFound (path_to_string p))
      else rbind (manifest_read_from_file J F p) (\<lambda>v. Inr \<lparr> mf_path = p, mf_value = v \<rparr>))"

definition manifest_create_if_needed ::
    "json_lib \<Rightarrow> fs \<Rightarrow> path \<Rightarrow> manifest_error + (fs \<times> package_manifest)" where
  "manifest_create_if_needed J F p =
     rbind (if fs_exists F p then map_ok (\<lambda>v. (F, v)) (manifest_read_from_file J F p)
            else map_ok (\<lambda>(F', v, _). (F', v)) (manifest_write_to_file J F p)) (\<lambda>(F', v).
     Inr (F', \<lparr> mf_path = p, mf_value = v \<rparr>))"

text \<open>\<^verbatim>\<open>save\<close> truncates the file before it serializes the value.\<close>

definition manifest_save :: "json_lib \<Rightarrow> fs \<Rightarrow> package_manifest \<Rightarrow> fs \<times> (manifest_error + unit)" where
  "manifest_save J F M =
     (case fs_open_create F (mf_path M) 0x1B6 of
        Inl e \<Rightarrow> (F, Inl (ManifestIo e))
      | Inr (F1, i) \<Rightarrow>
          let F2 = set_data i [] F1
          in (case json_to_string_pretty J (mf_value M) of
                Inl e \<Rightarrow> (F2, Inl (Serialization e))
              | Inr contents \<Rightarrow>
                  (case fs_write_all F2 (mf_path M) i contents of
                     Inl e \<Rightarrow> (F2, Inl (ManifestIo e))
                   | Inr F3 \<Rightarrow> (F3, Inr ()))))"

section \<open>Reading the value\<close>

definition manifest_name :: "package_manifest \<Rightarrow> string option" where
  "manifest_name M = Option.bind (json_get (mf_value M) ''name'') as_str"

text \<open>The entries of one group whose version is a string, in the order of the map.\<close>

definition group_entries :: "json \<Rightarrow> dependency_group \<Rightarrow> (string \<times> string) list" where
  "group_entries v g =
     (case Option.bind (json_get v (group_name g)) as_object of
        None \<Rightarrow> []
      | Some m \<Rightarrow> List.map_filter (\<lambda>(nm, ver). map_option (Pair nm) (as_str ver)) m)"

definition manifest_dependencies ::
    "package_manifest \<Rightarrow> dependency_group list \<Rightarrow> (string \<times> string) list" where
  "manifest_dependencies M groups = concat (map (group_entries (mf_value M)) groups)"

definition manifest_dependency_entries ::
    "package_manifest \<Rightarrow> dependency_group list \<Rightarrow> (dependency_group \<times> string \<times> string) list" where
  "manifest_dependency_entries M groups =
     concat (map (\<lambda>g. map (Pair g) (group_entries (mf_value M) g)) groups)"

definition manifest_dependency_version ::
    "package_manifest \<Rightarrow> string \<Rightarrow> dependency_group \<Rightarrow> string option" where
  "manifest_dependency_version M nm g =
     Option.bind (Option.bind (json_get (mf_value M) (group_name g)) as_object)
       (\<lambda>m. Option.bind (map_of m nm) as_str)"

fun bundle_from_value :: "json \<Rightarrow> string + bundle_dependencies" where
  "bundle_from_value (JBool b) = Inr (Boolean b)"
| "bundle_from_value (JArr xs) =
     (case those (map as_str xs) of
        Some l \<Rightarrow> Inr (BundleList l)
      | None \<Rightarrow> Inl ''data did not match any variant of untagged enum BundleDependencies'')"
| "bundle_from_value _ =
     Inl ''data did not match any variant of untagged enum BundleDependencies''"

definition manifest_bundle_dependencies ::
    "package_manifest \<Rightarrow> string + bundle_dependencies option" where
  "manifest_bundle_dependencies M =
     (case (case json_get (mf_value M) ''bundleDependencies'' of
              Some v \<Rightarrow> Some v
            | None \<Rightarrow> json_get (mf_value M) ''bundledDependencies'') of
        None \<Rightarrow> Inr None
      | Some v \<Rightarrow> map_ok Some (bundle_from_value v))"

fun bin_from_value :: "json_lib \<Rightarrow> json \<Rightarrow> string + package_bin" where
  "bin_from_value J (JStr s) = Inr (BinString s)"
| "bin_from_value J (JObj m) =
     (case those (map (\<lambda>(k, v). map_option (Pair k) (as_str v)) m) of
        Some l \<Rightarrow> Inr (BinMap (hash_order J l))
      | None \<Rightarrow> Inl ''data did not match any variant of untagged enum PackageBin'')"
| "bin_from_value J _ = Inl ''data did not match any variant of untagged enum PackageBin''"

definition default_bin_name :: "string \<Rightarrow> string option" where
  "default_bin_name package_name = Some (after_last (CHR ''/'') package_name)"

definition manifest_bin_entries ::
    "json_lib \<Rightarrow> package_manifest \<Rightarrow> manifest_error + (string \<times> string) list" where
  "manifest_bin_entries J M =
     (case json_get (mf_value M) ''bin'' of
        None \<Rightarrow> Inr []
      | Some bin \<Rightarrow>
          rbind (map_err Serialization (bin_from_value J bin)) (\<lambda>bin.
          Inr (case bin of
                 BinString p \<Rightarrow>
                   (case Option.bind (manifest_name M) default_bin_name of
                      Some nm \<Rightarrow> [(nm, p)] | None \<Rightarrow> [])
               | BinMap entries \<Rightarrow> entries)))"

definition manifest_script ::
    "package_manifest \<Rightarrow> string \<Rightarrow> bool \<Rightarrow> manifest_error + string option" where
  "manifest_script M command if_present =
     (case Option.bind (Option.bind (json_get (mf_value M) ''scripts'')
              (\<lambda>scripts. json_get scripts command)) as_str of
        Some script_str \<Rightarrow> Inr (Some script_str)
      | None \<Rightarrow> if if_present then Inr None else Inl (NoScript command))"

section \<open>Changing the value\<close>

text \<open>
  \<^verbatim>\<open>value[key] = v\<close>: null becomes an object, any other value that is no object panics.
\<close>

definition json_index_assign :: "json_lib \<Rightarrow> json \<Rightarrow> string \<Rightarrow> json \<Rightarrow> 'e failure + json" where
  "json_index_assign J v k x =
     (case v of
        JObj m \<Rightarrow> Inr (JObj (map_insert J k x m))
      | JNull \<Rightarrow> Inr (JObj (map_insert J k x []))
      | _ \<Rightarrow> Inl (Panic ''cannot access key in JSON''))"

text \<open>Assigning through \<^verbatim>\<open>get_mut\<close>: the entry keeps its place.\<close>

definition json_set_in_place :: "json \<Rightarrow> string \<Rightarrow> json \<Rightarrow> json" where
  "json_set_in_place v k x = (case v of JObj m \<Rightarrow> JObj (AList.update k x m) | _ \<Rightarrow> v)"

definition manifest_add_dependency ::
    "json_lib \<Rightarrow> package_manifest \<Rightarrow> string \<Rightarrow> string \<Rightarrow> dependency_group
     \<Rightarrow> manifest_error failure + package_manifest" where
  "manifest_add_dependency J M nm version g =
     (let dependency_type = group_name g
      in case json_get (mf_value M) dependency_type of
           Some field \<Rightarrow>
             (case as_object field of
                Some dependencies \<Rightarrow>
                  Inr (M\<lparr>mf_value := json_set_in_place (mf_value M) dependency_type
                       (JObj (map_insert J nm (JStr version) dependencies))\<rparr>)
              | None \<Rightarrow>
                  Inl (Err (InvalidAttribute ''dependencies attribute should be an object'')))
         | None \<Rightarrow>
             map_ok (\<lambda>v. M\<lparr>mf_value := v\<rparr>)
               (json_index_assign J (mf_value M) dependency_type
                  (JObj (map_insert J nm (JStr version) []))))"

definition manifest_remove_dependency ::
    "json_lib \<Rightarrow> package_manifest \<Rightarrow> string \<Rightarrow> dependency_group
     \<Rightarrow> manifest_error + (package_manifest \<times> bool)" where
  "manifest_remove_dependency J M nm g =
     (let dependency_type = group_name g
      in rbind (ok_or (InvalidAttribute ''package manifest root should be an object'')
                 (as_object (mf_value M))) (\<lambda>root.
         case map_of root dependency_type of
           None \<Rightarrow> Inr (M, False)
         | Some field \<Rightarrow>
             rbind (ok_or (InvalidAttribute ''dependencies attribute should be an object'')
                     (as_object field)) (\<lambda>dependencies.
             let removed = (map_of dependencies nm \<noteq> None);
                 dependencies' = map_remove J nm dependencies;
                 root' = (if dependencies' = []
                          then map_remove J dependency_type root
                          else AList.update dependency_type (JObj dependencies') root)
             in Inr (M\<lparr>mf_value := JObj root'\<rparr>, removed))))"

section \<open>The value as a map of groups\<close>

text \<open>
  The abstract view of a manifest: the map of each group, empty where the attribute is
  missing.
\<close>

definition group_map :: "json \<Rightarrow> dependency_group \<Rightarrow> string \<rightharpoonup> json" where
  "group_map v g = (case json_get v (group_name g) of Some (JObj m) \<Rightarrow> map_of m | _ \<Rightarrow> Map.empty)"

lemma dependency_version_group_map:
  "manifest_dependency_version M nm g = Option.bind (group_map (mf_value M) g nm) as_str"
  by (auto simp: manifest_dependency_version_def group_map_def as_object_def
      split: option.splits json.splits)

lemma group_entries_iff:
  assumes "wf_json v"
  shows "(nm, ver) \<in> set (group_entries v g) \<longleftrightarrow> group_map v g nm = Some (JStr ver)"
proof (cases "Option.bind (json_get v (group_name g)) as_object")
  case None
  then show ?thesis
    by (auto simp: group_entries_def group_map_def as_object_def split: option.splits json.splits)
next
  case (Some m)
  then have get: "json_get v (group_name g) = Some (JObj m)"
    by (auto simp: bind_eq_Some_conv)
  with assms have "wf_map m" using wf_json_get by fastforce
  then show ?thesis
    using get by (auto simp: group_entries_def group_map_def set_map_filter_iff wf_map_lookup
        intro!: bexI [of _ "(nm, JStr ver)"])
qed

text \<open>What an addition and a removal do to the attributes and to the maps of the groups.\<close>

lemma wf_json_update:
  "wf_json (JObj m) \<Longrightarrow> wf_json x \<Longrightarrow> wf_json (JObj (AList.update k x m))"
proof -
  assume m: "wf_json (JObj m)" and x: "wf_json x"
  have "wf_json (snd e)" if "e \<in> set (AList.update k x m)" for e
  proof -
    have "map_of (AList.update k x m) (fst e) = Some (snd e)"
      using that m wf_map_lookup [of "AList.update k x m" "fst e" "snd e"] by simp
    then show ?thesis
      using m x by (auto simp: list_all_iff split: if_splits dest!: map_of_SomeD)
  qed
  with m show ?thesis by (auto simp: list_all_iff)
qed

lemma wf_json_of_map:
  assumes "wf_map m" and "\<And>k x. map_of m k = Some x \<Longrightarrow> wf_json x"
  shows "wf_json (JObj m)"
  using assms by (auto simp: list_all_iff wf_map_lookup)

lemma wf_json_map_insert:
  assumes "json_map_ok J" and "wf_json (JObj m)" and "wf_json x"
  shows "wf_json (JObj (map_insert J k x m))"
  using assms json_map_okD [OF assms(1) wf_json_obj [OF assms(2)]] wf_json_get [OF assms(2)]
  by (intro wf_json_of_map) (auto split: if_splits)

lemma wf_json_map_remove:
  assumes "json_map_ok J" and "wf_json (JObj m)"
  shows "wf_json (JObj (map_remove J k m))"
  using assms json_map_okD [OF assms(1) wf_json_obj [OF assms(2)]] wf_json_get [OF assms(2)]
  by (intro wf_json_of_map) (auto split: if_splits)

lemma add_dependency_value:
  assumes J: "json_map_ok J" and wf: "wf_json (mf_value M)"
    and add: "manifest_add_dependency J M nm ver g = Inr M'"
  shows "wf_json (mf_value M')" and "mf_path M' = mf_path M"
    and "k \<noteq> group_name g \<Longrightarrow> json_get (mf_value M') k = json_get (mf_value M) k"
    and "group_map (mf_value M') g = (group_map (mf_value M) g)(nm \<mapsto> JStr ver)"
proof -
  show "mf_path M' = mf_path M"
    using add by (auto simp: manifest_add_dependency_def Let_def result_simps
        split: option.splits)
  have "wf_json (mf_value M') \<and> (k \<noteq> group_name g \<longrightarrow> json_get (mf_value M') k = json_get (mf_value M) k)
    \<and> group_map (mf_value M') g = (group_map (mf_value M) g)(nm \<mapsto> JStr ver)" for k
  proof (cases "json_get (mf_value M) (group_name g)")
    case None
    have new: "wf_json (JObj (map_insert J nm (JStr ver) []))"
      by (rule wf_json_map_insert [OF J]) simp_all
    obtain m where m': "mf_value M = JNull \<and> m = [] \<or> mf_value M = JObj m"
      and M': "mf_value M' = JObj (map_insert J (group_name g) (JObj (map_insert J nm (JStr ver) [])) m)"
      using add None
      by (cases "mf_value M") (auto simp: manifest_add_dependency_def json_index_assign_def Let_def)
    then have m: "wf_json (JObj m)" "map_of m = json_get (mf_value M)"
      using wf by (auto simp: fun_eq_iff)
    show ?thesis
      using wf_json_map_insert [OF J m(1) new, of "group_name g"] None m(2)
        json_map_okD(2) [OF J wf_json_obj [OF m(1)]] json_map_okD(2) [OF J wf_map_Nil]
      by (auto simp: M' group_map_def)
  next
    case (Some field)
    with add obtain d root where field: "field = JObj d" and root: "mf_value M = JObj root"
      and M': "mf_value M' = JObj (AList.update (group_name g) (JObj (map_insert J nm (JStr ver) d)) root)"
      by (cases "mf_value M")
        (auto simp: manifest_add_dependency_def json_set_in_place_def Let_def split: option.splits)
    have d: "wf_json (JObj d)" using wf_json_get [OF wf Some] field by simp
    have "wf_json (mf_value M')"
      unfolding M' using wf root d by (intro wf_json_update wf_json_map_insert J) simp_all
    then show ?thesis
      using Some field json_map_okD(2) [OF J wf_json_obj [OF d]] by (simp add: M' root group_map_def)
  qed
  then show "wf_json (mf_value M')"
    and "k \<noteq> group_name g \<Longrightarrow> json_get (mf_value M') k = json_get (mf_value M) k"
    and "group_map (mf_value M') g = (group_map (mf_value M) g)(nm \<mapsto> JStr ver)" by auto
qed

lemma group_map_frame:
  "(\<And>k. k \<noteq> group_name g \<Longrightarrow> json_get w k = json_get v k) \<Longrightarrow> h \<noteq> g \<Longrightarrow> group_map w h = group_map v h"
  by (simp add: group_map_def)

lemma remove_dependency_value:
  assumes J: "json_map_ok J" and wf: "wf_json (mf_value M)"
    and rm: "manifest_remove_dependency J M nm g = Inr (M', removed)"
  shows "wf_json (mf_value M')" and "mf_path M' = mf_path M"
    and "k \<noteq> group_name g \<Longrightarrow> json_get (mf_value M') k = json_get (mf_value M) k"
    and "group_map (mf_value M') g = (group_map (mf_value M) g)(nm := None)"
    and "removed \<longleftrightarrow> nm \<in> dom (group_map (mf_value M) g)"
    and "json_get (mf_value M') (group_name g) = None \<longleftrightarrow> dom (group_map (mf_value M) g) \<subseteq> {nm}"
proof -
  from rm obtain root where root: "mf_value M = JObj root"
    by (auto simp: manifest_remove_dependency_def Let_def result_simps)
  have "wf_json (mf_value M') \<and> mf_path M' = mf_path M
    \<and> (k \<noteq> group_name g \<longrightarrow> json_get (mf_value M') k = json_get (mf_value M) k)
    \<and> group_map (mf_value M') g = (group_map (mf_value M) g)(nm := None)
    \<and> (removed \<longleftrightarrow> nm \<in> dom (group_map (mf_value M) g))
    \<and> (json_get (mf_value M') (group_name g) = None \<longleftrightarrow> dom (group_map (mf_value M) g) \<subseteq> {nm})" for k
  proof (cases "map_of root (group_name g)")
    case None
    with rm root wf show ?thesis
      by (auto simp: manifest_remove_dependency_def Let_def group_map_def)
  next
    case (Some field)
    with rm root obtain d where field: "field = JObj d"
      and M': "M' = M\<lparr>mf_value := JObj (if map_remove J nm d = [] then map_remove J (group_name g) root
                 else AList.update (group_name g) (JObj (map_remove J nm d)) root)\<rparr>"
      and removed: "removed = (map_of d nm \<noteq> None)"
      by (auto simp: manifest_remove_dependency_def Let_def result_simps)
    have d: "wf_json (JObj d)" using wf_json_get [OF wf, of "group_name g" field] Some root field by simp
    have r: "wf_json (JObj root)" using wf root by simp
    have gm: "group_map (mf_value M) g = map_of d" using Some field root by (simp add: group_map_def)
    have nil: "map_remove J nm d = [] \<longleftrightarrow> dom (map_of d) \<subseteq> {nm}"
      by (rule map_remove_is_Nil [OF J wf_json_obj [OF d]])
    have wf': "wf_json (mf_value M')"
      unfolding M' using r d by (auto intro!: wf_json_map_remove wf_json_update J simp del: wf_json.simps)
    have gm': "group_map (mf_value M') g = (map_of d)(nm := None)"
    proof (cases "map_remove J nm d = []")
      case True
      with nil have "(map_of d)(nm := None) = Map.empty" by (auto simp: fun_eq_iff)
      with True show ?thesis
        by (simp add: M' group_map_def json_map_okD [OF J wf_json_obj [OF r]])
    next
      case False
      then show ?thesis by (simp add: M' group_map_def json_map_okD [OF J wf_json_obj [OF d]])
    qed
    show ?thesis
      using wf' gm gm' nil removed Some field root
      by (auto simp: M' json_map_okD [OF J wf_json_obj [OF r]] split: if_splits)
  qed
  then show "wf_json (mf_value M')" and "mf_path M' = mf_path M"
    and "k \<noteq> group_name g \<Longrightarrow> json_get (mf_value M') k = json_get (mf_value M) k"
    and "group_map (mf_value M') g = (group_map (mf_value M) g)(nm := None)"
    and "removed \<longleftrightarrow> nm \<in> dom (group_map (mf_value M) g)"
    and "json_get (mf_value M') (group_name g) = None \<longleftrightarrow> dom (group_map (mf_value M) g) \<subseteq> {nm}" by auto
qed

section \<open>Properties\<close>

text \<open>\<^verbatim>\<open>add_dependency\<close> records the version under the name and group given, and changes no
  other entry of any group and no other attribute of the manifest.\<close>

theorem add_dependency_spec:
  assumes "json_map_ok J" and "wf_json (mf_value M)"
    and "manifest_add_dependency J M nm ver g = Inr M'"
  shows "wf_json (mf_value M') \<and> mf_path M' = mf_path M
    \<and> (\<forall>n h. manifest_dependency_version M' n h
              = (if n = nm \<and> h = g then Some ver else manifest_dependency_version M n h))
    \<and> (\<forall>k. k \<noteq> group_name g \<longrightarrow> json_get (mf_value M') k = json_get (mf_value M) k)"
proof -
  note a = add_dependency_value [OF assms]
  have "group_map (mf_value M') h = (if h = g then (group_map (mf_value M) g)(nm \<mapsto> JStr ver)
      else group_map (mf_value M) h)" for h
    using a(4) group_map_frame [of g "mf_value M'" "mf_value M" h] a(3) by simp
  with a(1-3) show ?thesis by (simp add: dependency_version_group_map)
qed

definition example_manifest :: package_manifest where
  "example_manifest =
     \<lparr> mf_path = [Normal ''package.json''],
       mf_value = JObj [(''name'', JStr ''demo''),
                        (''dependencies'', JObj [(''a'', JStr ''1.0.0'')])] \<rparr>"

lemma wf_example_manifest: "wf_json (mf_value example_manifest)"
  by (simp add: example_manifest_def wf_map_def)

theorem add_dependency_spec_witness:
  "\<exists>M'. manifest_add_dependency (json3 JNull) example_manifest ''b'' ''^2.0.0'' Prod = Inr M'
     \<and> manifest_dependency_version M' ''b'' Prod = Some ''^2.0.0''
     \<and> manifest_dependency_version M' ''a'' Prod = manifest_dependency_version example_manifest ''a'' Prod"
proof -
  obtain M' where "manifest_add_dependency (json3 JNull) example_manifest ''b'' ''^2.0.0'' Prod = Inr M'"
    by (simp add: manifest_add_dependency_def example_manifest_def Let_def)
  with add_dependency_spec [OF json_map_ok_json3 wf_example_manifest this] show ?thesis by simp
qed

text \<open>\<^verbatim>\<open>remove_dependency\<close> deletes the name from the group given and from no other, says
  whether it was there, and drops the attribute of the group exactly when no entry is left.\<close>

theorem remove_dependency_spec:
  assumes "json_map_ok J" and "wf_json (mf_value M)"
    and "manifest_remove_dependency J M nm g = Inr (M', removed)"
  shows "wf_json (mf_value M') \<and> mf_path M' = mf_path M
    \<and> (\<forall>n h. group_map (mf_value M') h n
              = (if n = nm \<and> h = g then None else group_map (mf_value M) h n))
    \<and> (\<forall>k. k \<noteq> group_name g \<longrightarrow> json_get (mf_value M') k = json_get (mf_value M) k)
    \<and> removed = (nm \<in> dom (group_map (mf_value M) g))
    \<and> (json_get (mf_value M') (group_name g) = None) = (dom (group_map (mf_value M) g) \<subseteq> {nm})"
proof -
  note r = remove_dependency_value [OF assms]
  have "group_map (mf_value M') h = (if h = g then (group_map (mf_value M) g)(nm := None)
      else group_map (mf_value M) h)" for h
    using r(4) group_map_frame [of g "mf_value M'" "mf_value M" h] r(3) by simp
  with r show ?thesis by simp
qed

theorem remove_dependency_spec_witness:
  "\<exists>M'. manifest_remove_dependency (json3 JNull) example_manifest ''a'' Prod = Inr (M', True)
     \<and> json_get (mf_value M') ''dependencies'' = None
     \<and> json_get (mf_value M') ''name'' = json_get (mf_value example_manifest) ''name''"
proof -
  obtain M' where rm: "manifest_remove_dependency (json3 JNull) example_manifest ''a'' Prod = Inr (M', True)"
    by (simp add: manifest_remove_dependency_def example_manifest_def Let_def)
  have "dom (group_map (mf_value example_manifest) Prod) \<subseteq> {''a''}"
    by (auto simp: group_map_def example_manifest_def split: if_splits)
  with rm remove_dependency_spec [OF json_map_ok_json3 wf_example_manifest rm] show ?thesis
    by (intro exI [of _ M']) simp
qed

text \<open>The failures of the two edits: a group attribute that is no object is an error of
  both; on a root that is no object \<^verbatim>\<open>remove_dependency\<close> returns an error, where
  \<^verbatim>\<open>add_dependency\<close> panics, unless the root is null, which becomes an object.\<close>

theorem dependency_edit_failures:
  "(\<exists>e. manifest_add_dependency J M nm ver g = Inl (Err e))
     = (\<exists>x. json_get (mf_value M) (group_name g) = Some x \<and> as_object x = None)
   \<and> (\<exists>msg. manifest_add_dependency J M nm ver g = Inl (Panic msg))
     = (mf_value M \<noteq> JNull \<and> as_object (mf_value M) = None)
   \<and> (\<exists>e. manifest_remove_dependency J M nm g = Inl e)
     = (as_object (mf_value M) = None
        \<or> (\<exists>x. json_get (mf_value M) (group_name g) = Some x \<and> as_object x = None))"
proof (cases "mf_value M")
  case (JObj m)
  then show ?thesis
    by (cases "map_of m (group_name g)")
      (auto simp: manifest_add_dependency_def manifest_remove_dependency_def Let_def
        json_index_assign_def result_simps split: option.splits)
qed (auto simp: manifest_add_dependency_def manifest_remove_dependency_def Let_def
       json_index_assign_def as_object_def)

text \<open>Adding a new dependency and removing it again succeeds and restores every group of
  the manifest and every other attribute.\<close>

theorem add_then_remove:
  assumes J: "json_map_ok J" and wf: "wf_json (mf_value M)"
    and add: "manifest_add_dependency J M nm ver g = Inr M'"
    and new: "nm \<notin> dom (group_map (mf_value M) g)"
  shows "\<exists>M''. manifest_remove_dependency J M' nm g = Inr (M'', True)
    \<and> (\<forall>h. group_map (mf_value M'') h = group_map (mf_value M) h)
    \<and> (\<forall>k. k \<noteq> group_name g \<longrightarrow> json_get (mf_value M'') k = json_get (mf_value M) k)"
proof -
  note a = add_dependency_value [OF J wf add]
  have nm: "nm \<in> dom (group_map (mf_value M') g)" using a(4) by simp
  then obtain root d where "mf_value M' = JObj root" "map_of root (group_name g) = Some (JObj d)"
    by (cases "mf_value M'") (auto simp: group_map_def split: option.splits json.splits)
  then obtain M'' removed where rm: "manifest_remove_dependency J M' nm g = Inr (M'', removed)"
    by (simp add: manifest_remove_dependency_def Let_def)
  note r = remove_dependency_value [OF J a(1) rm]
  have g: "group_map (mf_value M'') g = group_map (mf_value M) g"
    using a(4) r(4) new by (auto simp: fun_eq_iff dom_def)
  have k: "json_get (mf_value M'') k = json_get (mf_value M) k" if "k \<noteq> group_name g" for k
    using that a(3) r(3) by simp
  have "group_map (mf_value M'') h = group_map (mf_value M) h" for h
    using g group_map_frame [of g "mf_value M''" "mf_value M" h] k by (cases "h = g") auto
  moreover have removed using r(5) nm by simp
  ultimately show ?thesis using rm k by (intro exI [of _ M'']) simp
qed

theorem add_then_remove_witness:
  "\<exists>M' M''. manifest_add_dependency (json3 JNull) example_manifest ''b'' ''2.0.0'' Dev = Inr M'
     \<and> manifest_remove_dependency (json3 JNull) M' ''b'' Dev = Inr (M'', True)
     \<and> group_map (mf_value M'') Dev = group_map (mf_value example_manifest) Dev"
proof -
  obtain M' where add: "manifest_add_dependency (json3 JNull) example_manifest ''b'' ''2.0.0'' Dev = Inr M'"
    by (simp add: manifest_add_dependency_def example_manifest_def json_index_assign_def Let_def)
  have "''b'' \<notin> dom (group_map (mf_value example_manifest) Dev)"
    by (simp add: group_map_def example_manifest_def)
  with add_then_remove [OF json_map_ok_json3 wf_example_manifest add] add show ?thesis by blast
qed

text \<open>\<^verbatim>\<open>dependency_entries\<close> lists exactly the entries of the chosen groups that have a
  version, and \<^verbatim>\<open>dependencies\<close> is the same list without the groups.\<close>

theorem dependency_entries_spec:
  assumes "wf_json (mf_value M)"
  shows "((g, nm, ver) \<in> set (manifest_dependency_entries M groups)
      \<longleftrightarrow> g \<in> set groups \<and> manifest_dependency_version M nm g = Some ver)
    \<and> manifest_dependencies M groups = map snd (manifest_dependency_entries M groups)"
proof
  show "(g, nm, ver) \<in> set (manifest_dependency_entries M groups)
      \<longleftrightarrow> g \<in> set groups \<and> manifest_dependency_version M nm g = Some ver"
    using group_entries_iff [OF assms, of nm ver g]
    by (auto simp: manifest_dependency_entries_def dependency_version_group_map bind_eq_Some_conv)
  show "manifest_dependencies M groups = map snd (manifest_dependency_entries M groups)"
    by (induction groups) (simp_all add: manifest_dependencies_def manifest_dependency_entries_def comp_def)
qed

theorem dependency_entries_spec_witness:
  "(Prod, ''a'', ''1.0.0'') \<in> set (manifest_dependency_entries example_manifest [Prod, Dev])
   \<and> manifest_dependencies example_manifest [Prod, Dev]
       = map snd (manifest_dependency_entries example_manifest [Prod, Dev])"
  using dependency_entries_spec [OF wf_example_manifest, of Prod "''a''" "''1.0.0''" "[Prod, Dev]"]
  by (simp add: example_manifest_def manifest_dependency_version_def)

text \<open>A manifest that \<^verbatim>\<open>save\<close> wrote is the one \<^verbatim>\<open>from_path\<close> loads, provided the JSON
  library reads back what it printed.\<close>

theorem save_then_load:
  assumes save: "manifest_save J F M = (F', Inr ())"
    and printed: "json_to_string_pretty J (mf_value M) = Inr s"
    and reads: "json_from_str J s = Inr (mf_value M)" and utf8: "valid_utf8 s"
    and nf: "fs_fault F Stat (mf_path M) = None" "fs_fault F ReadFile (mf_path M) = None"
  shows "manifest_from_path J F' (mf_path M) = Inr M"
proof -
  have w: "fs_write F (mf_path M) s = Inr F'"
    using save printed by (auto simp: manifest_save_def fs_write_def Let_def split: sum.splits)
  then have "fs_read F' (mf_path M) = Inr s" by (rule read_after_write) (rule nf)
  moreover have "fs_exists F' (mf_path M)"
    by (rule exists_after_write [OF w nf(1)])
  ultimately show ?thesis
    using reads utf8 by (simp add: manifest_from_path_def manifest_read_from_file_def fs_read_to_string_def)
qed

theorem save_then_load_witness:
  "\<exists>F'. manifest_save (json3 (mf_value example_manifest)) empty_fs example_manifest = (F', Inr ())
     \<and> manifest_from_path (json3 (mf_value example_manifest)) F' [Normal ''package.json'']
         = Inr example_manifest"
proof -
  let ?J = "json3 (mf_value example_manifest)"
  obtain F' where save: "manifest_save ?J empty_fs example_manifest = (F', Inr ())"
    by (simp add: manifest_save_def example_manifest_def fs_open_create_def guarded_def lookup_def
        node_at_def empty_fs_def fs_write_all_def Let_def set_data_def fresh_file_def set_node_def)
  have "valid_utf8 ''{}''" by (simp add: byte_in_def)
  with save_then_load [OF save, of "''{}''"] save show ?thesis
    by (simp add: example_manifest_def empty_fs_def)
qed

end
