(* ===== verification/Lockfile.thy ===== *)
theory Lockfile
  imports Lockfile_Specs Manifest Store_Dir
begin

text \<open>
  The structures of \<^verbatim>\<open>pnpm-lock.yaml\<close> in \<^verbatim>\<open>crates/lockfile\<close>: resolutions, snapshots of packages
  and projects, the lockfile itself, and its loading and saving. The YAML form is
  \<^verbatim>\<open>serde_yaml\<close>'s, a parameter.
\<close>

section \<open>Resolutions\<close>

record tarball_resolution =
  tr_tarball :: string
  tr_integrity :: "integrity option"

record registry_resolution =
  rr_integrity :: integrity

record directory_resolution =
  dr_directory :: string

record git_resolution =
  gr_repo :: string
  gr_commit :: string

datatype lockfile_resolution =
    Tarball tarball_resolution
  | Registry registry_resolution
  | Directory directory_resolution
  | Git git_resolution

definition resolution_integrity :: "lockfile_resolution \<Rightarrow> integrity option" where
  "resolution_integrity res =
     (case res of
        Tarball r \<Rightarrow> tr_integrity r
      | Registry r \<Rightarrow> Some (rr_integrity r)
      | Directory _ \<Rightarrow> None
      | Git _ \<Rightarrow> None)"

text \<open>The intermediate types that fix the serialized form, and the conversions.\<close>

datatype tagged_resolution = TaggedDirectory directory_resolution | TaggedGit git_resolution

datatype resolution_serde =
    SerdeTarball tarball_resolution
  | SerdeRegistry registry_resolution
  | SerdeTagged tagged_resolution

fun resolution_from_serde :: "resolution_serde \<Rightarrow> lockfile_resolution" where
  "resolution_from_serde (SerdeTarball r) = Tarball r"
| "resolution_from_serde (SerdeRegistry r) = Registry r"
| "resolution_from_serde (SerdeTagged (TaggedDirectory r)) = Directory r"
| "resolution_from_serde (SerdeTagged (TaggedGit r)) = Git r"

fun resolution_into_serde :: "lockfile_resolution \<Rightarrow> resolution_serde" where
  "resolution_into_serde (Tarball r) = SerdeTarball r"
| "resolution_into_serde (Registry r) = SerdeRegistry r"
| "resolution_into_serde (Directory r) = SerdeTagged (TaggedDirectory r)"
| "resolution_into_serde (Git r) = SerdeTagged (TaggedGit r)"

lemma resolution_serde_inverse:
  "resolution_from_serde (resolution_into_serde r) = r"
  "resolution_into_serde (resolution_from_serde s) = s"
proof -
  show "resolution_from_serde (resolution_into_serde r) = r" by (cases r) simp_all
  show "resolution_into_serde (resolution_from_serde s) = s"
    by (cases s rule: resolution_from_serde.cases) simp_all
qed

section \<open>Snapshots\<close>

record 'v resolved_dependency_spec =
  rd_specifier :: string
  rd_version :: "'v pkg_ver_peer"

type_synonym 'v resolved_dependency_map = "(pkg_name \<times> 'v resolved_dependency_spec) list"

record 'v project_snapshot =
  ps_specifiers :: "(string \<times> string) list option"
  ps_dependencies :: "'v resolved_dependency_map option"
  ps_optional_dependencies :: "'v resolved_dependency_map option"
  ps_dev_dependencies :: "'v resolved_dependency_map option"
  ps_dependencies_meta :: "json option"
  ps_publish_directory :: "string option"

definition get_map_by_group ::
    "'v project_snapshot \<Rightarrow> dependency_group \<Rightarrow> 'v resolved_dependency_map option" where
  "get_map_by_group p g =
     (case g of
        Prod \<Rightarrow> ps_dependencies p
      | Optional \<Rightarrow> ps_optional_dependencies p
      | Dev \<Rightarrow> ps_dev_dependencies p
      | Peer \<Rightarrow> None)"

definition dependencies_by_groups ::
    "'v project_snapshot \<Rightarrow> dependency_group list \<Rightarrow> (pkg_name \<times> 'v resolved_dependency_spec) list" where
  "dependencies_by_groups p groups =
     concat (List.map_filter (get_map_by_group p) groups)"

lemma in_dependencies_by_groups:
  "x \<in> set (dependencies_by_groups p groups) \<longleftrightarrow>
     (\<exists>g \<in> set groups. \<exists>m. get_map_by_group p g = Some m \<and> x \<in> set m)"
  unfolding dependencies_by_groups_def set_concat UN_iff Bex_def set_map_filter_iff by blast

record 'v multi_project_snapshot =
  mp_importers :: "(string \<times> 'v project_snapshot) list"

datatype 'v root_project_snapshot =
    Multi "'v multi_project_snapshot"
  | Single "'v project_snapshot"

record peer_dependency_meta =
  pdm_optional :: bool

record 'v package_snapshot =
  sn_resolution :: lockfile_resolution
  sn_id :: "string option"
  sn_name :: "string option"
  sn_version :: "string option"
  sn_engines :: "(string \<times> string) list option"
  sn_cpu :: "string list option"
  sn_os :: "string list option"
  sn_libc :: "string list option"
  sn_deprecated :: "string option"
  sn_has_bin :: "bool option"
  sn_prepare :: "bool option"
  sn_requires_build :: "bool option"
  sn_bundled_dependencies :: "string list option"
  sn_peer_dependencies :: "(string \<times> string) list option"
  sn_peer_dependencies_meta :: "(string \<times> peer_dependency_meta) list option"
  sn_dependencies :: "(pkg_name \<times> 'v package_snapshot_dependency) list option"
  sn_optional_dependencies :: "(string \<times> string) list option"
  sn_transitive_peer_dependencies :: "string list option"
  sn_dev :: "bool option"
  sn_optional :: "bool option"

section \<open>The lockfile\<close>

record lockfile_settings =
  ls_auto_install_peers :: bool
  ls_exclude_links_from_lockfile :: bool

type_synonym 'v packages = "('v dependency_path \<times> 'v package_snapshot) list"

record 'v lockfile =
  lf_lockfile_version :: comver
  lf_settings :: "lockfile_settings option"
  lf_never_built_dependencies :: "string list option"
  lf_overrides :: "(string \<times> string) list option"
  lf_project_snapshot :: "'v root_project_snapshot"
  lf_packages :: "'v packages option"

definition lockfile_file_name :: string where
  "lockfile_file_name = ''pnpm-lock.yaml''"

lemma path_of_lockfile_name [simp]: "path_of_string lockfile_file_name = [Normal lockfile_file_name]"
  by (rule path_of_file_name) (simp add: file_name_ok_def lockfile_file_name_def)

text \<open>\<^verbatim>\<open>serde_yaml\<close> on the derived form of the lockfile; an empty document is \<open>None\<close>.\<close>

record 'v yaml_lib =
  yaml_to_string :: "'v lockfile \<Rightarrow> string + string"
  yaml_from_str :: "string \<Rightarrow> string + 'v lockfile option"

datatype load_lockfile_error =
    LoadCurrentDir io_kind
  | LoadReadFile io_kind
  | ParseYaml string

datatype save_lockfile_error =
    SaveCurrentDir io_kind
  | SerializeYaml string
  | SaveWriteFile path io_kind

definition load_from_dir ::
    "'v yaml_lib \<Rightarrow> fs \<Rightarrow> path \<Rightarrow> load_lockfile_error + 'v lockfile option" where
  "load_from_dir Y F dir =
     (let file_path = join_str dir lockfile_file_name
      in case fs_read_to_string F file_path of
           Inl e \<Rightarrow> if e = NotFound then Inr None else Inl (LoadReadFile e)
         | Inr content \<Rightarrow> map_err ParseYaml (yaml_from_str Y content))"

text \<open>\<^verbatim>\<open>env::current_dir\<close>.\<close>

definition current_dir :: "fs \<Rightarrow> io_kind + path" where
  "current_dir F = guarded F Stat [CurDir] (Inr (abs_path (fs_cwd F)))"

definition load_from_current_dir :: "'v yaml_lib \<Rightarrow> fs \<Rightarrow> load_lockfile_error + 'v lockfile option" where
  "load_from_current_dir Y F = rbind (map_err LoadCurrentDir (current_dir F)) (load_from_dir Y F)"

definition save_to_dir ::
    "'v yaml_lib \<Rightarrow> 'v lockfile \<Rightarrow> path \<Rightarrow> (fs, save_lockfile_error, path) action" where
  "save_to_dir Y lf dir =
     (let p = join_str dir lockfile_file_name
      in act_bind (act_read (\<lambda>_. map_err SerializeYaml (yaml_to_string Y lf))) (\<lambda>contents.
         act_then (act_map_err (SaveWriteFile p) (act_call (\<lambda>F. fs_write F p contents)))
           (act_return p)))"

definition save_to_current_dir :: "'v yaml_lib \<Rightarrow> 'v lockfile \<Rightarrow> (fs, save_lockfile_error, path) action" where
  "save_to_current_dir Y lf =
     act_bind (act_read (\<lambda>F. map_err SaveCurrentDir (current_dir F))) (save_to_dir Y lf)"

section \<open>Properties\<close>

text \<open>C11: A lockfile that \<^verbatim>\<open>save_to_dir\<close> wrote is the one \<^verbatim>\<open>load_from_dir\<close> reads from the same
  directory, provided \<^verbatim>\<open>serde_yaml\<close> reads back what it printed; a directory without the file
  loads as no lockfile and not as an error.\<close>

theorem lockfile_save_then_load:
  assumes "save_to_dir Y lf dir F = (F', Inr p)"
    and "yaml_to_string Y lf = Inr s" and "yaml_from_str Y s = Inr (Some lf)" and "valid_utf8 s"
    and "fs_fault F ReadFile (join_str dir lockfile_file_name) = None"
  shows "p = join_str dir lockfile_file_name \<and> load_from_dir Y F' dir = Inr (Some lf)
    \<and> (fs_read G (join_str d lockfile_file_name) = Inl NotFound \<longrightarrow> load_from_dir Y G d = Inr None)"
proof -
  from assms(1,2) have p: "p = join_str dir lockfile_file_name"
    and w: "fs_write F (join_str dir lockfile_file_name) s = Inr F'"
    by (auto simp: save_to_dir_def Let_def result_simps)
  from read_after_write [OF w assms(5)] p assms(3,4) show ?thesis
    by (simp add: load_from_dir_def fs_read_to_string_def Let_def)
qed

definition empty_project :: "'v project_snapshot" where
  "empty_project =
     \<lparr> ps_specifiers = None, ps_dependencies = None, ps_optional_dependencies = None,
       ps_dev_dependencies = None, ps_dependencies_meta = None, ps_publish_directory = None \<rparr>"

definition empty_lockfile :: "'v lockfile" where
  "empty_lockfile =
     \<lparr> lf_lockfile_version = \<lparr> cv_major = 6, cv_minor = 0 \<rparr>, lf_settings = None,
       lf_never_built_dependencies = None, lf_overrides = None,
       lf_project_snapshot = Single empty_project, lf_packages = None \<rparr>"

definition yaml3 :: "'v lockfile \<Rightarrow> 'v yaml_lib" where
  "yaml3 lf = \<lparr> yaml_to_string = (\<lambda>_. Inr ''yaml''),
                yaml_from_str = (\<lambda>s. if s = ''yaml'' then Inr (Some lf) else Inl ''parse'') \<rparr>"

theorem lockfile_save_then_load_witness:
  "\<exists>F' p. save_to_dir (yaml3 empty_lockfile) (empty_lockfile :: ver3 lockfile) (abs_path []) empty_fs = (F', Inr p)
     \<and> load_from_dir (yaml3 empty_lockfile) F' (abs_path []) = Inr (Some (empty_lockfile :: ver3 lockfile))"
proof -
  let ?Y = "yaml3 empty_lockfile :: ver3 yaml_lib"
  obtain F' p where run: "save_to_dir ?Y empty_lockfile (abs_path []) empty_fs = (F', Inr p)"
    by (simp add: save_to_dir_def Let_def act_simps yaml3_def fs_write_def fs_open_create_def
        lookup_child_None [OF tree_ok_empty, of "[]", simplified] fs_write_all_def guarded_def)
  have "valid_utf8 ''yaml''" by (simp add: byte_in_def)
  with lockfile_save_then_load [OF run, of "''yaml''"] run show ?thesis
    by (simp add: yaml3_def)
qed

end
