(* ===== verification/Selection.thy ===== *)
theory Selection
  imports Lockfile
begin

text \<open>
  The selection of packages in \<^verbatim>\<open>crates/package-manager/src/fetch.rs\<close>: the index over the
  packages of a lockfile, the resolution of references, and the worklist that collects what the
  chosen dependency groups need. The order of a \<^verbatim>\<open>HashMap\<close> is that of its association list.
\<close>

section \<open>Errors\<close>

text \<open>
  The parse errors are kept as values, where the code keeps their display. The remaining variant,
  the failure of an installation, is added where \<^verbatim>\<open>Fetch::run\<close> is modelled.
\<close>

datatype optional_parse_error =
    OptionalVersion parse_pkg_ver_peer_error
  | OptionalName parse_pkg_name_error

datatype fetch_error =
    MissingPackageSnapshots
  | ResolvePackage string
  | MissingSnapshot string
  | ParseOptionalDependency string string optional_parse_error
  | UnsupportedResolution string

section \<open>The index\<close>

record 'v lockfile_package_index =
  by_specifier :: "('v pkg_name_ver_peer \<times> 'v dependency_path list) list"
  by_dependency_path :: "(string \<times> 'v dependency_path) list"

text \<open>\<^verbatim>\<open>map.entry(k).or_default().push(v)\<close>.\<close>

definition push_entry :: "'k \<Rightarrow> 'a \<Rightarrow> ('k \<times> 'a list) list \<Rightarrow> ('k \<times> 'a list) list" where
  "push_entry k v m = AList.update k ((case map_of m k of None \<Rightarrow> [] | Some l \<Rightarrow> l) @ [v]) m"

definition index_step ::
    "('v, 'r) extern \<Rightarrow> 'v dependency_path \<Rightarrow> 'v lockfile_package_index \<Rightarrow> 'v lockfile_package_index" where
  "index_step X d ix =
     \<lparr> by_specifier = push_entry (dp_package_specifier d) d (by_specifier ix),
       by_dependency_path = AList.update (dependency_path_to_string X d) d (by_dependency_path ix) \<rparr>"

definition index_new :: "('v, 'r) extern \<Rightarrow> 'v packages \<Rightarrow> 'v lockfile_package_index" where
  "index_new X packages =
     fold (index_step X) (map fst packages) \<lparr> by_specifier = [], by_dependency_path = [] \<rparr>"

definition resolve_by_specifier ::
    "'v lockfile_package_index \<Rightarrow> string option \<Rightarrow> 'v pkg_name_ver_peer \<Rightarrow> 'v dependency_path option" where
  "resolve_by_specifier ix custom_registry spec =
     (case map_of (by_specifier ix) spec of
        None \<Rightarrow> None
      | Some candidates \<Rightarrow>
          (case find (\<lambda>c. dp_custom_registry c = custom_registry) candidates of
             Some c \<Rightarrow> Some c
           | None \<Rightarrow> (case candidates of [] \<Rightarrow> None | c # _ \<Rightarrow> Some c)))"

definition resolve_root_dependency ::
    "'v lockfile_package_index \<Rightarrow> pkg_name \<Rightarrow> 'v pkg_ver_peer \<Rightarrow> 'v dependency_path option" where
  "resolve_root_dependency ix nm version =
     resolve_by_specifier ix None \<lparr> ns_name = nm, ns_suffix = version \<rparr>"

definition resolve_snapshot_dependency ::
    "'v lockfile_package_index \<Rightarrow> 'v dependency_path \<Rightarrow> pkg_name \<Rightarrow> 'v package_snapshot_dependency
     \<Rightarrow> 'v dependency_path option" where
  "resolve_snapshot_dependency ix parent nm dependency =
     (case dependency of
        PkgVerPeer version \<Rightarrow>
          resolve_by_specifier ix (dp_custom_registry parent) \<lparr> ns_name = nm, ns_suffix = version \<rparr>
      | DependencyPath p \<Rightarrow> Some p)"

definition resolve_optional_dependency ::
    "('v, 'r) extern \<Rightarrow> 'v lockfile_package_index \<Rightarrow> 'v dependency_path \<Rightarrow> string \<Rightarrow> string
     \<Rightarrow> fetch_error + 'v dependency_path option" where
  "resolve_optional_dependency X ix parent nm reference =
     (if is_ok (dependency_path_from_str X reference) then
        Inr (map_of (by_dependency_path ix) reference)
      else
        rbind (map_err (\<lambda>e. ParseOptionalDependency nm reference (OptionalVersion e))
                 (pkg_ver_peer_from_str X reference)) (\<lambda>version.
        rbind (map_err (\<lambda>e. ParseOptionalDependency nm reference (OptionalName e))
                 (pkg_name_parse X nm)) (\<lambda>package_name.
        Inr (resolve_by_specifier ix (dp_custom_registry parent)
               \<lparr> ns_name = package_name, ns_suffix = version \<rparr>))))"

section \<open>The worklist\<close>

definition iter_opt :: "'a list option \<Rightarrow> 'a list" where
  "iter_opt m = (case m of None \<Rightarrow> [] | Some l \<Rightarrow> l)"

text \<open>What one package pushes: its dependencies, then its optional dependencies.\<close>

definition snapshot_children ::
    "('v, 'r) extern \<Rightarrow> 'v lockfile_package_index \<Rightarrow> 'v dependency_path \<Rightarrow> 'v package_snapshot
     \<Rightarrow> fetch_error + 'v dependency_path list" where
  "snapshot_children X ix p snapshot =
     rbind (traverse (\<lambda>(nm, dependency).
              ok_or (ResolvePackage (pkg_name_to_string nm)) (resolve_snapshot_dependency ix p nm dependency))
            (iter_opt (sn_dependencies snapshot))) (\<lambda>children.
     rbind (traverse (\<lambda>(nm, reference).
              rbind (resolve_optional_dependency X ix p nm reference) (\<lambda>child.
              ok_or (ResolvePackage nm) child))
            (iter_opt (sn_optional_dependencies snapshot))) (\<lambda>optional.
     Inr (children @ optional)))"

definition select_package ::
    "('v, 'r) extern \<Rightarrow> 'v dependency_path \<Rightarrow> 'v package_snapshot \<Rightarrow> 'v dependency_path list
     \<Rightarrow> fetch_error + 'v dependency_path list" where
  "select_package X p snapshot selected =
     (case sn_resolution snapshot of
        Directory _ \<Rightarrow> Inr selected
      | Git _ \<Rightarrow> Inl (UnsupportedResolution (dependency_path_to_string X p))
      | Registry _ \<Rightarrow> Inr (selected @ [p])
      | Tarball _ \<Rightarrow> Inr (selected @ [p]))"

text \<open>
  The loop on the stack, popped at its end. Each turn shrinks the stack or marks one more
  package of the lockfile as visited, so it terminates on every lockfile, cyclic ones included.
\<close>

function collect_loop ::
    "('v, 'r) extern \<Rightarrow> 'v lockfile_package_index \<Rightarrow> 'v packages \<Rightarrow> 'v dependency_path list
     \<Rightarrow> 'v dependency_path list \<Rightarrow> 'v dependency_path list
     \<Rightarrow> fetch_error + 'v dependency_path list" where
  "collect_loop X ix packages stack visited selected =
     (if stack = [] then Inr selected
      else let p = last stack; stack = butlast stack
        in if p \<in> set visited then collect_loop X ix packages stack visited selected
           else case map_of packages p of
             None \<Rightarrow> Inl (MissingSnapshot (dependency_path_to_string X p))
           | Some snapshot \<Rightarrow>
               rbind (select_package X p snapshot selected) (\<lambda>selected.
               rbind (snapshot_children X ix p snapshot) (\<lambda>children.
               collect_loop X ix packages (stack @ children) (p # visited) selected)))"
  by pat_completeness auto

definition unvisited :: "('k \<times> 'v) list \<Rightarrow> 'k list \<Rightarrow> 'k set" where
  "unvisited packages visited = fst ` set packages - set visited"

lemma unvisited_visit:
  "map_of packages p = Some s \<Longrightarrow> p \<notin> set visited \<Longrightarrow>
     card (unvisited packages (p # visited)) < card (unvisited packages visited)"
proof -
  assume "map_of packages p = Some s" and new: "p \<notin> set visited"
  then have "p \<in> fst ` set packages" by (metis fst_conv imageI map_of_SomeD)
  with new have "unvisited packages (p # visited) \<subset> unvisited packages visited"
    by (auto simp: unvisited_def)
  then show ?thesis by (intro psubset_card_mono) (simp_all add: unvisited_def)
qed

termination collect_loop
  by (relation "measures [\<lambda>(X, ix, packages, stack, visited, selected). card (unvisited packages visited),
                          \<lambda>(X, ix, packages, stack, visited, selected). length stack]")
    (auto simp: unvisited_visit)

declare collect_loop.simps [simp del]

definition root_dependency_paths ::
    "'v project_snapshot \<Rightarrow> 'v lockfile_package_index \<Rightarrow> dependency_group list
     \<Rightarrow> fetch_error + 'v dependency_path list" where
  "root_dependency_paths project ix groups =
     traverse (\<lambda>(nm, dependency).
        ok_or (ResolvePackage (pkg_name_to_string nm))
          (resolve_root_dependency ix nm (rd_version dependency)))
       (dependencies_by_groups project groups)"

definition root_stack ::
    "'v root_project_snapshot \<Rightarrow> 'v lockfile_package_index \<Rightarrow> dependency_group list
     \<Rightarrow> fetch_error + 'v dependency_path list" where
  "root_stack project_snapshot ix groups =
     (case project_snapshot of
        Single project \<Rightarrow> root_dependency_paths project ix groups
      | Multi projects \<Rightarrow>
          map_ok concat (traverse (\<lambda>(_, project). root_dependency_paths project ix groups)
                           (mp_importers projects)))"

definition collect_selected_packages ::
    "('v, 'r) extern \<Rightarrow> 'v root_project_snapshot \<Rightarrow> 'v packages \<Rightarrow> 'v lockfile_package_index
     \<Rightarrow> dependency_group list \<Rightarrow> fetch_error + 'v dependency_path list" where
  "collect_selected_packages X project_snapshot packages ix groups =
     rbind (root_stack project_snapshot ix groups) (\<lambda>stack.
     collect_loop X ix packages stack [] [])"

section \<open>The index is a faithful view of the packages\<close>

lemma map_of_push_entry:
  "map_of (push_entry k v m) = (map_of m)(k \<mapsto> (case map_of m k of None \<Rightarrow> [] | Some l \<Rightarrow> l) @ [v])"
  by (simp add: push_entry_def)

lemma by_specifier_step [simp]:
  "by_specifier (index_step X d ix) = push_entry (dp_package_specifier d) d (by_specifier ix)"
  by (simp add: index_step_def)

lemma index_fold:
  "map_of (by_specifier (fold (index_step X) ds ix)) spec =
     (let new = filter (\<lambda>d. dp_package_specifier d = spec) ds
      in case map_of (by_specifier ix) spec of
           None \<Rightarrow> if new = [] then None else Some new
         | Some l \<Rightarrow> Some (l @ new))"
proof (induction ds arbitrary: ix)
  case Nil
  then show ?case by (simp split: option.split)
next
  case (Cons d ds)
  show ?case
    by (simp add: Cons.IH map_of_push_entry Let_def split: option.split)
qed

lemma index_candidates:
  "map_of (by_specifier (index_new X packages)) spec =
     (let ds = filter (\<lambda>d. dp_package_specifier d = spec) (map fst packages)
      in if ds = [] then None else Some ds)"
  by (simp add: index_new_def index_fold)

lemma resolve_by_specifier_Some:
  assumes "resolve_by_specifier (index_new X packages) reg spec = Some d"
  shows "d \<in> fst ` set packages \<and> dp_package_specifier d = spec
    \<and> (dp_custom_registry d = reg
       \<or> (\<forall>d' \<in> fst ` set packages. dp_package_specifier d' = spec \<longrightarrow> dp_custom_registry d' \<noteq> reg))"
proof -
  let ?ds = "filter (\<lambda>d. dp_package_specifier d = spec) (map fst packages)"
  have in_ds: "x \<in> set ?ds \<longleftrightarrow> x \<in> fst ` set packages \<and> dp_package_specifier x = spec" for x by auto
  have ds: "?ds \<noteq> []"
    and r: "(case find (\<lambda>c. dp_custom_registry c = reg) ?ds of Some c \<Rightarrow> Some c
         | None \<Rightarrow> (case ?ds of [] \<Rightarrow> None | c # _ \<Rightarrow> Some c)) = Some d"
    using assms by (auto simp: resolve_by_specifier_def index_candidates Let_def split: if_splits)
  show ?thesis
  proof (cases "find (\<lambda>c. dp_custom_registry c = reg) ?ds")
    case None
    with ds r have "d \<in> set ?ds" by (cases ?ds) auto
    moreover have "dp_custom_registry x \<noteq> reg" if "x \<in> set ?ds" for x
      using None that unfolding find_None_iff by blast
    ultimately show ?thesis unfolding in_ds by blast
  next
    case (Some c)
    with r have "d \<in> set ?ds" and "dp_custom_registry d = reg"
      using find_Some_iff [of "\<lambda>c. dp_custom_registry c = reg" ?ds c] by (auto simp: set_conv_nth)
    then show ?thesis unfolding in_ds by blast
  qed
qed

lemma resolve_by_specifier_None:
  "resolve_by_specifier (index_new X packages) reg spec = None \<longleftrightarrow>
     (\<forall>d \<in> fst ` set packages. dp_package_specifier d \<noteq> spec)"
proof -
  let ?ds = "filter (\<lambda>d. dp_package_specifier d = spec) (map fst packages)"
  have "resolve_by_specifier (index_new X packages) reg spec = None \<longleftrightarrow> ?ds = []"
    by (cases ?ds) (auto simp: resolve_by_specifier_def index_candidates split: option.split)
  also have "\<dots> \<longleftrightarrow> (\<forall>d \<in> fst ` set packages. dp_package_specifier d \<noteq> spec)"
    by (auto simp: filter_empty_conv)
  finally show ?thesis .
qed

section \<open>The worklist computes reachability\<close>

definition children_of ::
    "('v, 'r) extern \<Rightarrow> 'v lockfile_package_index \<Rightarrow> 'v packages \<Rightarrow> 'v dependency_path
     \<Rightarrow> 'v dependency_path list" where
  "children_of X ix packages p =
     (case map_of packages p of
        None \<Rightarrow> []
      | Some s \<Rightarrow> (case snapshot_children X ix p s of Inl _ \<Rightarrow> [] | Inr cs \<Rightarrow> cs))"

inductive reachable ::
    "('v, 'r) extern \<Rightarrow> 'v lockfile_package_index \<Rightarrow> 'v packages \<Rightarrow> 'v dependency_path list
     \<Rightarrow> 'v dependency_path \<Rightarrow> bool"
  for X ix packages roots where
  root: "p \<in> set roots \<Longrightarrow> reachable X ix packages roots p"
| step: "reachable X ix packages roots p \<Longrightarrow> c \<in> set (children_of X ix packages p)
     \<Longrightarrow> reachable X ix packages roots c"

inductive_cases reachableE: "reachable X ix packages roots p"

lemma reachable_from:
  "reachable X ix packages roots q \<Longrightarrow> (\<And>r. r \<in> set roots \<Longrightarrow> reachable X ix packages roots' r)
     \<Longrightarrow> reachable X ix packages roots' q"
  by (induction rule: reachable.induct) (auto intro: reachable.step)

lemma reachable_mono:
  "reachable X ix packages roots q \<Longrightarrow> set roots \<subseteq> set roots' \<Longrightarrow> reachable X ix packages roots' q"
  by (erule reachable_from) (auto intro: reachable.root)

text \<open>A package whose visit raises no error, and one that the store has to hold.\<close>

definition selectable ::
    "('v, 'r) extern \<Rightarrow> 'v lockfile_package_index \<Rightarrow> 'v packages \<Rightarrow> 'v dependency_path \<Rightarrow> bool" where
  "selectable X ix packages p =
     (case map_of packages p of
        None \<Rightarrow> False
      | Some s \<Rightarrow> (case sn_resolution s of Git _ \<Rightarrow> False | _ \<Rightarrow> True)
          \<and> is_ok (snapshot_children X ix p s))"

definition stored :: "'v packages \<Rightarrow> 'v dependency_path \<Rightarrow> bool" where
  "stored packages p =
     (case map_of packages p of
        None \<Rightarrow> False
      | Some s \<Rightarrow> (case sn_resolution s of Registry _ \<Rightarrow> True | Tarball _ \<Rightarrow> True | _ \<Rightarrow> False))"

lemma collect_loop_Nil [simp]: "collect_loop X ix packages [] visited selected = Inr selected"
  by (simp add: collect_loop.simps)

lemma collect_loop_snoc:
  "collect_loop X ix packages (stack @ [p]) visited selected =
     (if p \<in> set visited then collect_loop X ix packages stack visited selected
      else case map_of packages p of
        None \<Rightarrow> Inl (MissingSnapshot (dependency_path_to_string X p))
      | Some snapshot \<Rightarrow>
          rbind (select_package X p snapshot selected) (\<lambda>selected.
          rbind (snapshot_children X ix p snapshot) (\<lambda>children.
          collect_loop X ix packages (stack @ children) (p # visited) selected)))"
  by (subst collect_loop.simps) (simp add: Let_def)

text \<open>A round of the worklist on a package that was not visited: on to its children, or a failure.\<close>

lemma selectable_parts:
  assumes "selectable X ix packages p"
  obtains s cs where "map_of packages p = Some s" and "snapshot_children X ix p s = Inr cs"
    and "children_of X ix packages p = cs"
    and "\<And>selected. select_package X p s selected = Inr (if stored packages p then selected @ [p] else selected)"
proof -
  from assms obtain s cs where s: "map_of packages p = Some s" and cs: "snapshot_children X ix p s = Inr cs"
    and g: "\<And>g. sn_resolution s \<noteq> Git g"
    by (auto simp: selectable_def result_simps split: option.splits lockfile_resolution.splits)
  moreover have "select_package X p s selected = Inr (if stored packages p then selected @ [p] else selected)" for selected
    using g s by (auto simp: select_package_def stored_def split: lockfile_resolution.split)
  moreover have "children_of X ix packages p = cs" by (simp add: children_of_def s cs)
  ultimately show thesis using that by blast
qed

lemma collect_loop_stuck:
  assumes new: "p \<notin> set visited" and "\<not> selectable X ix packages p"
  shows "\<exists>e. collect_loop X ix packages (st @ [p]) visited selected = Inl e"
proof (cases "map_of packages p")
  case None
  then show ?thesis by (simp add: collect_loop_snoc new)
next
  case (Some s)
  with assms(2) show ?thesis
    by (cases "snapshot_children X ix p s")
      (auto simp: collect_loop_snoc new selectable_def select_package_def split: lockfile_resolution.splits)
qed

text \<open>Induction along the run of the worklist.\<close>

lemma collect_loop_induct [case_names empty seen visit stuck]:
  assumes empty: "\<And>visited selected. P [] visited selected"
    and seen: "\<And>stack p visited selected. p \<in> set visited \<Longrightarrow> P stack visited selected
      \<Longrightarrow> P (stack @ [p]) visited selected"
    and visit: "\<And>stack p visited selected selected' children.
      p \<notin> set visited \<Longrightarrow> selectable X ix packages p \<Longrightarrow>
      selected' = (if stored packages p then selected @ [p] else selected) \<Longrightarrow>
      children = children_of X ix packages p \<Longrightarrow>
      collect_loop X ix packages (stack @ [p]) visited selected
        = collect_loop X ix packages (stack @ children) (p # visited) selected' \<Longrightarrow>
      P (stack @ children) (p # visited) selected' \<Longrightarrow> P (stack @ [p]) visited selected"
    and stuck: "\<And>stack p visited selected e. p \<notin> set visited \<Longrightarrow> \<not> selectable X ix packages p \<Longrightarrow>
      collect_loop X ix packages (stack @ [p]) visited selected = Inl e \<Longrightarrow>
      P (stack @ [p]) visited selected"
  shows "P stack visited selected"
proof -
  have "X' = X \<longrightarrow> ix' = ix \<longrightarrow> packages' = packages \<longrightarrow> P stack visited selected" for X' ix' packages'
  proof (induction X' ix' packages' stack visited selected rule: collect_loop.induct)
    case (1 X' ix' packages' stack visited selected)
    have "P stack visited selected" if eqs: "X' = X" "ix' = ix" "packages' = packages"
    proof (cases stack rule: rev_cases)
      case (snoc st p)
      consider "p \<in> set visited" | "p \<notin> set visited" "selectable X ix packages p" | "p \<notin> set visited" "\<not> selectable X ix packages p"
        by blast
      then show ?thesis
      proof cases
        case 1
        have "P st visited selected"
          by (rule "1.IH"(1) [of p st, rule_format]) (use 1 snoc eqs in simp_all)
        then show ?thesis unfolding snoc by (rule seen [OF 1])
      next
        case 2
        from 2(2) obtain s cs where s: "map_of packages p = Some s" "snapshot_children X ix p s = Inr cs"
          and cs: "children_of X ix packages p = cs"
          and sel: "\<And>selected. select_package X p s selected = Inr (if stored packages p then selected @ [p] else selected)"
          by (rule selectable_parts) (rule that)
        let ?sel = "if stored packages p then selected @ [p] else selected"
        have "P (st @ cs) (p # visited) ?sel"
          by (rule "1.IH"(2) [of p st s ?sel cs, rule_format]) (use 2 snoc eqs s sel in simp_all)
        moreover have "collect_loop X ix packages (st @ [p]) visited selected
            = collect_loop X ix packages (st @ cs) (p # visited) ?sel"
          by (simp add: collect_loop_snoc 2 s sel)
        ultimately show ?thesis unfolding snoc by (intro visit [OF 2 refl cs [symmetric]])
      next
        case 3
        from collect_loop_stuck [OF 3] stuck [OF 3] show ?thesis unfolding snoc by blast
      qed
    qed (simp add: empty)
    then show ?case by blast
  qed
  then show ?thesis by blast
qed

text \<open>
  A successful run visits a set \<open>V\<close> that contains the stack, is closed under children, and is
  reachable from the stack; what it selects is the stored part of \<open>V\<close>.
\<close>

lemma collect_loop_run:
  assumes "collect_loop X ix packages stack visited selected = Inr sel"
  shows "\<exists>V. set visited \<subseteq> V \<and> set stack \<subseteq> V
    \<and> (\<forall>p \<in> V - set visited. selectable X ix packages p \<and> set (children_of X ix packages p) \<subseteq> V)
    \<and> (\<forall>p \<in> V - set visited. reachable X ix packages stack p)
    \<and> set sel = set selected \<union> {p \<in> V - set visited. stored packages p}
    \<and> (distinct selected \<longrightarrow> set selected \<subseteq> set visited \<longrightarrow> distinct sel)"
  using assms
proof (induction stack visited selected rule: collect_loop_induct [of _ X ix packages])
  case (empty visited selected)
  then show ?case by (intro exI [of _ "set visited"]) auto
next
  case (seen stack p visited selected)
  then obtain V where V: "set visited \<subseteq> V" "set stack \<subseteq> V"
    "\<forall>p \<in> V - set visited. selectable X ix packages p \<and> set (children_of X ix packages p) \<subseteq> V"
    "\<forall>p \<in> V - set visited. reachable X ix packages stack p"
    "set sel = set selected \<union> {p \<in> V - set visited. stored packages p}"
    "distinct selected \<longrightarrow> set selected \<subseteq> set visited \<longrightarrow> distinct sel"
    by (auto simp: collect_loop_snoc)
  have "reachable X ix packages (stack @ [p]) q" if "q \<in> V - set visited" for q
    using V(4) that by (auto intro: reachable_mono)
  with V seen.hyps show ?case by (intro exI [of _ V]) auto
next
  case (visit stack p visited selected selected' children)
  from visit.IH visit.prems visit.hyps(5) obtain V where V: "set (p # visited) \<subseteq> V" "set (stack @ children) \<subseteq> V"
    "\<forall>q \<in> V - set (p # visited). selectable X ix packages q \<and> set (children_of X ix packages q) \<subseteq> V"
    "\<forall>q \<in> V - set (p # visited). reachable X ix packages (stack @ children) q"
    "set sel = set selected' \<union> {q \<in> V - set (p # visited). stored packages q}"
    "distinct selected' \<longrightarrow> set selected' \<subseteq> set (p # visited) \<longrightarrow> distinct sel"
    by auto
  have p: "reachable X ix packages (stack @ [p]) p" by (rule reachable.root) simp
  then have "reachable X ix packages (stack @ [p]) r" if "r \<in> set (stack @ children)" for r
    using that visit.hyps(4) by (auto intro: reachable.root reachable.step)
  then have "reachable X ix packages (stack @ [p]) q" if "q \<in> V - set visited" for q
    using V(4) that p by (cases "q = p") (auto intro: reachable_from)
  moreover have "distinct selected \<longrightarrow> set selected \<subseteq> set visited \<longrightarrow> distinct sel"
    using V(6) visit.hyps(1,3) by (auto split: if_splits)
  moreover have "set sel = set selected \<union> {q \<in> V - set visited. stored packages q}"
    using V(1,5) visit.hyps(1,3) by (auto split: if_splits)
  moreover have "\<forall>q \<in> V - set visited. selectable X ix packages q \<and> set (children_of X ix packages q) \<subseteq> V"
    using V(2,3) visit.hyps(2,4) by auto
  ultimately show ?case using V(1,2) by (intro exI [of _ V]) auto
next
  case (stuck stack p visited selected e)
  then show ?case by simp
qed

text \<open>A run fails only at a package that is not selectable.\<close>

lemma collect_loop_Inl:
  "collect_loop X ix packages stack visited selected = Inl e \<Longrightarrow>
     \<exists>p. reachable X ix packages stack p \<and> \<not> selectable X ix packages p"
proof (induction stack visited selected rule: collect_loop_induct [of _ X ix packages])
  case (seen stack p visited selected)
  then have "\<exists>q. reachable X ix packages stack q \<and> \<not> selectable X ix packages q"
    by (simp add: collect_loop_snoc)
  then show ?case using reachable_mono [of X ix packages stack _ "stack @ [p]"] by auto
next
  case (visit stack p visited selected selected' children)
  then obtain q where q: "reachable X ix packages (stack @ children) q" "\<not> selectable X ix packages q"
    by auto
  have p: "reachable X ix packages (stack @ [p]) p" by (rule reachable.root) simp
  then have "reachable X ix packages (stack @ [p]) r" if "r \<in> set (stack @ children)" for r
    using that visit.hyps(4) by (auto intro: reachable.root reachable.step)
  with q show ?case by (meson reachable_from)
next
  case (stuck stack p visited selected e)
  then show ?case by (auto intro!: exI [of _ p] reachable.root)
qed simp

text \<open>What a run of the selection returns, and when it succeeds.\<close>

lemma collect_selected_run:
  assumes roots: "root_stack project_snapshot ix groups = Inr roots"
    and run: "collect_selected_packages X project_snapshot packages ix groups = Inr sel"
  shows "(\<forall>p. reachable X ix packages roots p \<longrightarrow> selectable X ix packages p)
    \<and> distinct sel \<and> set sel = {p. reachable X ix packages roots p \<and> stored packages p}"
proof -
  from run roots have "collect_loop X ix packages roots [] [] = Inr sel"
    by (simp add: collect_selected_packages_def)
  from collect_loop_run [OF this] obtain V where V: "set roots \<subseteq> V"
    "\<forall>p \<in> V. selectable X ix packages p \<and> set (children_of X ix packages p) \<subseteq> V"
    "\<forall>p \<in> V. reachable X ix packages roots p"
    "set sel = {p \<in> V. stored packages p}" "distinct sel" by auto
  have "p \<in> V" if "reachable X ix packages roots p" for p
    using that by (induction rule: reachable.induct) (use V in auto)
  with V(3) have "p \<in> V \<longleftrightarrow> reachable X ix packages roots p" for p by blast
  with V show ?thesis by auto
qed

lemma collect_selected_succeeds:
  assumes roots: "root_stack project_snapshot ix groups = Inr roots"
  shows "(\<exists>sel. collect_selected_packages X project_snapshot packages ix groups = Inr sel)
      \<longleftrightarrow> (\<forall>p. reachable X ix packages roots p \<longrightarrow> selectable X ix packages p)"
proof (cases "collect_selected_packages X project_snapshot packages ix groups")
  case (Inl e)
  with roots have "collect_loop X ix packages roots [] [] = Inl e"
    by (simp add: collect_selected_packages_def)
  from collect_loop_Inl [OF this] Inl show ?thesis by auto
next
  case (Inr sel)
  from collect_selected_run [OF roots Inr] Inr show ?thesis by auto
qed

section \<open>Properties\<close>

text \<open>C10: \<^verbatim>\<open>LockfilePackageIndex\<close> finds, for every name and version, a package of the lockfile
  with that name and version, from the registry asked for whenever the lockfile has one there;
  it finds none only when the lockfile has none.\<close>

theorem package_index_lookup:
  "case resolve_by_specifier (index_new X packages) reg spec of
     Some d \<Rightarrow> d \<in> fst ` set packages \<and> dp_package_specifier d = spec
       \<and> (dp_custom_registry d = reg
          \<or> (\<forall>d' \<in> fst ` set packages. dp_package_specifier d' = spec \<longrightarrow> dp_custom_registry d' \<noteq> reg))
   | None \<Rightarrow> \<forall>d \<in> fst ` set packages. dp_package_specifier d \<noteq> spec"
  using resolve_by_specifier_Some [of X packages reg spec] resolve_by_specifier_None [of X packages reg spec]
  by (auto split: option.split)

text \<open>C3: The worklist of \<^verbatim>\<open>collect_selected_packages\<close> terminates on every lockfile and returns
  exactly the packages that the chosen groups reach and that the store has to hold, each once;
  it succeeds exactly when every package reached is in the lockfile, is no git package and has
  references that resolve.\<close>

theorem collect_selected_reachable:
  assumes "root_stack project_snapshot ix groups = Inr roots"
  shows "((\<exists>sel. collect_selected_packages X project_snapshot packages ix groups = Inr sel)
      \<longleftrightarrow> (\<forall>p. reachable X ix packages roots p \<longrightarrow> selectable X ix packages p))
    \<and> (\<forall>sel. collect_selected_packages X project_snapshot packages ix groups = Inr sel \<longrightarrow>
      distinct sel \<and> set sel = {p. reachable X ix packages roots p \<and> stored packages p})"
  using collect_selected_succeeds [OF assms] collect_selected_run [OF assms] by blast

text \<open>An example with a cycle: \<^verbatim>\<open>a\<close> and \<^verbatim>\<open>b\<close> depend on each other, \<^verbatim>\<open>c\<close> is not reached.\<close>

definition example_name :: "string \<Rightarrow> pkg_name" where
  "example_name n = \<lparr> pn_scope = None, pn_bare = n \<rparr>"

definition example_ver :: "'v \<Rightarrow> 'v pkg_ver_peer" where
  "example_ver v = \<lparr> vp_version = v, vp_peer = [] \<rparr>"

definition example_path :: "string \<Rightarrow> ver3 dependency_path" where
  "example_path n =
     \<lparr> dp_custom_registry = None,
       dp_package_specifier = \<lparr> ns_name = example_name n, ns_suffix = example_ver (1, 0, 0) \<rparr> \<rparr>"

definition example_snapshot :: "(pkg_name \<times> ver3 package_snapshot_dependency) list option \<Rightarrow> ver3 package_snapshot" where
  "example_snapshot deps =
     \<lparr> sn_resolution = Registry \<lparr> rr_integrity = [(Sha512, pad64 [])] \<rparr>, sn_id = None, sn_name = None,
       sn_version = None, sn_engines = None, sn_cpu = None, sn_os = None, sn_libc = None,
       sn_deprecated = None, sn_has_bin = None, sn_prepare = None, sn_requires_build = None,
       sn_bundled_dependencies = None, sn_peer_dependencies = None, sn_peer_dependencies_meta = None,
       sn_dependencies = deps, sn_optional_dependencies = None, sn_transitive_peer_dependencies = None,
       sn_dev = None, sn_optional = None \<rparr>"

definition example_packages :: "ver3 packages" where
  "example_packages =
     [(example_path ''a'', example_snapshot (Some [(example_name ''b'', PkgVerPeer (example_ver (1, 0, 0)))])),
      (example_path ''b'', example_snapshot (Some [(example_name ''a'', PkgVerPeer (example_ver (1, 0, 0)))])),
      (example_path ''c'', example_snapshot None)]"

definition example_project :: "ver3 project_snapshot" where
  "example_project =
     \<lparr> ps_specifiers = None,
       ps_dependencies = Some [(example_name ''a'', \<lparr> rd_specifier = ''^1.0.0'', rd_version = example_ver (1, 0, 0) \<rparr>)],
       ps_optional_dependencies = None, ps_dev_dependencies = None, ps_dependencies_meta = None,
       ps_publish_directory = None \<rparr>"

theorem package_index_lookup_witness:
  "resolve_by_specifier (index_new lib3 example_packages) None (dp_package_specifier (example_path ''b''))
     = Some (example_path ''b'')
   \<and> example_path ''b'' \<in> fst ` set example_packages"
proof -
  have "resolve_by_specifier (index_new lib3 example_packages) None (dp_package_specifier (example_path ''b''))
     = Some (example_path ''b'')"
    by code_simp
  with package_index_lookup [where X = lib3 and packages = example_packages and reg = None
      and spec = "dp_package_specifier (example_path ''b'')"]
  show ?thesis by simp
qed

theorem collect_selected_reachable_witness:
  "\<exists>roots sel. root_stack (Single example_project) (index_new lib3 example_packages) [Prod] = Inr roots
     \<and> collect_selected_packages lib3 (Single example_project) example_packages
         (index_new lib3 example_packages) [Prod] = Inr sel
     \<and> sel = [example_path ''a'', example_path ''b'']
     \<and> set sel = {p. reachable lib3 (index_new lib3 example_packages) example_packages roots p
                    \<and> stored example_packages p}"
proof -
  have r: "root_stack (Single example_project) (index_new lib3 example_packages) [Prod] = Inr [example_path ''a'']"
    by code_simp
  have "collect_selected_packages lib3 (Single example_project) example_packages
         (index_new lib3 example_packages) [Prod] = Inr [example_path ''a'', example_path ''b'']"
    by code_simp
  with r collect_selected_reachable [OF r, of lib3 example_packages] show ?thesis by blast
qed

end
