(* ===== verification/Registry.thy ===== *)
theory Registry
  imports Npmrc Extern
begin

text \<open>
  \<^verbatim>\<open>crates/registry\<close>: package metadata, version selection and the two registry requests, with
  the state of the process (\<open>world\<close>) that the package manager works on.
\<close>

section \<open>Metadata\<close>

record package_distribution =
  pd_integrity :: "integrity option"
  pd_shasum :: "string option"
  pd_tarball :: string
  pd_file_count :: "64 word option"
  pd_unpacked_size :: "64 word option"

record 'v package_version =
  pv_name :: string
  pv_version :: 'v
  pv_dist :: package_distribution
  pv_dependencies :: "(string \<times> string) list option"
  pv_optional_dependencies :: "(string \<times> string) list option"
  pv_dev_dependencies :: "(string \<times> string) list option"
  pv_peer_dependencies :: "(string \<times> string) list option"

record 'v package =
  pk_name :: string
  pk_dist_tags :: "(string \<times> string) list"
  pk_versions :: "(string \<times> 'v package_version) list"

datatype 'v package_tag = Latest | Version 'v

datatype registry_error =
    MissingLatestTag string
  | MissingVersionRelease string string
  | NetworkError string string
  | RegistryIo io_kind
  | RegistrySerialization string

text \<open>\<^verbatim>\<open>PartialEq\<close> of the three types, which is not structural.\<close>

definition package_distribution_eq :: "package_distribution \<Rightarrow> package_distribution \<Rightarrow> bool" where
  "package_distribution_eq a b \<longleftrightarrow> pd_integrity a = pd_integrity b"

definition package_version_eq :: "'v package_version \<Rightarrow> 'v package_version \<Rightarrow> bool" where
  "package_version_eq a b \<longleftrightarrow> package_distribution_eq (pv_dist a) (pv_dist b)"

definition package_eq :: "'v package \<Rightarrow> 'v package \<Rightarrow> bool" where
  "package_eq a b \<longleftrightarrow> pk_name a = pk_name b"

definition package_tag_from_str :: "('v, 'r) extern \<Rightarrow> string \<Rightarrow> string + 'v package_tag" where
  "package_tag_from_str X s =
     (if s = ''latest'' then Inr Latest else map_ok Version (parse_version X s))"

definition package_tag_to_string :: "('v, 'r) extern \<Rightarrow> 'v package_tag \<Rightarrow> string" where
  "package_tag_to_string X t = (case t of Latest \<Rightarrow> ''latest'' | Version v \<Rightarrow> show_version X v)"

section \<open>Operations of a package version\<close>

definition pv_to_virtual_store_name :: "('v, 'r) extern \<Rightarrow> 'v package_version \<Rightarrow> string" where
  "pv_to_virtual_store_name X p =
     replace_char (CHR ''/'') ''+'' (pv_name p) @ ''@'' @ show_version X (pv_version p)"

definition as_tarball_url :: "'v package_version \<Rightarrow> string" where
  "as_tarball_url p = pd_tarball (pv_dist p)"

definition opt_entries :: "'a list option \<Rightarrow> 'a list" where
  "opt_entries m = (case m of None \<Rightarrow> [] | Some l \<Rightarrow> l)"

definition package_dependencies :: "'v package_version \<Rightarrow> bool \<Rightarrow> (string \<times> string) list" where
  "package_dependencies p with_peer_dependencies =
     opt_entries (pv_dependencies p) @ opt_entries (pv_optional_dependencies p)
     @ (if with_peer_dependencies then opt_entries (pv_peer_dependencies p) else [])"

definition pv_serialize :: "('v, 'r) extern \<Rightarrow> 'v package_version \<Rightarrow> bool \<Rightarrow> string" where
  "pv_serialize X p save_exact =
     (let pre = (if save_exact then [] else ''^'') in pre @ show_version X (pv_version p))"

section \<open>Version selection\<close>

text \<open>\<^verbatim>\<open>Iterator::max_by\<close>: the last of the greatest elements.\<close>

fun max_by :: "('a \<Rightarrow> 'a \<Rightarrow> bool) \<Rightarrow> 'a list \<Rightarrow> 'a option" where
  "max_by le [] = None"
| "max_by le (x # xs) = Some (fold (\<lambda>y acc. if le acc y then y else acc) xs x)"

text \<open>Parsing the range is unwrapped: a specifier that is no range panics.\<close>

definition pinned_version :: "('v, 'r) extern \<Rightarrow> 'v package \<Rightarrow> string \<Rightarrow> 'e failure + 'v package_version option" where
  "pinned_version X p version_range =
     (case parse_range X version_range of
        Inl e \<Rightarrow> Inl (Panic e)
      | Inr rng \<Rightarrow>
          Inr (max_by (\<lambda>a b. version_le X (pv_version a) (pv_version b))
                 (filter (\<lambda>v. satisfies X (pv_version v) rng) (map snd (pk_versions p)))))"

definition version_by_tag ::
    "('v, 'r) extern \<Rightarrow> 'v package \<Rightarrow> 'v package_tag \<Rightarrow> registry_error + 'v package_version" where
  "version_by_tag X p tag =
     (case tag of
        Latest \<Rightarrow>
          rbind (ok_or (MissingLatestTag (pk_name p)) (map_of (pk_dist_tags p) ''latest'')) (\<lambda>version.
          ok_or (MissingVersionRelease version (pk_name p)) (map_of (pk_versions p) version))
      | Version v \<Rightarrow>
          let version = show_version X v
          in ok_or (MissingVersionRelease version (pk_name p)) (map_of (pk_versions p) version))"

definition version_by_specifier ::
    "('v, 'r) extern \<Rightarrow> 'v package \<Rightarrow> string \<Rightarrow> registry_error failure + 'v package_version" where
  "version_by_specifier X p version_range =
     (case package_tag_from_str X version_range of
        Inr tag \<Rightarrow> map_err Err (version_by_tag X p tag)
      | Inl _ \<Rightarrow>
          rbind (pinned_version X p version_range) (\<lambda>v.
          ok_or (Err (MissingVersionRelease version_range (pk_name p))) v))"

definition package_latest :: "'v package \<Rightarrow> 'e failure + 'v package_version" where
  "package_latest p =
     (case map_of (pk_dist_tags p) ''latest'' of
        None \<Rightarrow> Inl (Panic ''latest tag is expected but not found for package'')
      | Some version \<Rightarrow>
          ok_or (Panic ''called Option::unwrap() on a None value'') (map_of (pk_versions p) version))"

section \<open>The process and the network\<close>

text \<open>
  The network answers the \<open>n\<close>-th request of the process for a URL; the JSON form of the metadata is
  \<^verbatim>\<open>serde_json\<close>'s. A \<^verbatim>\<open>CacheValue\<close> of the tarball cache carries no handle here: who is waiting
  for it is modelled with the cache itself.
\<close>

record 'v network =
  net_package :: "nat \<Rightarrow> string \<Rightarrow> string + 'v package"
  net_version :: "nat \<Rightarrow> string \<Rightarrow> string + 'v package_version"
  net_bytes :: "nat \<Rightarrow> string \<Rightarrow> string + string"
  package_to_vec :: "'v package \<Rightarrow> string + string"
  package_from_str :: "string \<Rightarrow> string + 'v package"

type_synonym cas_paths = "(string \<times> path) list"

datatype cache_value = InProgress | Available cas_paths

record 'v world =
  w_fs :: fs
  w_requests :: "string list"
  w_metadata :: "(string \<times> 'v package option) list"
  w_mem_cache :: "(string \<times> cache_value) list"
  w_resolved :: "string list"

definition on_fs :: "(fs, 'e, 'a) action \<Rightarrow> ('v world, 'e, 'a) action" where
  "on_fs = act_on w_fs (\<lambda>F w. w\<lparr>w_fs := F\<rparr>)"

definition http_get :: "(nat \<Rightarrow> string \<Rightarrow> string + 'a) \<Rightarrow> string \<Rightarrow> ('v world, string, 'a) action" where
  "http_get answer url =
     (\<lambda>w. (w\<lparr>w_requests := w_requests w @ [url]\<rparr>, answer (length (w_requests w)) url))"

definition package_fetch_from_registry ::
    "'v network \<Rightarrow> string \<Rightarrow> string \<Rightarrow> ('v world, registry_error, 'v package) action" where
  "package_fetch_from_registry N nm registry =
     (let url = registry @ nm in act_map_err (NetworkError url) (http_get (net_package N) url))"

definition pv_fetch_from_registry ::
    "('v, 'r) extern \<Rightarrow> 'v network \<Rightarrow> string \<Rightarrow> 'v package_tag \<Rightarrow> string
     \<Rightarrow> ('v world, registry_error, 'v package_version) action" where
  "pv_fetch_from_registry X N nm tag registry =
     (let url = registry @ nm @ ''/'' @ package_tag_to_string X tag
      in act_map_err (NetworkError url) (http_get (net_version N) url))"

section \<open>Laws of version selection\<close>

lemma fold_max:
  assumes tot: "\<And>a b. le a b \<or> le b a" and tr: "\<And>a b c. le a b \<Longrightarrow> le b c \<Longrightarrow> le a c"
  shows "fold (\<lambda>y acc. if le acc y then y else acc) xs x \<in> set (x # xs)
    \<and> (\<forall>y \<in> set (x # xs). le y (fold (\<lambda>y acc. if le acc y then y else acc) xs x))"
proof (induction xs arbitrary: x)
  case Nil
  then show ?case using tot [of x x] by simp
next
  case (Cons y xs)
  let ?m = "if le x y then y else x"
  let ?r = "fold (\<lambda>y acc. if le acc y then y else acc) xs ?m"
  have m: "le x ?m" "le y ?m" using tot [of x y] tot [of y y] tot [of x x] by auto
  have r: "?r \<in> set (?m # xs)" "\<forall>z \<in> set (?m # xs). le z ?r" using Cons.IH [of ?m] by blast+
  have "le x ?r" by (rule tr [OF m(1)]) (simp add: r(2))
  moreover have "le y ?r" by (rule tr [OF m(2)]) (simp add: r(2))
  moreover have "?r \<in> set (x # y # xs)" using r(1) by (auto split: if_splits)
  moreover have "\<forall>z \<in> set xs. le z ?r" using r(2) by simp
  ultimately show ?case unfolding fold_simps by (simp only: list.set ball_simps insert_iff)
qed

lemma max_by_Some:
  assumes "\<And>a b. le a b \<or> le b a" and "\<And>a b c. le a b \<Longrightarrow> le b c \<Longrightarrow> le a c"
    and "max_by le xs = Some m"
  shows "m \<in> set xs \<and> (\<forall>y \<in> set xs. le y m)"
  using assms(3) fold_max [of le, OF assms(1,2)] by (cases xs) fastforce+

lemma max_by_None [simp]: "max_by le xs = None \<longleftrightarrow> xs = []"
  by (cases xs) simp_all

lemma version_order_okD:
  "version_order_ok X \<Longrightarrow> version_le X a b \<or> version_le X b a"
  "version_order_ok X \<Longrightarrow> version_le X a b \<Longrightarrow> version_le X b c \<Longrightarrow> version_le X a c"
  "version_order_ok X \<Longrightarrow> version_le X a b \<Longrightarrow> version_le X b a \<Longrightarrow> a = b"
  unfolding version_order_ok_def by blast+

lemma pinned_version_Some:
  assumes "version_order_ok X" and "parse_range X s = Inr rng"
    and "pinned_version X p s = Inr (Some v)"
  shows "v \<in> snd ` set (pk_versions p) \<and> satisfies X (pv_version v) rng
    \<and> (\<forall>u \<in> snd ` set (pk_versions p). satisfies X (pv_version u) rng
         \<longrightarrow> version_le X (pv_version u) (pv_version v))"
proof -
  let ?vs = "filter (\<lambda>v. satisfies X (pv_version v) rng) (map snd (pk_versions p))"
  from assms(2,3) have "max_by (\<lambda>a b. version_le X (pv_version a) (pv_version b)) ?vs = Some v"
    by (simp add: pinned_version_def)
  from max_by_Some [OF _ _ this] version_order_okD(1,2) [OF assms(1)]
  have "v \<in> set ?vs \<and> (\<forall>y \<in> set ?vs. version_le X (pv_version y) (pv_version v))" by blast
  then show ?thesis by auto
qed

section \<open>Properties\<close>

text \<open>C17: \<^verbatim>\<open>pinned_version\<close> returns a release of the package that satisfies the range and that no
  other satisfying release exceeds, and none exactly when no release satisfies the range.\<close>

theorem pinned_version_spec:
  assumes "version_order_ok X" and "parse_range X s = Inr rng"
  shows "\<exists>r. (pinned_version X p s :: unit failure + _) = Inr r
    \<and> (case r of
         Some v \<Rightarrow> v \<in> snd ` set (pk_versions p) \<and> satisfies X (pv_version v) rng
           \<and> (\<forall>u \<in> snd ` set (pk_versions p). satisfies X (pv_version u) rng
                \<longrightarrow> version_le X (pv_version u) (pv_version v))
       | None \<Rightarrow> \<forall>u \<in> snd ` set (pk_versions p). \<not> satisfies X (pv_version u) rng)"
proof -
  obtain r where r: "(pinned_version X p s :: unit failure + _) = Inr r"
    using assms(2) by (simp add: pinned_version_def)
  show ?thesis
  proof (cases r)
    case None
    with r assms(2) have "\<forall>u \<in> snd ` set (pk_versions p). \<not> satisfies X (pv_version u) rng"
      by (auto simp: pinned_version_def filter_empty_conv)
    with r None show ?thesis by simp
  next
    case (Some v)
    with pinned_version_Some [OF assms] r show ?thesis by simp
  qed
qed

definition example_release :: "string \<Rightarrow> ver3 \<Rightarrow> (string \<times> string) list \<Rightarrow> (string \<times> string) list
    \<Rightarrow> string \<times> ver3 package_version" where
  "example_release nm v deps opt =
     (show_ver3 v,
      \<lparr> pv_name = nm, pv_version = v,
        pv_dist = \<lparr> pd_integrity = Some [(Sha512, pad64 nm)], pd_shasum = None,
                    pd_tarball = ''http://r/'' @ nm, pd_file_count = None, pd_unpacked_size = None \<rparr>,
        pv_dependencies = Some deps, pv_optional_dependencies = Some opt,
        pv_dev_dependencies = None, pv_peer_dependencies = None \<rparr>)"

definition example_package :: "ver3 package" where
  "example_package =
     \<lparr> pk_name = ''a'', pk_dist_tags = [(''latest'', ''2.0.0'')],
       pk_versions = [example_release ''a'' (1, 2, 0) [] [], example_release ''a'' (2, 0, 0) [] [],
                      example_release ''a'' (1, 10, 0) [] []] \<rparr>"

theorem pinned_version_spec_witness:
  "\<exists>v. (pinned_version lib3 example_package ''^1.0.0'' :: unit failure + _) = Inr (Some v)
     \<and> pv_version v = (1, 10, 0)
     \<and> (\<forall>u \<in> snd ` set (pk_versions example_package). satisfies3 (pv_version u) (CaretRange (1, 0, 0))
          \<longrightarrow> ver3_le (pv_version u) (pv_version v))"
proof -
  have r: "parse_range lib3 ''^1.0.0'' = Inr (CaretRange (1, 0, 0))" by code_simp
  have p: "(pinned_version lib3 example_package ''^1.0.0'' :: unit failure + _)
      = Inr (Some (snd (example_release ''a'' (1, 10, 0) [] [])))"
    by code_simp
  have "pv_version (snd (example_release ''a'' (1, 10, 0) [] [])) = (1, 10, 0)"
    by (simp add: example_release_def)
  with pinned_version_spec [OF version_order_ok_lib3 r, of example_package] p show ?thesis by simp
qed

text \<open>C18: The outcomes of \<^verbatim>\<open>version_by_specifier\<close>: a version or \<^verbatim>\<open>latest\<close> is looked up exactly, any
  other specifier is a range; it panics exactly on a specifier that is neither, such as every other
  distribution tag, although the function returns a \<^verbatim>\<open>Result\<close>.\<close>

theorem version_by_specifier_outcomes:
  "(\<exists>m. version_by_specifier X p s = Inl (Panic m))
     = (s \<noteq> ''latest'' \<and> \<not> is_ok (parse_version X s) \<and> \<not> is_ok (parse_range X s))
   \<and> (s = ''latest'' \<or> \<not> (\<exists>v. parse_version X s = Inr v)
      \<or> version_by_specifier X p s
          = ok_or (Err (MissingVersionRelease (show_version X (projr (parse_version X s))) (pk_name p)))
              (map_of (pk_versions p) (show_version X (projr (parse_version X s)))))
   \<and> version_by_specifier X p ''latest'' = map_err Err (version_by_tag X p Latest)"
proof -
  have ok: "ok_or (Err x) y \<noteq> Inl (Panic m)" for x y and m by (cases y) simp_all
  have err: "map_err Err y \<noteq> Inl (Panic m)" for y m by (cases y) simp_all
  have n: "(\<exists>e. r = Inl e) \<longleftrightarrow> \<not> is_ok r" for r :: "string + 'r" by (cases r) auto
  show ?thesis
  proof (cases "s = ''latest''")
    case True
    then show ?thesis by (simp add: version_by_specifier_def package_tag_from_str_def err)
  next
    case False
    show ?thesis
    proof (cases "parse_version X s")
      case (Inl e)
      with False show ?thesis
        by (cases "parse_range X s")
          (simp_all add: version_by_specifier_def package_tag_from_str_def pinned_version_def ok)
    next
      case (Inr v)
      with False show ?thesis
        by (cases "map_of (pk_versions p) (show_version X v)")
          (simp_all add: version_by_specifier_def package_tag_from_str_def version_by_tag_def Let_def err)
    qed
  qed
qed

theorem version_by_specifier_outcomes_witness:
  "\<exists>m. version_by_specifier lib3 example_package ''next'' = Inl (Panic m)"
proof -
  have "\<not> is_ok (parse_version lib3 ''next'')" "\<not> is_ok (parse_range lib3 ''next'')" by code_simp+
  with version_by_specifier_outcomes [of lib3 example_package "''next''"] show ?thesis by simp
qed

end
