(* ===== verification/Metadata_Cache.thy ===== *)
theory Metadata_Cache
  imports Registry
begin

text \<open>
  \<^verbatim>\<open>crates/package-manager/src/registry_metadata_cache.rs\<close>: the metadata of a package comes from
  the cell of the process, from the store when that is preferred, or from the registry. A cell
  is \<open>None\<close> until it is initialized.
\<close>

datatype registry_metadata_mode = Online | PreferOffline

definition cache_key :: "string \<Rightarrow> string \<Rightarrow> string" where
  "cache_key registry nm = registry @ [CHR 0x0A] @ nm"

definition load_package_metadata_from_disk ::
    "store_lib \<Rightarrow> 'v network \<Rightarrow> store_dir \<Rightarrow> string \<Rightarrow> string \<Rightarrow> fs \<Rightarrow> registry_error + 'v package option" where
  "load_package_metadata_from_disk L N S registry nm F =
     (case fs_read_to_string F (registry_metadata_file_path L S registry nm) of
        Inl e \<Rightarrow> if e = NotFound then Inr None else Inl (RegistryIo e)
      | Inr contents \<Rightarrow> map_err RegistrySerialization (map_ok Some (package_from_str N contents)))"

text \<open>Failures to persist are logged and dropped; a panic is not.\<close>

definition save_package_metadata_to_disk ::
    "store_lib \<Rightarrow> 'v network \<Rightarrow> store_dir \<Rightarrow> string \<Rightarrow> string \<Rightarrow> 'v package
     \<Rightarrow> (fs, registry_error failure, unit) action" where
  "save_package_metadata_to_disk L N S registry nm p =
     (case package_to_vec N p of
        Inl _ \<Rightarrow> act_return ()
      | Inr contents \<Rightarrow>
          act_bind (act_catch (ensure_file (registry_metadata_file_path L S registry nm) contents (Some 0x1B6)))
            (\<lambda>r. case r of Inl (Panic m) \<Rightarrow> act_throw (Panic m) | _ \<Rightarrow> act_return ()))"

text \<open>The cell of the key, created when the entry is vacant.\<close>

definition cell_of :: "string \<Rightarrow> ('v world, 'e, 'v package option) action" where
  "cell_of key =
     (\<lambda>w. case map_of (w_metadata w) key of
        Some cell \<Rightarrow> (w, Inr cell)
      | None \<Rightarrow> (w\<lparr>w_metadata := AList.update key None (w_metadata w)\<rparr>, Inr None))"

definition set_cell :: "string \<Rightarrow> 'v package \<Rightarrow> ('v world, 'e, unit) action" where
  "set_cell key p = (\<lambda>w. (w\<lparr>w_metadata := AList.update key (Some p) (w_metadata w)\<rparr>, Inr ()))"

text \<open>What initializes the cell.\<close>

definition init_package_metadata ::
    "store_lib \<Rightarrow> 'v network \<Rightarrow> string \<Rightarrow> string \<Rightarrow> store_dir \<Rightarrow> registry_metadata_mode
     \<Rightarrow> ('v world, registry_error failure, 'v package) action" where
  "init_package_metadata L N nm registry S mode =
     act_bind (if mode = PreferOffline
               then act_err (act_read (\<lambda>w. load_package_metadata_from_disk L N S registry nm (w_fs w)))
               else act_return None) (\<lambda>on_disk.
     case on_disk of
       Some p \<Rightarrow> act_return p
     | None \<Rightarrow>
         act_bind (act_err (package_fetch_from_registry N nm registry)) (\<lambda>p.
         act_then (on_fs (save_package_metadata_to_disk L N S registry nm p))
         (act_return p)))"

definition fetch_package_metadata ::
    "store_lib \<Rightarrow> 'v network \<Rightarrow> string \<Rightarrow> string \<Rightarrow> store_dir \<Rightarrow> registry_metadata_mode
     \<Rightarrow> ('v world, registry_error failure, 'v package) action" where
  "fetch_package_metadata L N nm registry S mode =
     (let key = cache_key registry nm
      in act_bind (cell_of key) (\<lambda>cell.
         case cell of
           Some p \<Rightarrow> act_return p
         | None \<Rightarrow>
             act_bind (init_package_metadata L N nm registry S mode) (\<lambda>p.
             act_then (set_cell key p) (act_return p))))"

section \<open>Laws\<close>

lemma on_fs_eq: "on_fs m w = (case m (w_fs w) of (F, r) \<Rightarrow> (w\<lparr>w_fs := F\<rparr>, r))"
  by (simp add: on_fs_def act_on_def)

lemma http_get_eq [act_simps]:
  "http_get f url w = (w\<lparr>w_requests := w_requests w @ [url]\<rparr>, f (length (w_requests w)) url)"
  by (simp add: http_get_def)

text \<open>A filled cell answers without a request and without a change.\<close>

lemma fetch_filled:
  "map_of (w_metadata w) (cache_key registry nm) = Some (Some p)
     \<Longrightarrow> fetch_package_metadata L N nm registry S mode w = (w, Inr p)"
  by (simp add: fetch_package_metadata_def cell_of_def act_simps Let_def)

text \<open>
  What a fetch leaves alone: the other cells, filled cells, and the tarball cache. All it adds to
  the log of requests is the one URL of the package.
\<close>

definition metadata_step :: "string \<Rightarrow> string \<Rightarrow> 'v world \<Rightarrow> 'v world \<Rightarrow> bool" where
  "metadata_step registry nm w w' \<longleftrightarrow>
     (\<forall>k. map_of (w_metadata w') k = map_of (w_metadata w) k
        \<or> k = cache_key registry nm \<and> (\<nexists>p. map_of (w_metadata w) k = Some (Some p)))
     \<and> (w_requests w' = w_requests w \<or> w_requests w' = w_requests w @ [registry @ nm])
     \<and> w_mem_cache w' = w_mem_cache w \<and> w_resolved w' = w_resolved w"

lemma fetch_package_metadata_step:
  assumes "fetch_package_metadata L N nm registry S mode w = (w', r)"
  shows "metadata_step registry nm w w'"
proof -
  let ?key = "cache_key registry nm"
  show ?thesis
  proof (cases "\<exists>p. map_of (w_metadata w) ?key = Some (Some p)")
    case True
    then obtain p where "map_of (w_metadata w) ?key = Some (Some p)" by blast
    from fetch_filled [OF this] assms show ?thesis by (simp add: metadata_step_def)
  next
    case False
    obtain w1 where w1: "cell_of ?key w = (w1, Inr None :: registry_error failure + _)"
      and m1: "\<forall>k. k \<noteq> ?key \<longrightarrow> map_of (w_metadata w1) k = map_of (w_metadata w) k"
      and s1: "w_requests w1 = w_requests w" "w_mem_cache w1 = w_mem_cache w" "w_resolved w1 = w_resolved w"
    proof (cases "map_of (w_metadata w) ?key")
      case None
      then show ?thesis
        by (intro that [of "w\<lparr>w_metadata := AList.update ?key None (w_metadata w)\<rparr>"])
          (simp_all add: cell_of_def)
    next
      case (Some c)
      with False have "c = None" by (cases c) auto
      with Some show ?thesis by (intro that [of w]) (simp_all add: cell_of_def)
    qed
    obtain w2 q where w2: "init_package_metadata L N nm registry S mode w1 = (w2, q)"
      by (cases "init_package_metadata L N nm registry S mode w1")
    have s2: "w_metadata w2 = w_metadata w1 \<and> w_mem_cache w2 = w_mem_cache w1 \<and> w_resolved w2 = w_resolved w1
      \<and> (w_requests w2 = w_requests w1 \<or> w_requests w2 = w_requests w1 @ [registry @ nm])"
      using w2 by (auto simp: init_package_metadata_def package_fetch_from_registry_def Let_def act_simps
          on_fs_eq split: prod.splits sum.splits option.splits if_splits)
    have "w_requests w' = w_requests w2 \<and> w_mem_cache w' = w_mem_cache w2 \<and> w_resolved w' = w_resolved w2
      \<and> (\<forall>k. k \<noteq> ?key \<longrightarrow> map_of (w_metadata w') k = map_of (w_metadata w2) k)"
      using assms by (auto simp: fetch_package_metadata_def Let_def act_bind_def w1 w2 set_cell_def act_return_def
          split: sum.splits)
    moreover have "map_of (w_metadata w') k = map_of (w_metadata w) k
        \<or> k = ?key \<and> (\<nexists>p. map_of (w_metadata w) k = Some (Some p))" for k
      using calculation s2 m1 False by (cases "k = ?key") auto
    ultimately show ?thesis using s2 s1 by (simp add: metadata_step_def)
  qed
qed

lemma fetch_fills:
  assumes "fetch_package_metadata L N nm registry S mode w = (w', Inr p)"
  shows "map_of (w_metadata w') (cache_key registry nm) = Some (Some p)"
proof (cases "\<exists>p. map_of (w_metadata w) (cache_key registry nm) = Some (Some p)")
  case True
  then obtain p' where p': "map_of (w_metadata w) (cache_key registry nm) = Some (Some p')" by blast
  from fetch_filled [OF p'] assms p' show ?thesis by simp
next
  case False
  with assms show ?thesis
    by (auto simp: fetch_package_metadata_def Let_def result_simps set_cell_def cell_of_def
        split: option.splits)
qed

text \<open>A fetch that fails leaves the cell empty, so that the next one tries again.\<close>

lemma fetch_fails_empty:
  assumes "fetch_package_metadata L N nm registry S mode w = (w', r)"
    and "\<nexists>p. map_of (w_metadata w) (cache_key registry nm) = Some (Some p)" and "r = Inl e"
  shows "\<nexists>p. map_of (w_metadata w') (cache_key registry nm) = Some (Some p)"
proof -
  let ?key = "cache_key registry nm"
  have init: "w_metadata w2 = w_metadata w1"
    if "init_package_metadata L N nm registry S mode w1 = (w2, q)" for w1 w2 q
    using that by (auto simp: init_package_metadata_def package_fetch_from_registry_def Let_def act_simps
        on_fs_eq split: prod.splits sum.splits option.splits if_splits)
  from assms(1,3) consider "\<exists>w1. cell_of ?key w = (w1, Inr None :: registry_error failure + _)
      \<and> init_package_metadata L N nm registry S mode w1 = (w', Inl e)"
    using assms(2) by (auto simp: fetch_package_metadata_def Let_def result_simps cell_of_def set_cell_def
        split: option.splits)
  then show ?thesis
    using assms(2) by cases (auto simp: cell_of_def dest!: init split: option.splits)
qed

lemma fuel_free_fetch: "fuel_free (fetch_package_metadata L N nm registry S mode)"
proof -
  have save: "fuel_free (save_package_metadata_to_disk L N S registry nm p)" for p
    unfolding save_package_metadata_to_disk_def
    by (auto intro!: fuel_free_bind split: sum.split failure.split)
  have "fuel_free (init_package_metadata L N nm registry S mode)"
    unfolding init_package_metadata_def on_fs_def
    by (auto intro!: fuel_free_intros save split: option.split)
  moreover have "fuel_free (cell_of key)" "fuel_free (set_cell key p)" for key p
    by (auto simp: fuel_free_def cell_of_def set_cell_def split: option.split)
  ultimately show ?thesis
    unfolding fetch_package_metadata_def Let_def by (auto intro!: fuel_free_bind split: option.split)
qed

section \<open>Properties\<close>


text \<open>Under \<^verbatim>\<open>PreferOffline\<close> the metadata file of the store is used without any request, and a
  missing file leads to the registry.\<close>

theorem prefer_offline_reads_disk:
  assumes "map_of (w_metadata w) (cache_key registry nm) \<in> {None, Some None}"
    and "fs_read_to_string (w_fs w) (registry_metadata_file_path L S registry nm) = Inr contents"
    and "package_from_str N contents = Inr p"
  shows "\<exists>w'. fetch_package_metadata L N nm registry S PreferOffline w = (w', Inr p)
    \<and> w_requests w' = w_requests w \<and> w_fs w' = w_fs w"
  using assms
  by (auto simp: fetch_package_metadata_def init_package_metadata_def cell_of_def set_cell_def Let_def
      act_simps load_package_metadata_from_disk_def)

text \<open>Metadata fetched online never replaces the metadata file of the store: when the file is
  there, it has its old content after the fetch, so a later process that prefers offline data
  resolves with what the first fetch ever stored.\<close>

lemma metadata_file_never_refreshed:
  assumes "fs_exists (w_fs w) (registry_metadata_file_path L S registry nm)"
    and "fetch_package_metadata L N nm registry S Online w = (w', r)"
  shows "w_fs w' = w_fs w"
  using assms
  by (auto simp: fetch_package_metadata_def init_package_metadata_def cell_of_def set_cell_def Let_def
      act_simps package_fetch_from_registry_def save_package_metadata_to_disk_def ensure_file_def
      on_fs_eq split: option.splits sum.splits prod.splits)

section \<open>Examples\<close>

definition network3 :: "ver3 package \<Rightarrow> ver3 network" where
  "network3 p =
     \<lparr> net_package = (\<lambda>_ _. Inr p), net_version = (\<lambda>_ _. Inl ''offline''), net_bytes = (\<lambda>_ _. Inl ''offline''),
       package_to_vec = (\<lambda>_. Inr ''json''),
       package_from_str = (\<lambda>s. if s = ''json'' then Inr p else Inl ''parse'') \<rparr>"

definition world3 :: "fs \<Rightarrow> 'v world" where
  "world3 F = \<lparr> w_fs = F, w_requests = [], w_metadata = [], w_mem_cache = [], w_resolved = [] \<rparr>"

definition lib_store3 :: store_lib where
  "lib_store3 = (store3 \<lparr> ix_files = [] \<rparr>)\<lparr>sha512_digest := \<lambda>_. ''abcd''\<rparr>"

definition metadata_names :: names where
  "metadata_names = [''store'', ''v3'', ''metadata'', ''61'', ''626364.json'']"


theorem prefer_offline_reads_disk_witness:
  "\<exists>w'. fetch_package_metadata lib_store3 (network3 example_package) ''a'' ''http://r/'' store_root PreferOffline
       (world3 (one_file metadata_names ''json'')) = (w', Inr example_package) \<and> w_requests w' = []"
proof -
  let ?w = "world3 (one_file metadata_names ''json'') :: ver3 world"
  have "fs_read_to_string (w_fs ?w) (registry_metadata_file_path lib_store3 store_root ''http://r/'' ''a'') = Inr ''json''"
    by code_simp
  moreover have "map_of (w_metadata ?w) (cache_key ''http://r/'' ''a'') \<in> {None, Some None}"
    by (simp add: world3_def)
  moreover have "package_from_str (network3 example_package) ''json'' = Inr example_package"
    by (simp add: network3_def)
  ultimately show ?thesis
    using prefer_offline_reads_disk [of ?w "''http://r/''" "''a''" lib_store3 store_root "''json''"
        "network3 example_package" example_package]
    by (auto simp: world3_def)
qed

lemma metadata_file_never_refreshed_example:
  "\<exists>w' r. fetch_package_metadata lib_store3 (network3 example_package) ''a'' ''http://r/'' store_root Online
       (world3 (one_file metadata_names ''stale'')) = (w', r) \<and> r = Inr example_package
     \<and> fs_read_to_string (w_fs w') (registry_metadata_file_path lib_store3 store_root ''http://r/'' ''a'')
         = Inr ''stale''"
proof -
  let ?w = "world3 (one_file metadata_names ''stale'') :: ver3 world"
  have ex: "fs_exists (w_fs ?w) (registry_metadata_file_path lib_store3 store_root ''http://r/'' ''a'')"
    by code_simp
  have res: "snd (fetch_package_metadata lib_store3 (network3 example_package) ''a'' ''http://r/'' store_root Online ?w)
      = Inr example_package"
    by code_simp
  from ex_state [OF res] obtain w' where run: "fetch_package_metadata lib_store3 (network3 example_package) ''a'' ''http://r/''
      store_root Online ?w = (w', Inr example_package)" ..
  have same: "w_fs w' = w_fs ?w" by (rule metadata_file_never_refreshed [OF ex run])
  have rd: "fs_read_to_string (w_fs w') (registry_metadata_file_path lib_store3 store_root ''http://r/'' ''a'')
      = Inr ''stale''" unfolding same by code_simp
  show ?thesis by (intro exI conjI) (rule run, rule refl, rule rd)
qed

end
