(* ===== verification/Generate_Lockfile.thy ===== *)
theory Generate_Lockfile
  imports Selection Metadata_Cache
begin

text \<open>
  \<^verbatim>\<open>crates/package-manager/src/generate_lockfile.rs\<close>: the resolution of a manifest into a
  lockfile. The recursion over the dependency graph of the registry takes fuel, the bound on its
  depth; the theorem on fuel says how much is enough.
\<close>

section \<open>The builder\<close>

record ('v, 'r) generator =
  g_extern :: "('v, 'r) extern"
  g_store :: store_lib
  g_network :: "'v network"
  g_config :: npmrc
  g_mode :: registry_metadata_mode

record 'v builder =
  b_world :: "'v world"
  b_packages :: "'v packages"

definition in_world :: "('v world, 'e, 'a) action \<Rightarrow> ('v builder, 'e, 'a) action" where
  "in_world = act_on b_world (\<lambda>w b. b\<lparr>b_world := w\<rparr>)"

definition modify_packages :: "('v packages \<Rightarrow> 'v packages) \<Rightarrow> ('v builder, 'e, unit) action" where
  "modify_packages f = (\<lambda>b. (b\<lparr>b_packages := f (b_packages b)\<rparr>, Inr ()))"

definition resolve_package_version ::
    "('v, 'r) generator \<Rightarrow> string \<Rightarrow> string \<Rightarrow> ('v builder, registry_error failure, 'v package_version) action" where
  "resolve_package_version G nm version_range =
     act_bind (in_world (fetch_package_metadata (g_store G) (g_network G) nm (nc_registry (g_config G))
                 (nc_store_dir (g_config G)) (g_mode G))) (\<lambda>p.
     act_read (\<lambda>_. version_by_specifier (g_extern G) p version_range))"

definition expect_name :: "('v, 'r) extern \<Rightarrow> string \<Rightarrow> string \<Rightarrow> registry_error failure + pkg_name" where
  "expect_name X msg s = map_err (\<lambda>_. Panic msg) (pkg_name_parse X s)"

definition package_specifier ::
    "('v, 'r) generator \<Rightarrow> 'v package_version \<Rightarrow> registry_error failure + 'v pkg_name_ver_peer" where
  "package_specifier G p =
     rbind (expect_name (g_extern G) ''registry package name is valid'' (pv_name p)) (\<lambda>nm.
     rbind (map_err (\<lambda>_. Panic ''registry version is valid'')
              (pkg_ver_peer_from_str (g_extern G) (show_version (g_extern G) (pv_version p)))) (\<lambda>version.
     Inr \<lparr> ns_name = nm, ns_suffix = version \<rparr>))"

definition dependency_path_of ::
    "('v, 'r) generator \<Rightarrow> 'v package_version \<Rightarrow> registry_error failure + 'v dependency_path" where
  "dependency_path_of G p =
     map_ok (\<lambda>s. \<lparr> dp_custom_registry = None, dp_package_specifier = s \<rparr>) (package_specifier G p)"

definition resolution_of :: "('v, 'r) generator \<Rightarrow> 'v package_version \<Rightarrow> registry_error failure + lockfile_resolution" where
  "resolution_of G p =
     rbind (ok_or (Panic ''registry metadata should include integrity'') (pd_integrity (pv_dist p))) (\<lambda>i.
     Inr (if nc_lockfile_include_tarball_url (g_config G)
          then Tarball \<lparr> tr_tarball = pd_tarball (pv_dist p), tr_integrity = Some i \<rparr>
          else Registry \<lparr> rr_integrity = i \<rparr>))"

definition unwrap_or :: "'a \<Rightarrow> 'a option \<Rightarrow> 'a" where
  "unwrap_or d m = (case m of None \<Rightarrow> d | Some x \<Rightarrow> x)"

definition merge_package_flags :: "bool \<Rightarrow> bool \<Rightarrow> 'v package_snapshot \<Rightarrow> 'v package_snapshot" where
  "merge_package_flags dev optional s =
     s\<lparr>sn_dev := Some (unwrap_or True (sn_dev s) \<and> dev),
       sn_optional := Some (unwrap_or True (sn_optional s) \<and> optional)\<rparr>"

definition placeholder_snapshot :: "lockfile_resolution \<Rightarrow> bool \<Rightarrow> bool \<Rightarrow> 'v package_snapshot" where
  "placeholder_snapshot res dev optional =
     \<lparr> sn_resolution = res, sn_id = None, sn_name = None, sn_version = None, sn_engines = None,
       sn_cpu = None, sn_os = None, sn_libc = None, sn_deprecated = None, sn_has_bin = None,
       sn_prepare = None, sn_requires_build = None, sn_bundled_dependencies = None,
       sn_peer_dependencies = None, sn_peer_dependencies_meta = None, sn_dependencies = None,
       sn_optional_dependencies = None, sn_transitive_peer_dependencies = None,
       sn_dev = Some dev, sn_optional = Some optional \<rparr>"

text \<open>\<^verbatim>\<open>get_mut\<close> on a key of the map.\<close>

definition modify_entry :: "'k \<Rightarrow> ('a \<Rightarrow> 'a) \<Rightarrow> ('k \<times> 'a) list \<Rightarrow> ('k \<times> 'a) list" where
  "modify_entry k f m = (case map_of m k of None \<Rightarrow> m | Some x \<Rightarrow> AList.update k (f x) m)"

definition non_empty :: "'a list \<Rightarrow> 'a list option" where
  "non_empty l = (if l = [] then None else Some l)"

definition child_optional_flag :: "'v package_version \<Rightarrow> bool \<Rightarrow> string \<Rightarrow> bool" where
  "child_optional_flag p optional nm \<longleftrightarrow>
     optional \<or> (case pv_optional_dependencies p of None \<Rightarrow> False | Some m \<Rightarrow> map_of m nm \<noteq> None)"

fun build_package_snapshot ::
    "nat \<Rightarrow> ('v, 'r) generator \<Rightarrow> 'v package_version \<Rightarrow> bool \<Rightarrow> bool
     \<Rightarrow> ('v builder, registry_error failure, unit) action" where
  "build_package_snapshot 0 G p dev optional = act_throw OutOfFuel"
| "build_package_snapshot (Suc fuel) G p dev optional =
     act_bind (act_read (\<lambda>_. dependency_path_of G p)) (\<lambda>dp.
     act_bind (act_read (\<lambda>b. Inr (map_of (b_packages b) dp))) (\<lambda>present.
     if present \<noteq> None then
       modify_packages (modify_entry dp (merge_package_flags dev optional))
     else
       act_bind (act_read (\<lambda>_. resolution_of G p)) (\<lambda>res.
       act_then (modify_packages (AList.update dp (placeholder_snapshot res dev optional)))
       (act_bind (act_each (\<lambda>(nm, version_range).
            act_bind (resolve_package_version G nm version_range) (\<lambda>child.
            let child_optional = child_optional_flag p optional nm
            in act_bind (act_read (\<lambda>_. expect_name (g_extern G) ''registry dependency name is valid'' nm)) (\<lambda>name.
               act_bind (act_read (\<lambda>_. package_specifier G child)) (\<lambda>spec.
               act_then (build_package_snapshot fuel G child dev child_optional)
               (act_return (name, PkgVerPeer (ns_suffix spec)))))))
          (package_dependencies p (nc_auto_install_peers (g_config G)))) (\<lambda>inserted.
       let dependencies = fold (\<lambda>(k, v). AList.update k v) inserted []
       in modify_packages (modify_entry dp
            (\<lambda>s. merge_package_flags dev optional (s\<lparr>sn_dependencies := non_empty dependencies\<rparr>))))))))"

definition build_root_group ::
    "nat \<Rightarrow> ('v, 'r) generator \<Rightarrow> package_manifest \<Rightarrow> dependency_group list \<Rightarrow> dependency_group
     \<Rightarrow> ('v builder, registry_error failure, 'v resolved_dependency_map option) action" where
  "build_root_group fuel G M enabled_groups g =
     (if g \<notin> set enabled_groups then act_return None
      else act_bind (act_each (\<lambda>(nm, specifier).
             act_bind (resolve_package_version G nm specifier) (\<lambda>p.
             act_bind (act_read (\<lambda>_. map_ok ns_suffix (package_specifier G p))) (\<lambda>resolved_version.
             act_bind (act_read (\<lambda>_. expect_name (g_extern G) ''package name from manifest is valid'' nm)) (\<lambda>name.
             act_then (build_package_snapshot fuel G p (g = Dev) (g = Optional))
             (act_return (name, \<lparr> rd_specifier = specifier, rd_version = resolved_version \<rparr>))))))
           (manifest_dependencies M [g])) (\<lambda>inserted.
         act_return (non_empty (fold (\<lambda>(k, v). AList.update k v) inserted []))))"

definition generate_lockfile ::
    "nat \<Rightarrow> ('v, 'r) generator \<Rightarrow> package_manifest \<Rightarrow> dependency_group list
     \<Rightarrow> ('v world, registry_error failure, 'v lockfile) action" where
  "generate_lockfile fuel G M dependency_groups =
     (\<lambda>w. case act_bind (build_root_group fuel G M dependency_groups Prod) (\<lambda>dependencies.
             act_bind (build_root_group fuel G M dependency_groups Optional) (\<lambda>optional_dependencies.
             act_bind (build_root_group fuel G M dependency_groups Dev) (\<lambda>dev_dependencies.
             act_bind (act_read (\<lambda>b. Inr (b_packages b))) (\<lambda>packages.
             act_return
               \<lparr> lf_lockfile_version = \<lparr> cv_major = 6, cv_minor = 0 \<rparr>,
                 lf_settings = Some \<lparr> ls_auto_install_peers = nc_auto_install_peers (g_config G),
                                      ls_exclude_links_from_lockfile = False \<rparr>,
                 lf_never_built_dependencies = None,
                 lf_overrides = None,
                 lf_project_snapshot = Single
                   \<lparr> ps_specifiers = None, ps_dependencies = dependencies,
                     ps_optional_dependencies = optional_dependencies,
                     ps_dev_dependencies = dev_dependencies, ps_dependencies_meta = None,
                     ps_publish_directory = None \<rparr>,
                 lf_packages = non_empty packages \<rparr>))))
             \<lparr> b_world = w, b_packages = [] \<rparr> of (b, r) \<Rightarrow> (b_world b, r))"

section \<open>More fuel refines\<close>

lemma refines_build:
  "fuel \<le> fuel' \<Longrightarrow> refines OutOfFuel (build_package_snapshot fuel G p dev optional)
     (build_package_snapshot fuel' G p dev optional)"
proof (induction fuel arbitrary: fuel' p dev optional)
  case 0
  then show ?case by (simp add: refines_def act_simps)
next
  case (Suc fuel)
  then obtain k where k: "fuel' = Suc k" "fuel \<le> k" by (cases fuel') auto
  note ih = Suc.IH [OF k(2)]
  show ?case unfolding k(1) build_package_snapshot.simps Let_def
    by (intro refines_bind refines_refl) (auto intro!: refines_bind refines_each ih split: if_split prod.split)
qed

lemma refines_root_group:
  "fuel \<le> fuel' \<Longrightarrow> refines OutOfFuel (build_root_group fuel G M groups g) (build_root_group fuel' G M groups g)"
  unfolding build_root_group_def
  by (auto intro!: refines_bind refines_each refines_build split: prod.split)

section \<open>What the registry serves\<close>

text \<open>
  \<open>Q nm p\<close> holds of every package \<open>p\<close> that the registry, the store or the cells of the process can
  give for the name \<open>nm\<close>.
\<close>

definition registry_serves :: "(string \<Rightarrow> 'v package \<Rightarrow> bool) \<Rightarrow> ('v, 'r) generator \<Rightarrow> bool" where
  "registry_serves Q G \<longleftrightarrow>
     (\<forall>n nm p. net_package (g_network G) n (nc_registry (g_config G) @ nm) = Inr p \<longrightarrow> Q nm p)
     \<and> (g_mode G = PreferOffline \<longrightarrow>
          (\<forall>s nm p. package_from_str (g_network G) s = Inr p \<longrightarrow> Q nm p))"

definition world_serves :: "(string \<Rightarrow> 'v package \<Rightarrow> bool) \<Rightarrow> ('v, 'r) generator \<Rightarrow> 'v world \<Rightarrow> bool" where
  "world_serves Q G w \<longleftrightarrow>
     (\<forall>nm p. map_of (w_metadata w) (cache_key (nc_registry (g_config G)) nm) = Some (Some p) \<longrightarrow> Q nm p)"

lemma cache_key_inject [simp]: "cache_key r a = cache_key r b \<longleftrightarrow> a = b"
  by (simp add: cache_key_def)

lemma init_serves:
  assumes "registry_serves Q G"
    and "init_package_metadata L (g_network G) nm (nc_registry (g_config G)) S (g_mode G) w = (w', Inr p)"
  shows "Q nm p"
  using assms
  by (auto simp: init_package_metadata_def result_simps load_package_metadata_from_disk_def registry_serves_def
      package_fetch_from_registry_def http_get_def Let_def split: if_splits option.splits sum.splits)

lemma fetch_serves:
  assumes "registry_serves Q G" and "world_serves Q G w"
    and run: "fetch_package_metadata L (g_network G) nm (nc_registry (g_config G)) S (g_mode G) w = (w', r)"
  shows "world_serves Q G w' \<and> (\<forall>p. r = Inr p \<longrightarrow> Q nm p) \<and> r \<noteq> Inl OutOfFuel"
proof -
  let ?key = "cache_key (nc_registry (g_config G)) nm"
  have step: "metadata_step (nc_registry (g_config G)) nm w w'"
    by (rule fetch_package_metadata_step [OF run])
  have res: "Q nm p" if r: "r = Inr p" for p
  proof (cases "\<exists>p'. map_of (w_metadata w) ?key = Some (Some p')")
    case True
    then obtain p' where p': "map_of (w_metadata w) ?key = Some (Some p')" by blast
    from fetch_filled [OF p'] run r have "p' = p" by simp
    with p' assms(2) show ?thesis by (simp add: world_serves_def)
  next
    case False
    with run r show ?thesis
      by (auto simp: fetch_package_metadata_def Let_def result_simps cell_of_def
          split: option.splits intro: init_serves [OF assms(1)])
  qed
  have "Q nm' p" if c: "map_of (w_metadata w') (cache_key (nc_registry (g_config G)) nm') = Some (Some p)" for nm' p
  proof (cases "map_of (w_metadata w) (cache_key (nc_registry (g_config G)) nm') = Some (Some p)")
    case True
    with assms(2) show ?thesis by (simp add: world_serves_def)
  next
    case False
    with step c have "nm' = nm" and new: "\<nexists>q. map_of (w_metadata w) ?key = Some (Some q)"
      by (auto simp: metadata_step_def dest!: spec [of _ "cache_key (nc_registry (g_config G)) nm'"])
    moreover have "\<exists>q. r = Inr q \<and> map_of (w_metadata w') ?key = Some (Some q)"
      using run new c \<open>nm' = nm\<close> fetch_fails_empty [OF run new] by (cases r) (auto dest: fetch_fills)
    ultimately show ?thesis using res c by auto
  qed
  moreover have "r \<noteq> Inl OutOfFuel" by (rule fuel_freeD [OF fuel_free_fetch run])
  ultimately show ?thesis using res by (simp add: world_serves_def)
qed

text \<open>The registry gives a package under the name asked for, with releases in \<open>R\<close>.\<close>

definition named :: "('v package_version \<Rightarrow> bool) \<Rightarrow> string \<Rightarrow> 'v package \<Rightarrow> bool" where
  "named R nm p \<longleftrightarrow> (\<forall>v \<in> snd ` set (pk_versions p). pv_name v = nm \<and> R v)"

lemma map_of_mem_snd: "map_of m k = Some v \<Longrightarrow> v \<in> snd ` set m"
  by (auto dest!: map_of_SomeD intro: rev_image_eqI)

lemma version_by_specifier_mem:
  "version_by_specifier X p s = Inr v \<Longrightarrow> v \<in> snd ` set (pk_versions p)"
proof -
  have m: "m \<in> set xs" if "max_by le xs = Some m" for le and m :: "'a package_version" and xs
  proof -
    have "fold (\<lambda>y acc. if le acc y then y else acc) ys x \<in> set (x # ys)" for x ys
      by (induction ys arbitrary: x) (auto split: if_splits)
    with that show ?thesis by (cases xs) auto
  qed
  assume "version_by_specifier X p s = Inr v"
  then show ?thesis
    by (auto simp: version_by_specifier_def version_by_tag_def pinned_version_def result_simps Let_def
        split: sum.splits package_tag.splits dest!: m map_of_mem_snd)
qed

lemma in_world_eq: "in_world m b = (case m (b_world b) of (w, r) \<Rightarrow> (b\<lparr>b_world := w\<rparr>, r))"
  by (simp add: in_world_def act_on_def)

lemma resolve_run:
  assumes "registry_serves (named R) G" and "world_serves (named R) G (b_world b)"
    and "resolve_package_version G nm version_range b = (b', r)"
  shows "b_packages b' = b_packages b \<and> world_serves (named R) G (b_world b')
    \<and> (\<forall>v. r = Inr v \<longrightarrow> pv_name v = nm \<and> R v) \<and> r \<noteq> Inl OutOfFuel"
proof -
  obtain w q where f: "fetch_package_metadata (g_store G) (g_network G) nm (nc_registry (g_config G))
      (nc_store_dir (g_config G)) (g_mode G) (b_world b) = (w, q)"
    by (cases "fetch_package_metadata (g_store G) (g_network G) nm (nc_registry (g_config G))
      (nc_store_dir (g_config G)) (g_mode G) (b_world b)")
  note s = fetch_serves [OF assms(1,2) f]
  have b': "b' = b\<lparr>b_world := w\<rparr>"
    and r: "r = rbind q (\<lambda>p. version_by_specifier (g_extern G) p version_range)"
    using assms(3) by (auto simp: resolve_package_version_def act_bind_def in_world_eq f act_read_def split: sum.splits)
  have "pv_name v = nm \<and> R v" if "r = Inr v" for v
    using that s by (auto simp: r result_simps named_def dest: version_by_specifier_mem)
  moreover have "version_by_specifier X p sp \<noteq> Inl OutOfFuel" for X and p :: "'a package" and sp
    by (auto simp: version_by_specifier_def pinned_version_def result_simps split: sum.splits)
  then have "r \<noteq> Inl OutOfFuel" using s by (auto simp: r result_simps)
  ultimately show ?thesis using s by (simp add: b')
qed

section \<open>The packages that a run adds\<close>

definition good_snapshot :: "'v packages \<Rightarrow> 'v package_snapshot \<Rightarrow> bool" where
  "good_snapshot P s \<longleftrightarrow>
     (\<forall>(n, dep) \<in> set (iter_opt (sn_dependencies s)). \<exists>v. dep = PkgVerPeer v
        \<and> \<lparr> dp_custom_registry = None, dp_package_specifier = \<lparr> ns_name = n, ns_suffix = v \<rparr> \<rparr> \<in> dom (map_of P))
     \<and> sn_optional_dependencies s = None \<and> (\<forall>g. sn_resolution s \<noteq> Git g)"

text \<open>Two snapshots that differ in their flags only.\<close>

definition same_links :: "'v package_snapshot \<Rightarrow> 'v package_snapshot \<Rightarrow> bool" where
  "same_links s t \<longleftrightarrow> sn_dependencies s = sn_dependencies t
     \<and> sn_optional_dependencies s = sn_optional_dependencies t \<and> sn_resolution s = sn_resolution t"

definition extends :: "'v packages \<Rightarrow> 'v packages \<Rightarrow> bool" where
  "extends P P' \<longleftrightarrow>
     dom (map_of P) \<subseteq> dom (map_of P')
     \<and> (\<forall>d s'. map_of P' d = Some s' \<longrightarrow>
          (\<exists>s. map_of P d = Some s \<and> same_links s s') \<or> good_snapshot P' s')"

lemma good_snapshot_mono:
  "good_snapshot P s \<Longrightarrow> dom (map_of P) \<subseteq> dom (map_of P') \<Longrightarrow> good_snapshot P' s"
  unfolding good_snapshot_def by fast

lemma good_same_links: "same_links s t \<Longrightarrow> good_snapshot P s = good_snapshot P t"
  by (simp add: same_links_def good_snapshot_def)

lemma same_links_refl [simp]: "same_links s s"
  by (simp add: same_links_def)

lemma extends_refl: "extends P P"
  unfolding extends_def by auto

lemma extends_trans: "extends P Q \<Longrightarrow> extends Q S \<Longrightarrow> extends P S"
proof -
  assume pq: "extends P Q" and qs: "extends Q S"
  have "(\<exists>s. map_of P d = Some s \<and> same_links s u) \<or> good_snapshot S u" if u: "map_of S d = Some u" for d u
  proof (cases "good_snapshot S u")
    case False
    with qs u obtain t where t: "map_of Q d = Some t" "same_links t u" unfolding extends_def by blast
    have "\<not> good_snapshot Q t"
      using False good_same_links [OF t(2)] good_snapshot_mono [of Q t S] qs by (auto simp: extends_def)
    with pq t(1) obtain s where "map_of P d = Some s" "same_links s t" unfolding extends_def by blast
    with t(2) show ?thesis by (auto simp: same_links_def)
  qed simp
  with pq qs show ?thesis unfolding extends_def by blast
qed

definition builder_extends :: "'v builder \<Rightarrow> 'v builder \<Rightarrow> bool" where
  "builder_extends b b' \<longleftrightarrow> extends (b_packages b) (b_packages b')"

interpretation building: state_order builder_extends
  by unfold_locales (auto simp: builder_extends_def extends_refl intro: extends_trans)

lemma map_of_modify_entry:
  "map_of (modify_entry k f m) = (case map_of m k of None \<Rightarrow> map_of m | Some x \<Rightarrow> (map_of m)(k \<mapsto> f x))"
  by (simp add: modify_entry_def split: option.split)

lemma same_links_merge [simp]: "same_links s (merge_package_flags dev optional s)"
  by (simp add: same_links_def merge_package_flags_def)

lemma extends_merge: "extends P (modify_entry dp (merge_package_flags dev optional) P)"
  by (auto simp: extends_def map_of_modify_entry split: option.splits if_splits)

lemma extends_new:
  assumes "good_snapshot (AList.update dp s P) s"
  shows "extends P (AList.update dp s P)"
  using assms by (auto simp: extends_def split: if_splits)

lemma good_placeholder:
  "(\<And>g. res \<noteq> Git g) \<Longrightarrow> good_snapshot P (placeholder_snapshot res dev optional)"
  by (simp add: good_snapshot_def placeholder_snapshot_def iter_opt_def)

lemma resolution_of_not_Git: "resolution_of G p = Inr res \<Longrightarrow> res \<noteq> Git g"
  by (auto simp: resolution_of_def result_simps split: if_splits)

lemma set_fold_update: "set (fold (\<lambda>(k, v). AList.update k v) xs m) \<subseteq> set m \<union> set xs"
proof (induction xs arbitrary: m)
  case (Cons x xs)
  have "set (AList.update k v m) \<subseteq> insert (k, v) (set m)" for k v
    by (induction m) auto
  with Cons.IH [of "(case x of (k, v) \<Rightarrow> AList.update k v) m"] show ?case by (cases x) auto
qed simp

text \<open>The path of a resolved package, from its name.\<close>

definition package_path :: "pkg_name \<Rightarrow> 'v pkg_ver_peer \<Rightarrow> 'v dependency_path" where
  "package_path n v = \<lparr> dp_custom_registry = None, dp_package_specifier = \<lparr> ns_name = n, ns_suffix = v \<rparr> \<rparr>"

lemma dependency_path_of_Inr:
  "dependency_path_of G p = Inr d \<longleftrightarrow>
     (\<exists>n v. pkg_name_parse (g_extern G) (pv_name p) = Inr n \<and> d = package_path n v
        \<and> pkg_ver_peer_from_str (g_extern G) (show_version (g_extern G) (pv_version p)) = Inr v)"
  by (auto simp: dependency_path_of_def package_specifier_def package_path_def expect_name_def result_simps)

section \<open>One package and what it needs\<close>

abbreviation serves_builder :: "('v package_version \<Rightarrow> bool) \<Rightarrow> ('v, 'r) generator \<Rightarrow> 'v builder \<Rightarrow> bool" where
  "serves_builder R G b \<equiv> world_serves (named R) G (b_world b)"

text \<open>The loop over the dependencies of a package, as an action of its own.\<close>

definition build_child ::
    "nat \<Rightarrow> ('v, 'r) generator \<Rightarrow> 'v package_version \<Rightarrow> bool \<Rightarrow> bool \<Rightarrow> string \<times> string
     \<Rightarrow> ('v builder, registry_error failure, pkg_name \<times> 'v package_snapshot_dependency) action" where
  "build_child fuel G p dev optional = (\<lambda>(nm, version_range).
     act_bind (resolve_package_version G nm version_range) (\<lambda>child.
     let child_optional = child_optional_flag p optional nm
     in act_bind (act_read (\<lambda>_. expect_name (g_extern G) ''registry dependency name is valid'' nm)) (\<lambda>name.
        act_bind (act_read (\<lambda>_. package_specifier G child)) (\<lambda>spec.
        act_then (build_package_snapshot fuel G child dev child_optional)
        (act_return (name, PkgVerPeer (ns_suffix spec)))))))"

lemma build_Suc:
  "build_package_snapshot (Suc fuel) G p dev optional =
     act_bind (act_read (\<lambda>_. dependency_path_of G p)) (\<lambda>dp.
     act_bind (act_read (\<lambda>b. Inr (map_of (b_packages b) dp))) (\<lambda>present.
     if present \<noteq> None then modify_packages (modify_entry dp (merge_package_flags dev optional))
     else
       act_bind (act_read (\<lambda>_. resolution_of G p)) (\<lambda>res.
       act_then (modify_packages (AList.update dp (placeholder_snapshot res dev optional)))
       (act_bind (act_each (build_child fuel G p dev optional)
          (package_dependencies p (nc_auto_install_peers (g_config G)))) (\<lambda>inserted.
        modify_packages (modify_entry dp
          (\<lambda>s. merge_package_flags dev optional
             (s\<lparr>sn_dependencies := non_empty (fold (\<lambda>(k, v). AList.update k v) inserted [])\<rparr>))))))))"
  by (simp only: build_package_snapshot.simps(2) build_child_def Let_def)

lemma modify_packages_eq:
  "modify_packages f b = (b', r) \<longleftrightarrow> b' = b\<lparr>b_packages := f (b_packages b)\<rparr> \<and> r = Inr ()"
  by (auto simp: modify_packages_def)

declare build_package_snapshot.simps(2) [simp del]

text \<open>
  A successful run keeps what the registry serves, extends the packages, and leaves the path of
  its package in them.
\<close>

text \<open>The children of a package, when the recursion does what it should.\<close>

lemma build_children_run:
  assumes serves: "registry_serves (named R) G"
    and ih: "\<And>p dev optional b b'. build_package_snapshot fuel G p dev optional b = (b', Inr ()) \<Longrightarrow> serves_builder R G b \<Longrightarrow>
      serves_builder R G b' \<and> builder_extends b b'
      \<and> (\<exists>d. dependency_path_of G p = Inr d \<and> d \<in> dom (map_of (b_packages b')))"
    and loop: "act_each (build_child fuel G p dev optional) deps b1 = (b2, Inr inserted)"
    and start: "serves_builder R G b1"
  shows "serves_builder R G b2 \<and> builder_extends b1 b2
    \<and> (\<forall>y \<in> set inserted. \<exists>v. snd y = PkgVerPeer v \<and> package_path (fst y) v \<in> dom (map_of (b_packages b2)))"
proof -
  let ?link = "\<lambda>y s. \<exists>v. snd y = PkgVerPeer v \<and> package_path (fst y) v \<in> dom (map_of (b_packages s))"
  have r: "serves_builder R G b2 \<and> builder_extends b1 b2 \<and> list_all2 (\<lambda>x y. ?link y b2) deps inserted"
  proof (rule building.each_run [where Q = "\<lambda>x y s. ?link y s", OF _ _ loop])
    fix x s s' y
    assume s: "serves_builder R G s" and "build_child fuel G p dev optional x s = (s', Inr y)"
    moreover obtain nm rg where x: "x = (nm, rg)" by (cases x)
    ultimately obtain s1 child n spec where
      r: "resolve_package_version G nm rg s = (s1, Inr child)"
      and n: "pkg_name_parse (g_extern G) nm = Inr n"
      and spec: "package_specifier G child = Inr spec"
      and build: "build_package_snapshot fuel G child dev (child_optional_flag p optional nm) s1 = (s', Inr ())"
      and y: "y = (n, PkgVerPeer (ns_suffix spec))"
      by (auto simp: build_child_def Let_def result_simps expect_name_def)
    note rr = resolve_run [OF serves s r]
    from ih [OF build] rr have built: "serves_builder R G s'" "builder_extends s1 s'"
      "\<exists>d. dependency_path_of G child = Inr d \<and> d \<in> dom (map_of (b_packages s'))" by auto
    have "pv_name child = nm" using rr by simp
    then have "dependency_path_of G child = Inr (package_path n (ns_suffix spec))"
      using spec n by (auto simp: dependency_path_of_def package_specifier_def expect_name_def result_simps
          package_path_def)
    with built rr y show "serves_builder R G s' \<and> builder_extends s s' \<and> ?link y s'"
      by (auto simp: builder_extends_def)
  next
    fix x :: "string \<times> string" and y s s' assume y: "?link y s" and "builder_extends s s'"
    then have "dom (map_of (b_packages s)) \<subseteq> dom (map_of (b_packages s'))"
      by (simp add: builder_extends_def extends_def)
    with y show "?link y s'" by blast
  qed (rule start)
  moreover have "?link y b2" if "y \<in> set inserted" for y
    using r that unfolding list_all2_conv_all_nth in_set_conv_nth by auto
  ultimately show ?thesis by blast
qed

text \<open>The entry of a package is complete when its dependencies, all of them present, are recorded in it.\<close>

lemma record_dependencies:
  assumes ext: "extends (AList.update dp (placeholder_snapshot res dev optional) P0) P2"
    and nogit: "\<And>g. res \<noteq> Git g"
    and links: "\<forall>y \<in> set inserted. \<exists>v. snd y = PkgVerPeer v \<and> package_path (fst y) v \<in> dom (map_of P2)"
    and P: "P = modify_entry dp (\<lambda>s. merge_package_flags dev optional
        (s\<lparr>sn_dependencies := non_empty (fold (\<lambda>(k, v). AList.update k v) inserted [])\<rparr>)) P2"
  shows "extends P0 P \<and> dp \<in> dom (map_of P)"
proof -
  let ?P1 = "AList.update dp (placeholder_snapshot res dev optional) P0"
  have dp2: "dp \<in> dom (map_of P2)" using ext by (auto simp: extends_def)
  then obtain s2 where s2: "map_of P2 dp = Some s2" by auto
  let ?s = "merge_package_flags dev optional
      (s2\<lparr>sn_dependencies := non_empty (fold (\<lambda>(k, v). AList.update k v) inserted [])\<rparr>)"
  have mP: "map_of P = (map_of P2)(dp \<mapsto> ?s)" using s2 by (simp add: P map_of_modify_entry)
  have domP: "dom (map_of P) = dom (map_of P2)" using dp2 by (auto simp: mP)
  have s2good: "good_snapshot P2 s2"
  proof (cases "good_snapshot P2 s2")
    case False
    with ext s2 obtain s where "map_of ?P1 dp = Some s" "same_links s s2" unfolding extends_def by blast
    then show ?thesis using good_same_links good_placeholder [OF nogit] by fastforce
  qed
  have sub: "set (iter_opt (non_empty (fold (\<lambda>(k, v). AList.update k v) inserted []))) \<subseteq> set inserted"
    using set_fold_update [of inserted "[]"] by (auto simp: iter_opt_def non_empty_def)
  have good: "good_snapshot P ?s"
    unfolding good_snapshot_def domP
    using s2good links sub by (force simp: good_snapshot_def merge_package_flags_def package_path_def)
  have "extends P0 P"
    unfolding extends_def
  proof (intro conjI allI impI)
    show "dom (map_of P0) \<subseteq> dom (map_of P)" using ext by (auto simp: domP extends_def)
    fix d s' assume d: "map_of P d = Some s'"
    show "(\<exists>s. map_of P0 d = Some s \<and> same_links s s') \<or> good_snapshot P s'"
    proof (cases "d = dp")
      case True
      with d mP good show ?thesis by simp
    next
      case False
      with d mP have "map_of P2 d = Some s'" by simp
      with ext have "(\<exists>s. map_of ?P1 d = Some s \<and> same_links s s') \<or> good_snapshot P2 s'"
        unfolding extends_def by blast
      with False show ?thesis using good_snapshot_mono [of P2 s' P] domP by auto
    qed
  qed
  with dp2 domP show ?thesis by simp
qed

lemma build_run:
  assumes serves: "registry_serves (named R) G"
  shows "build_package_snapshot fuel G p dev optional b = (b', Inr ()) \<Longrightarrow> serves_builder R G b \<Longrightarrow>
    serves_builder R G b' \<and> builder_extends b b'
    \<and> (\<exists>d. dependency_path_of G p = Inr d \<and> d \<in> dom (map_of (b_packages b')))"
proof (induction fuel arbitrary: p dev optional b b')
  case 0
  then show ?case by (simp add: act_simps)
next
  case (Suc fuel)
  from Suc.prems(1) obtain dp where dp: "dependency_path_of G p = Inr dp"
    by (auto simp: build_Suc result_simps)
  show ?case
  proof (cases "map_of (b_packages b) dp")
    case (Some s)
    with Suc.prems(1) dp have b': "b' = b\<lparr>b_packages := modify_entry dp (merge_package_flags dev optional) (b_packages b)\<rparr>"
      by (auto simp: build_Suc result_simps modify_packages_eq)
    show ?thesis
      using Suc.prems(2) dp Some by (auto simp: b' builder_extends_def extends_merge map_of_modify_entry)
  next
    case None
    with Suc.prems(1) dp obtain res b2 inserted where
      res: "resolution_of G p = Inr res"
      and loop: "act_each (build_child fuel G p dev optional)
          (package_dependencies p (nc_auto_install_peers (g_config G)))
          (b\<lparr>b_packages := AList.update dp (placeholder_snapshot res dev optional) (b_packages b)\<rparr>)
        = (b2, Inr inserted)"
      and b': "b' = b2\<lparr>b_packages := modify_entry dp (\<lambda>s. merge_package_flags dev optional
          (s\<lparr>sn_dependencies := non_empty (fold (\<lambda>(k, v). AList.update k v) inserted [])\<rparr>)) (b_packages b2)\<rparr>"
      by (auto simp: build_Suc result_simps modify_packages_eq)
    from build_children_run [OF serves Suc.IH loop] Suc.prems(2)
    have children: "serves_builder R G b2"
      "extends (AList.update dp (placeholder_snapshot res dev optional) (b_packages b)) (b_packages b2)"
      "\<forall>y \<in> set inserted. \<exists>v. snd y = PkgVerPeer v \<and> package_path (fst y) v \<in> dom (map_of (b_packages b2))"
      by (simp_all add: builder_extends_def)
    from record_dependencies [OF children(2) resolution_of_not_Git [OF res] children(3)]
    have "extends (b_packages b) (b_packages b') \<and> dp \<in> dom (map_of (b_packages b'))" by (simp add: b')
    moreover have "serves_builder R G b'" using children(1) by (simp add: b')
    ultimately show ?thesis using dp by (simp add: builder_extends_def)
  qed
qed

section \<open>How much fuel is enough\<close>

text \<open>
  When the registry can only lead to the package paths of a finite set \<open>U\<close>, every level of the
  recursion adds a new one of them to the packages: the number of paths still missing bounds the
  depth.
\<close>

definition within :: "('v, 'r) generator \<Rightarrow> 'v dependency_path set \<Rightarrow> 'v package_version \<Rightarrow> bool" where
  "within G U p \<longleftrightarrow> (\<forall>d. dependency_path_of G p = Inr d \<longrightarrow> d \<in> U)"

lemma card_extends:
  assumes "finite U" and "builder_extends b b'"
  shows "card (U - dom (map_of (b_packages b'))) \<le> card (U - dom (map_of (b_packages b)))"
  using assms by (intro card_mono) (auto simp: builder_extends_def extends_def)

text \<open>What a build calls before it recurses has no fuel to run out of.\<close>

lemma no_fuel_in_names:
  "dependency_path_of G p \<noteq> Inl OutOfFuel" "resolution_of G p \<noteq> Inl OutOfFuel"
  "expect_name (g_extern G) m n \<noteq> Inl OutOfFuel" "package_specifier G v \<noteq> Inl OutOfFuel"
  by (auto simp: dependency_path_of_def package_specifier_def expect_name_def resolution_of_def result_simps)

text \<open>The child at which the loop over the dependencies stopped.\<close>

lemma loop_fails_at_child:
  assumes serves: "registry_serves (named R) G" and b: "serves_builder R G b"
    and loop: "act_each (build_child fuel G p dev optional) ds b = (b', Inl e)"
  obtains nm rg s where "serves_builder R G s" "builder_extends b s"
    and "build_child fuel G p dev optional (nm, rg) s = (b', Inl e)"
proof -
  have "\<exists>x \<in> set ds. \<exists>s. serves_builder R G s \<and> builder_extends b s \<and> build_child fuel G p dev optional x s = (b', Inl e)"
  proof (rule building.each_fail [OF _ loop, of "serves_builder R G"])
    show "serves_builder R G b" by (rule b)
  next
    fix x s s' y assume s: "serves_builder R G s" and "build_child fuel G p dev optional x s = (s', Inr y)"
    moreover obtain nm rg where "x = (nm, rg)" by (cases x)
    ultimately obtain s1 child where r: "resolve_package_version G nm rg s = (s1, Inr child)"
      and build: "build_package_snapshot fuel G child dev (child_optional_flag p optional nm) s1 = (s', Inr ())"
      by (auto simp: build_child_def Let_def result_simps)
    from resolve_run [OF serves s r] build_run [OF serves build]
    show "serves_builder R G s' \<and> builder_extends s s'" by (simp add: builder_extends_def)
  qed
  with that show thesis by auto
qed

text \<open>A child that runs out of fuel does so in its build.\<close>

lemma child_out_of_fuel:
  assumes serves: "registry_serves (named R) G" and s: "serves_builder R G s"
    and fail: "build_child fuel G p dev optional (nm, rg) s = (b', Inl OutOfFuel)"
  obtains s1 child where "resolve_package_version G nm rg s = (s1, Inr child)"
    and "build_package_snapshot fuel G child dev (child_optional_flag p optional nm) s1 = (b', Inl OutOfFuel)"
proof -
  have "resolve_package_version G nm rg s \<noteq> (b', Inl OutOfFuel)"
    using resolve_run [OF serves s, of nm rg b' "Inl OutOfFuel"] by auto
  with fail that show thesis
    by (auto simp: build_child_def Let_def result_simps no_fuel_in_names)
qed

lemma build_fuel:
  assumes serves: "registry_serves (named (within G U)) G" and fin: "finite U"
  shows "build_package_snapshot fuel G p dev optional b = (b', Inl e) \<Longrightarrow>
    serves_builder (within G U) G b \<Longrightarrow> within G U p \<Longrightarrow>
    card (U - dom (map_of (b_packages b))) < fuel \<Longrightarrow> e \<noteq> OutOfFuel"
proof (induction fuel arbitrary: p dev optional b b')
  case 0
  then show ?case by simp
next
  case (Suc fuel)
  show ?case
  proof
    assume e: "e = OutOfFuel"
    with Suc.prems(1) obtain dp res where dp: "dependency_path_of G p = Inr dp"
      and None: "map_of (b_packages b) dp = None" and res: "resolution_of G p = Inr res"
      by (auto simp: build_Suc result_simps modify_packages_eq no_fuel_in_names split: if_splits)
    let ?b1 = "b\<lparr>b_packages := AList.update dp (placeholder_snapshot res dev optional) (b_packages b)\<rparr>"
    from Suc.prems(1) dp None res have loop: "act_each (build_child fuel G p dev optional)
          (package_dependencies p (nc_auto_install_peers (g_config G))) ?b1 = (b', Inl e)"
      by (auto simp: build_Suc result_simps modify_packages_eq)
    obtain nm rg s where s: "serves_builder (within G U) G s" "builder_extends ?b1 s"
      and fail: "build_child fuel G p dev optional (nm, rg) s = (b', Inl e)"
      using Suc.prems(2) by (auto intro: loop_fails_at_child [OF serves _ loop])
    obtain s1 child where r: "resolve_package_version G nm rg s = (s1, Inr child)"
      and b: "build_package_snapshot fuel G child dev (child_optional_flag p optional nm) s1 = (b', Inl e)"
      using fail e by (auto intro: child_out_of_fuel [OF serves s(1)])
    note rr = resolve_run [OF serves s(1) r]
    from dp Suc.prems(3) None have "U - dom (map_of (b_packages ?b1)) \<subset> U - dom (map_of (b_packages b))"
      by (auto simp: within_def)
    then have "card (U - dom (map_of (b_packages ?b1))) < card (U - dom (map_of (b_packages b)))"
      using fin by (intro psubset_card_mono) auto
    moreover have "card (U - dom (map_of (b_packages s1))) \<le> card (U - dom (map_of (b_packages ?b1)))"
      using card_extends [OF fin s(2)] rr by simp
    ultimately have "card (U - dom (map_of (b_packages s1))) < fuel" using Suc.prems(4) by simp
    with Suc.IH [OF b] rr e show False by simp
  qed
qed

end
