(* ===== verification/Generated_Lockfile.thy ===== *)
theory Generated_Lockfile
  imports Generate_Lockfile
begin

text \<open>
  What \<^verbatim>\<open>GenerateLockfile\<close> promises: it returns when the registry leads to finitely many packages,
  and the lockfile it returns is closed, so that an installation from it finds every package.
\<close>

section \<open>The direct dependencies of one group\<close>

text \<open>The loop of \<^verbatim>\<open>build_root_group\<close>, as an action of its own.\<close>

definition root_entry ::
    "nat \<Rightarrow> ('v, 'r) generator \<Rightarrow> dependency_group \<Rightarrow> string \<times> string
     \<Rightarrow> ('v builder, registry_error failure, pkg_name \<times> 'v resolved_dependency_spec) action" where
  "root_entry fuel G g = (\<lambda>(nm, specifier).
     act_bind (resolve_package_version G nm specifier) (\<lambda>p.
     act_bind (act_read (\<lambda>_. map_ok ns_suffix (package_specifier G p))) (\<lambda>resolved_version.
     act_bind (act_read (\<lambda>_. expect_name (g_extern G) ''package name from manifest is valid'' nm)) (\<lambda>name.
     act_then (build_package_snapshot fuel G p (g = Dev) (g = Optional))
     (act_return (name, \<lparr> rd_specifier = specifier, rd_version = resolved_version \<rparr>))))))"

lemma build_root_group_eq:
  "build_root_group fuel G M groups g =
     (if g \<notin> set groups then act_return None
      else act_bind (act_each (root_entry fuel G g) (manifest_dependencies M [g]))
        (\<lambda>inserted. act_return (non_empty (fold (\<lambda>(k, v). AList.update k v) inserted []))))"
  by (simp add: build_root_group_def root_entry_def)

lemma set_non_empty_fold: "set (iter_opt (non_empty (fold (\<lambda>(k, v). AList.update k v) xs []))) \<subseteq> set xs"
  using set_fold_update [of xs "[]"] by (auto simp: iter_opt_def non_empty_def)

text \<open>Every entry of a dependency map has its package in the packages.\<close>

definition links_to :: "'v packages \<Rightarrow> 'v resolved_dependency_map option \<Rightarrow> bool" where
  "links_to P m \<longleftrightarrow> (\<forall>(n, d) \<in> set (iter_opt m). package_path n (rd_version d) \<in> dom (map_of P))"

lemma links_to_mono: "links_to P m \<Longrightarrow> dom (map_of P) \<subseteq> dom (map_of P') \<Longrightarrow> links_to P' m"
  unfolding links_to_def by fast

lemma root_entry_run:
  assumes serves: "registry_serves (named R) G" and b: "serves_builder R G b"
    and run: "root_entry fuel G g x b = (b', Inr y)"
  shows "serves_builder R G b' \<and> builder_extends b b'
    \<and> package_path (fst y) (rd_version (snd y)) \<in> dom (map_of (b_packages b'))"
proof -
  obtain nm spec where x: "x = (nm, spec)" by (cases x)
  with run obtain s1 p n ps where
    r: "resolve_package_version G nm spec b = (s1, Inr p)"
    and ps: "package_specifier G p = Inr ps"
    and n: "pkg_name_parse (g_extern G) nm = Inr n"
    and build: "build_package_snapshot fuel G p (g = Dev) (g = Optional) s1 = (b', Inr ())"
    and y: "y = (n, \<lparr> rd_specifier = spec, rd_version = ns_suffix ps \<rparr>)"
    by (auto simp: root_entry_def result_simps expect_name_def)
  note rr = resolve_run [OF serves b r]
  from build_run [OF serves build] rr
  have s: "serves_builder R G b'" "builder_extends s1 b'"
    "\<exists>d. dependency_path_of G p = Inr d \<and> d \<in> dom (map_of (b_packages b'))" by auto
  have "dependency_path_of G p = Inr (package_path n (ns_suffix ps))"
    using rr ps n by (auto simp: dependency_path_of_def package_specifier_def expect_name_def result_simps
        package_path_def)
  with s rr y show ?thesis by (auto simp: builder_extends_def)
qed

lemma root_group_run:
  assumes serves: "registry_serves (named R) G" and b: "serves_builder R G b"
    and run: "build_root_group fuel G M groups g b = (b', Inr m)"
  shows "serves_builder R G b' \<and> builder_extends b b' \<and> links_to (b_packages b') m"
proof (cases "g \<in> set groups")
  case False
  with run b show ?thesis by (auto simp: build_root_group_eq result_simps links_to_def iter_opt_def building.refl)
next
  case True
  with run obtain inserted where loop: "act_each (root_entry fuel G g) (manifest_dependencies M [g]) b = (b', Inr inserted)"
    and m: "m = non_empty (fold (\<lambda>(k, v). AList.update k v) inserted [])"
    by (auto simp: build_root_group_eq result_simps)
  have "serves_builder R G b' \<and> builder_extends b b'
    \<and> list_all2 (\<lambda>x y. package_path (fst y) (rd_version (snd y)) \<in> dom (map_of (b_packages b')))
        (manifest_dependencies M [g]) inserted"
  proof (rule building.each_run [where I = "serves_builder R G"
        and Q = "\<lambda>x y s. package_path (fst y) (rd_version (snd y)) \<in> dom (map_of (b_packages s))", OF _ _ loop b])
    show "serves_builder R G s' \<and> builder_extends s s' \<and> package_path (fst y) (rd_version (snd y)) \<in> dom (map_of (b_packages s'))"
      if "serves_builder R G s" "root_entry fuel G g x s = (s', Inr y)" for x s s' y
      by (rule root_entry_run [OF serves that])
    show "package_path (fst y) (rd_version (snd y)) \<in> dom (map_of (b_packages s'))"
      if "package_path (fst y) (rd_version (snd y)) \<in> dom (map_of (b_packages s))" "builder_extends s s'"
      for y :: "pkg_name \<times> 'a resolved_dependency_spec" and s s'
      using that by (auto simp: builder_extends_def extends_def)
  qed
  then have e: "serves_builder R G b'" "builder_extends b b'"
    and all: "list_all2 (\<lambda>x y. package_path (fst y) (rd_version (snd y)) \<in> dom (map_of (b_packages b')))
        (manifest_dependencies M [g]) inserted" by blast+
  have "package_path (fst y) (rd_version (snd y)) \<in> dom (map_of (b_packages b'))" if "y \<in> set inserted" for y
    using all that unfolding list_all2_conv_all_nth in_set_conv_nth by auto
  then have "links_to (b_packages b') m"
    using set_non_empty_fold [of inserted] unfolding links_to_def m by (fastforce simp: split_beta)
  with e show ?thesis by blast
qed

lemma root_entry_fuel:
  assumes serves: "registry_serves (named (within G U)) G" and fin: "finite U"
    and b: "serves_builder (within G U) G b" and fuel: "card U < fuel"
  shows "root_entry fuel G g x b \<noteq> (b', Inl OutOfFuel)"
proof
  assume run: "root_entry fuel G g x b = (b', Inl OutOfFuel)"
  obtain nm spec where x: "x = (nm, spec)" by (cases x)
  have nf: "expect_name (g_extern G) m n \<noteq> Inl OutOfFuel" "package_specifier G v \<noteq> Inl OutOfFuel" for m n v
    by (auto simp: package_specifier_def expect_name_def result_simps)
  have nr: "resolve_package_version G nm spec b \<noteq> (b', Inl OutOfFuel)"
    using resolve_run [OF serves b, of nm spec b' "Inl OutOfFuel"] by auto
  from run nf nr obtain s1 p where r: "resolve_package_version G nm spec b = (s1, Inr p)"
    and build: "build_package_snapshot fuel G p (g = Dev) (g = Optional) s1 = (b', Inl OutOfFuel)"
    by (auto simp: root_entry_def x result_simps)
  note rr = resolve_run [OF serves b r]
  have "card (U - dom (map_of (b_packages s1))) \<le> card U" by (rule card_mono [OF fin]) auto
  with fuel have "card (U - dom (map_of (b_packages s1))) < fuel" by simp
  with build_fuel [OF serves fin build] rr show False by simp
qed

lemma root_group_fuel:
  assumes serves: "registry_serves (named (within G U)) G" and fin: "finite U"
    and b: "serves_builder (within G U) G b" and fuel: "card U < fuel"
  shows "build_root_group fuel G M groups g b \<noteq> (b', Inl OutOfFuel)"
proof
  assume run: "build_root_group fuel G M groups g b = (b', Inl OutOfFuel)"
  then have loop: "act_each (root_entry fuel G g) (manifest_dependencies M [g]) b = (b', Inl OutOfFuel)"
    by (auto simp: build_root_group_eq result_simps split: if_splits)
  have "\<exists>x \<in> set (manifest_dependencies M [g]). \<exists>s. serves_builder (within G U) G s
      \<and> builder_extends b s \<and> root_entry fuel G g x s = (b', Inl OutOfFuel)"
  proof (rule building.each_fail [where I = "serves_builder (within G U) G", OF _ loop b])
    show "serves_builder (within G U) G s' \<and> builder_extends s s'"
      if "serves_builder (within G U) G s" "root_entry fuel G g x s = (s', Inr y)" for x s s' y
      using root_entry_run [OF serves that] by blast
  qed
  with root_entry_fuel [OF serves fin _ fuel] show False by blast
qed

section \<open>The lockfile\<close>

definition start_builder :: "'v world \<Rightarrow> 'v builder" where
  "start_builder w = \<lparr> b_world = w, b_packages = [] \<rparr>"

lemma generate_run:
  assumes "generate_lockfile fuel G M groups w = (w', Inr lf)"
  obtains b1 b2 b3 d1 d2 d3 where
    "build_root_group fuel G M groups Prod (start_builder w) = (b1, Inr d1)"
    "build_root_group fuel G M groups Optional b1 = (b2, Inr d2)"
    "build_root_group fuel G M groups Dev b2 = (b3, Inr d3)"
    "lf_project_snapshot lf = Single
       \<lparr> ps_specifiers = None, ps_dependencies = d1, ps_optional_dependencies = d2, ps_dev_dependencies = d3,
         ps_dependencies_meta = None, ps_publish_directory = None \<rparr>"
    "lf_packages lf = non_empty (b_packages b3)" "w' = b_world b3"
  using assms unfolding generate_lockfile_def start_builder_def
  by (auto simp: result_simps split: prod.splits)

lemma generate_out_of_fuel:
  assumes serves: "registry_serves (named (within G U)) G" and fin: "finite U"
    and w: "world_serves (named (within G U)) G w" and fuel: "card U < fuel"
  shows "generate_lockfile fuel G M groups w \<noteq> (w', Inl OutOfFuel)"
proof
  assume run: "generate_lockfile fuel G M groups w = (w', Inl OutOfFuel)"
  have b0: "serves_builder (within G U) G (start_builder w)" using w by (simp add: start_builder_def)
  note nf = root_group_fuel [OF serves fin _ fuel]
  note nr = root_group_run [OF serves]
  from run nf [OF b0] obtain b1 d1 where
    r1: "build_root_group fuel G M groups Prod (start_builder w) = (b1, Inr d1)"
    and rest: "(\<exists>b. build_root_group fuel G M groups Optional b1 = (b, Inl OutOfFuel))
      \<or> (\<exists>b2 d2 b. build_root_group fuel G M groups Optional b1 = (b2, Inr d2)
           \<and> build_root_group fuel G M groups Dev b2 = (b, Inl OutOfFuel))"
    unfolding generate_lockfile_def start_builder_def
    by (auto simp: result_simps split: prod.splits)
  from nr [OF b0 r1] have s1: "serves_builder (within G U) G b1" by blast
  from rest nf [OF s1] obtain b2 d2 b where
    r2: "build_root_group fuel G M groups Optional b1 = (b2, Inr d2)"
    and r3: "build_root_group fuel G M groups Dev b2 = (b, Inl OutOfFuel)" by blast
  from nr [OF s1 r2] have "serves_builder (within G U) G b2" by blast
  with nf r3 show False by blast
qed

lemma refines_generate:
  assumes "fuel \<le> fuel'" and "snd (generate_lockfile fuel G M groups w) \<noteq> Inl OutOfFuel"
  shows "generate_lockfile fuel' G M groups w = generate_lockfile fuel G M groups w"
proof -
  let ?m = "\<lambda>fuel. act_bind (build_root_group fuel G M groups Prod) (\<lambda>dependencies.
             act_bind (build_root_group fuel G M groups Optional) (\<lambda>optional_dependencies.
             act_bind (build_root_group fuel G M groups Dev) (\<lambda>dev_dependencies.
             act_bind (act_read (\<lambda>b. Inr (b_packages b))) (\<lambda>packages.
             act_return
               \<lparr> lf_lockfile_version = \<lparr> cv_major = 6, cv_minor = 0 \<rparr>,
                 lf_settings = Some \<lparr> ls_auto_install_peers = nc_auto_install_peers (g_config G),
                                      ls_exclude_links_from_lockfile = False \<rparr>,
                 lf_never_built_dependencies = None,
                 lf_overrides = None,
                 lf_project_snapshot = Single
                   \<lparr> ps_specifiers = None, ps_dependencies = dependencies,
                     ps_optional_dependencies = optional_dependencies,
                     ps_dev_dependencies = dev_dependencies, ps_dependencies_meta = None,
                     ps_publish_directory = None \<rparr>,
                 lf_packages = non_empty packages \<rparr>))))"
  have "refines OutOfFuel (?m fuel) (?m fuel')"
    by (intro refines_bind refines_refl refines_root_group [OF assms(1)])
  then have "snd (?m fuel (start_builder w)) = Inl OutOfFuel \<or> ?m fuel' (start_builder w) = ?m fuel (start_builder w)"
    unfolding refines_def by blast
  moreover have "generate_lockfile k G M groups w = (\<lambda>(b, r). (b_world b, r)) (?m k (start_builder w))" for k
    by (simp add: generate_lockfile_def start_builder_def)
  ultimately show ?thesis using assms(2) by (auto split: prod.splits)
qed


section \<open>Installing from a generated lockfile\<close>

lemma traverse_ok:
  assumes "\<And>x. x \<in> set xs \<Longrightarrow> \<exists>y \<in> Q. f x = Inr y"
  obtains ys where "traverse f xs = Inr ys" "set ys \<subseteq> Q"
proof -
  from assms have "\<exists>ys. traverse f xs = Inr ys \<and> set ys \<subseteq> Q"
  proof (induction xs)
    case (Cons x xs)
    then obtain y ys where "f x = Inr y" "y \<in> Q" "traverse f xs = Inr ys" "set ys \<subseteq> Q"
      by (metis list.set_intros)
    then show ?case by (intro exI [of _ "y # ys"]) simp
  qed simp
  with that show thesis by blast
qed

lemma resolve_in_dom:
  assumes "package_path n v \<in> dom (map_of P)"
  shows "\<exists>c \<in> dom (map_of P). resolve_by_specifier (index_new X P) reg \<lparr> ns_name = n, ns_suffix = v \<rparr> = Some c"
proof (cases "resolve_by_specifier (index_new X P) reg \<lparr> ns_name = n, ns_suffix = v \<rparr>")
  case None
  then have "dp_package_specifier (package_path n v) \<noteq> \<lparr> ns_name = n, ns_suffix = v \<rparr>"
    using assms unfolding resolve_by_specifier_None dom_map_of_conv_image_fst by blast
  then show ?thesis by (simp add: package_path_def)
next
  case (Some c)
  from resolve_by_specifier_Some [OF Some] Some show ?thesis by (auto simp: dom_map_of_conv_image_fst)
qed

lemma good_reachable:
  assumes good: "\<And>d s. map_of P d = Some s \<Longrightarrow> good_snapshot P s"
    and roots: "\<And>r. r \<in> set roots \<Longrightarrow> r \<in> dom (map_of P)"
    and reach: "reachable X (index_new X P) P roots p"
  shows "p \<in> dom (map_of P) \<and> selectable X (index_new X P) P p"
proof -
  have sel: "selectable X (index_new X P) P p \<and> set (children_of X (index_new X P) P p) \<subseteq> dom (map_of P)"
    if p: "p \<in> dom (map_of P)" for p
  proof -
    from p obtain s where s: "map_of P p = Some s" by auto
    note g = good [OF s, unfolded good_snapshot_def]
    have child: "\<exists>c \<in> dom (map_of P). resolve_snapshot_dependency (index_new X P) p n d = Some c"
      if "(n, d) \<in> set (iter_opt (sn_dependencies s))" for n d
    proof -
      from g have "\<forall>x \<in> set (iter_opt (sn_dependencies s)).
          \<exists>v. snd x = PkgVerPeer v \<and> package_path (fst x) v \<in> dom (map_of P)"
        by (simp add: package_path_def split_beta)
      from bspec [OF this that] obtain v where d: "d = PkgVerPeer v" and m: "package_path n v \<in> dom (map_of P)"
        by auto
      from resolve_in_dom [OF m] obtain c where "c \<in> dom (map_of P)"
        and c: "resolve_by_specifier (index_new X P) (dp_custom_registry p) \<lparr> ns_name = n, ns_suffix = v \<rparr> = Some c"
        by blast
      with c d show ?thesis by (simp add: resolve_snapshot_dependency_def)
    qed
    obtain cs where cs: "traverse (\<lambda>(nm, dependency).
              ok_or (ResolvePackage (pkg_name_to_string nm)) (resolve_snapshot_dependency (index_new X P) p nm dependency))
            (iter_opt (sn_dependencies s)) = Inr cs" "set cs \<subseteq> dom (map_of P)"
    proof (rule traverse_ok)
      fix x assume "x \<in> set (iter_opt (sn_dependencies s))"
      with child [of "fst x" "snd x"] show "\<exists>y \<in> dom (map_of P). (case x of (nm, dependency) \<Rightarrow>
          ok_or (ResolvePackage (pkg_name_to_string nm)) (resolve_snapshot_dependency (index_new X P) p nm dependency)) = Inr y"
        by (auto simp: split_beta)
    qed blast
    have "snapshot_children X (index_new X P) p s = Inr cs"
      using cs(1) g by (simp add: snapshot_children_def iter_opt_def)
    with s g cs(2) show ?thesis
      by (auto simp: selectable_def children_of_def split: lockfile_resolution.split)
  qed
  from reach have "p \<in> dom (map_of P)"
    by (induction rule: reachable.induct) (use roots sel in blast)+
  with sel show ?thesis by blast
qed

lemma links_root_paths:
  assumes "\<And>g m. get_map_by_group project g = m \<Longrightarrow> links_to P m"
  shows "\<exists>roots. root_dependency_paths project (index_new X P) groups = Inr roots \<and> set roots \<subseteq> dom (map_of P)"
proof -
  have one: "\<exists>c \<in> dom (map_of P). resolve_root_dependency (index_new X P) n (rd_version d) = Some c"
    if "(n, d) \<in> set (dependencies_by_groups project groups)" for n d
  proof -
    from that obtain g m where "get_map_by_group project g = Some m" "(n, d) \<in> set m"
      by (auto simp: dependencies_by_groups_def set_map_filter_iff)
    with assms have "package_path n (rd_version d) \<in> dom (map_of P)"
      by (fastforce simp: links_to_def iter_opt_def)
    from resolve_in_dom [OF this] show ?thesis by (simp add: resolve_root_dependency_def)
  qed
  show ?thesis unfolding root_dependency_paths_def
  proof (rule traverse_ok)
    fix x assume "x \<in> set (dependencies_by_groups project groups)"
    with one [of "fst x" "snd x"] show "\<exists>y \<in> dom (map_of P). (case x of (nm, dependency) \<Rightarrow>
        ok_or (ResolvePackage (pkg_name_to_string nm))
          (resolve_root_dependency (index_new X P) nm (rd_version dependency))) = Inr y"
      by (auto simp: split_beta)
  qed blast
qed

lemma extends_Nil: "extends [] P \<Longrightarrow> map_of P d = Some s \<Longrightarrow> good_snapshot P s"
  unfolding extends_def by simp

text \<open>Every link of a generated lockfile, of the project and of the packages, leads to a package.\<close>

lemma generated_links:
  assumes serves: "registry_serves (named (\<lambda>_. True)) G" and w: "world_serves (named (\<lambda>_. True)) G w"
    and run: "generate_lockfile fuel G M groups w = (w', Inr lf)"
  obtains project where "lf_project_snapshot lf = Single project"
    and "\<And>d s. map_of (iter_opt (lf_packages lf)) d = Some s \<Longrightarrow> good_snapshot (iter_opt (lf_packages lf)) s"
    and "\<And>g. links_to (iter_opt (lf_packages lf)) (get_map_by_group project g)"
proof -
  obtain b1 b2 b3 d1 d2 d3 where
    r1: "build_root_group fuel G M groups Prod (start_builder w) = (b1, Inr d1)" and
    r2: "build_root_group fuel G M groups Optional b1 = (b2, Inr d2)" and
    r3: "build_root_group fuel G M groups Dev b2 = (b3, Inr d3)" and
    project: "lf_project_snapshot lf = Single
       \<lparr> ps_specifiers = None, ps_dependencies = d1, ps_optional_dependencies = d2, ps_dev_dependencies = d3,
         ps_dependencies_meta = None, ps_publish_directory = None \<rparr>"
      (is "_ = Single ?project") and
    packages: "lf_packages lf = non_empty (b_packages b3)"
    by (rule generate_run [OF run])
  let ?P = "iter_opt (lf_packages lf)"
  have P: "?P = b_packages b3" by (simp add: packages iter_opt_def non_empty_def)
  have b0: "serves_builder (\<lambda>_. True) G (start_builder w)" using w by (simp add: start_builder_def)
  note s1 = root_group_run [OF serves b0 r1]
  note s2 = root_group_run [OF serves conjunct1 [OF s1] r2]
  note s3 = root_group_run [OF serves conjunct1 [OF s2] r3]
  have "extends [] (b_packages b1)" "extends (b_packages b1) (b_packages b2)" "extends (b_packages b2) (b_packages b3)"
    using s1 s2 s3 by (simp_all add: builder_extends_def start_builder_def)
  from extends_trans [OF extends_trans [OF this(1,2)] this(3)]
  have good: "\<And>d s. map_of ?P d = Some s \<Longrightarrow> good_snapshot ?P s" unfolding P by (rule extends_Nil)
  have "dom (map_of (b_packages b1)) \<subseteq> dom (map_of ?P)" "dom (map_of (b_packages b2)) \<subseteq> dom (map_of ?P)"
    using s2 s3 by (auto simp: P builder_extends_def extends_def)
  then have "links_to ?P d1" "links_to ?P d2" "links_to ?P d3"
    using s1 s2 s3 by (simp_all add: P) (blast intro: links_to_mono)+
  moreover have "links_to ?P None" by (simp add: links_to_def iter_opt_def)
  ultimately have "links_to ?P (get_map_by_group ?project g)" for g
    by (cases g) (simp_all add: get_map_by_group_def)
  from that [OF project good this] show thesis .
qed


section \<open>Examples\<close>

text \<open>
  A registry of four packages: \<^verbatim>\<open>p\<close> has the optional dependency \<^verbatim>\<open>o\<close>, \<^verbatim>\<open>q\<close> depends on \<^verbatim>\<open>o\<close>, and \<^verbatim>\<open>o\<close>
  and \<^verbatim>\<open>c\<close> depend on each other.
\<close>

definition example_registry :: "(string \<times> ver3 package) list" where
  "example_registry = map (\<lambda>(nm, deps, opt).
     (''http://r/'' @ nm, \<lparr> pk_name = nm, pk_dist_tags = [], pk_versions = [example_release nm (1, 0, 0) deps opt] \<rparr>))
     [(''p'', [], [(''o'', ''1.0.0'')]), (''q'', [(''o'', ''1.0.0'')], []),
      (''o'', [(''c'', ''1.0.0'')], []), (''c'', [(''o'', ''1.0.0'')], [])]"

definition example_config :: npmrc where
  "example_config =
     \<lparr> nc_hoist = True, nc_hoist_pattern = [], nc_public_hoist_pattern = [], nc_shamefully_hoist = False,
       nc_store_dir = store_root, nc_modules_dir = abs_path [''work'', ''node_modules''],
       nc_node_linker = Isolated, nc_symlink = True,
       nc_virtual_store_dir = abs_path [''work'', ''node_modules'', ''.pnpm''],
       nc_package_import_method = Auto, nc_modules_cache_max_age = 10080, nc_lockfile = True,
       nc_prefer_frozen_lockfile = True, nc_lockfile_include_tarball_url = False,
       nc_registry = ''http://r/'', nc_auto_install_peers = False, nc_dedupe_peer_dependents = True,
       nc_strict_peer_dependencies = False, nc_resolve_peers_from_workspace_root = True \<rparr>"

definition example_generator :: "(ver3, range3) generator" where
  "example_generator =
     \<lparr> g_extern = lib3, g_store = lib_store3,
       g_network =
         \<lparr> net_package = (\<lambda>_ url. ok_or ''not found'' (map_of example_registry url)),
           net_version = (\<lambda>_ _. Inl ''offline''), net_bytes = (\<lambda>_ _. Inl ''offline''),
           package_to_vec = (\<lambda>_. Inl ''serialize''), package_from_str = (\<lambda>_. Inl ''parse'') \<rparr>,
       g_config = example_config, g_mode = Online \<rparr>"

definition project_manifest :: package_manifest where
  "project_manifest =
     \<lparr> mf_path = abs_path [''work'', ''package.json''],
       mf_value = JObj [(''dependencies'', JObj [(''p'', JStr ''1.0.0''), (''q'', JStr ''1.0.0'')])] \<rparr>"

definition example_paths :: "ver3 dependency_path set" where
  "example_paths = example_path ` {''p'', ''q'', ''o'', ''c''}"

lemma example_serves: "registry_serves (named (within example_generator example_paths)) example_generator"
proof -
  have d: "dependency_path_of example_generator (snd (example_release n v deps opt)) =
      dependency_path_of example_generator (snd (example_release n v [] []))" for n v deps opt
    by (simp add: dependency_path_of_def package_specifier_def example_release_def)
  have "dependency_path_of example_generator (snd (example_release n (1, 0, 0) [] [])) = Inr (example_path n)"
    if "n \<in> {''p'', ''q'', ''o'', ''c''}" for n
    using that by (elim insertE emptyE; hypsubst) code_simp+
  then have "dependency_path_of example_generator (snd (example_release n (1, 0, 0) deps opt)) = Inr (example_path n)"
    if "n \<in> {''p'', ''q'', ''o'', ''c''}" for n deps opt
    using d [of n "(1, 0, 0)" deps opt] that by metis
  then have "within example_generator example_paths (snd (example_release n (1, 0, 0) deps opt))"
    if "n \<in> {''p'', ''q'', ''o'', ''c''}" for n deps opt
    using that unfolding within_def example_paths_def by (metis image_eqI sum.inject(2))
  moreover have "pv_name (snd (example_release n v deps opt)) = n" for n v deps opt
    by (simp add: example_release_def)
  ultimately show ?thesis
    by (auto simp: registry_serves_def named_def example_generator_def example_registry_def example_config_def
        result_simps split: if_splits)
qed

lemma example_world_serves: "world_serves Q G (world3 F)"
  by (simp add: world_serves_def world3_def)


text \<open>
  Flags are merged into the package that is met again, not into what it needs: \<^verbatim>\<open>o\<close> is met as an
  optional dependency of \<^verbatim>\<open>p\<close>, then as a required one of \<^verbatim>\<open>q\<close>, and its own dependency \<^verbatim>\<open>c\<close> stays
  marked as optional.
\<close>

lemma optional_flag_stays_on_children:
  "(case snd (generate_lockfile 5 example_generator project_manifest [Prod] (world3 empty_fs)) of
      Inr lf \<Rightarrow> map (\<lambda>(d, s). (pn_bare (ns_name (dp_package_specifier d)), sn_optional s)) (iter_opt (lf_packages lf))
    | Inl _ \<Rightarrow> [])
   = [(''p'', Some False), (''o'', Some False), (''c'', Some True), (''q'', Some False)]"
  by code_simp

lemma serves_weaken: "registry_serves (named R) G \<Longrightarrow> registry_serves (named (\<lambda>_. True)) G"
  unfolding registry_serves_def named_def by blast


end
