(* ===== verification/Path_Order.thy ===== *)
theory Path_Order
  imports Paths "HOL-Library.Char_ord" "HOL-Library.List_Lexorder"
begin

text \<open>
  \<^verbatim>\<open>Ord\<close> of \<^verbatim>\<open>Path\<close> and \<^verbatim>\<open>OsString\<close>: component by component and byte by byte. A \<^verbatim>\<open>BTreeSet\<close> or a
  sorted vector of them is a sorted list.
\<close>

definition component_rank :: "component \<Rightarrow> nat" where
  "component_rank c = (case c of RootDir \<Rightarrow> 0 | CurDir \<Rightarrow> 1 | ParentDir \<Rightarrow> 2 | Normal _ \<Rightarrow> 3)"

definition component_text :: "component \<Rightarrow> string" where
  "component_text c = (case c of Normal s \<Rightarrow> s | _ \<Rightarrow> [])"

instantiation component :: linorder
begin

definition less_eq_component :: "component \<Rightarrow> component \<Rightarrow> bool" where
  "less_eq_component a b \<longleftrightarrow>
     component_rank a < component_rank b
     \<or> component_rank a = component_rank b \<and> component_text a \<le> component_text b"

definition less_component :: "component \<Rightarrow> component \<Rightarrow> bool" where
  "less_component a b \<longleftrightarrow> a \<le> b \<and> \<not> (b :: component) \<le> a"

instance
proof
  fix a b c :: component
  show "(a < b) = (a \<le> b \<and> \<not> b \<le> a)" by (simp add: less_component_def)
  show "a \<le> a" by (simp add: less_eq_component_def)
  show "a \<le> b \<Longrightarrow> b \<le> c \<Longrightarrow> a \<le> c" by (auto simp: less_eq_component_def)
  show "a \<le> b \<Longrightarrow> b \<le> a \<Longrightarrow> a = b"
    by (cases a; cases b) (auto simp: less_eq_component_def component_rank_def component_text_def)
  show "a \<le> b \<or> b \<le> a" by (auto simp: less_eq_component_def)
qed

end

text \<open>The elements of a \<^verbatim>\<open>BTreeSet\<close> built from a list, in the order of its iterator.\<close>

definition btree_set :: "'a :: linorder list \<Rightarrow> 'a list" where
  "btree_set xs = sort (remdups xs)"

lemma set_btree_set [simp]: "set (btree_set xs) = set xs"
  by (simp add: btree_set_def)

lemma sorted_btree_set [simp]: "sorted (btree_set xs)" "distinct (btree_set xs)"
  by (simp_all add: btree_set_def)

text \<open>\<^verbatim>\<open>BTreeMap\<close> with \<^verbatim>\<open>entry().or_insert_with()\<close>: the first value of a key stays.\<close>

definition or_insert :: "'k \<Rightarrow> 'a \<Rightarrow> ('k \<times> 'a) list \<Rightarrow> ('k \<times> 'a) list" where
  "or_insert k v m = (if map_of m k = None then m @ [(k, v)] else m)"

definition btree_entries :: "('k :: linorder \<times> 'a) list \<Rightarrow> ('k \<times> 'a) list" where
  "btree_entries m = sort_key fst m"

lemma map_of_or_insert: "map_of (or_insert k v m) = (case map_of m k of None \<Rightarrow> (map_of m)(k \<mapsto> v) | Some _ \<Rightarrow> map_of m)"
  by (auto simp: or_insert_def map_add_def fun_eq_iff split: option.split)

lemma set_btree_entries [simp]: "set (btree_entries m) = set m"
  by (simp add: btree_entries_def)

end
