(* ===== verification/Linking.thy ===== *)
theory Linking
  imports Lockfile Npmrc Registry Path_Order
begin

text \<open>
  The file-system half of an installation, \<^verbatim>\<open>crates/package-manager/src\<close>: \<^verbatim>\<open>link_file.rs\<close>,
  \<^verbatim>\<open>create_cas_files.rs\<close>, \<^verbatim>\<open>symlink_package.rs\<close>, \<^verbatim>\<open>create_symlink_layout.rs\<close>,
  \<^verbatim>\<open>create_virtual_dir_by_snapshot.rs\<close>, \<^verbatim>\<open>sync_direct_dependency_links.rs\<close> and
  \<^verbatim>\<open>symlink_direct_dependencies.rs\<close>. A parallel iteration runs in the order of the list; an
  entry of a directory that cannot be read is a failure of reading the directory.
\<close>

section \<open>Importing a file\<close>

text \<open>\<^verbatim>\<open>reflink_copy\<close>, with the file system after the call.\<close>

record reflink_lib =
  rf_reflink :: "fs \<Rightarrow> path \<Rightarrow> path \<Rightarrow> io_kind + fs"
  rf_reflink_or_copy :: "fs \<Rightarrow> path \<Rightarrow> path \<Rightarrow> io_kind + fs"

datatype link_file_error = CreateLink path path package_import_method io_kind

definition or_else :: "'e + 'a \<Rightarrow> 'e + 'a \<Rightarrow> 'e + 'a" where
  "or_else m n = (case m of Inl _ \<Rightarrow> n | Inr x \<Rightarrow> Inr x)"

definition import_file :: "reflink_lib \<Rightarrow> package_import_method \<Rightarrow> path \<Rightarrow> path \<Rightarrow> fs \<Rightarrow> io_kind + fs" where
  "import_file R import_method source target F =
     (case import_method of
        Auto \<Rightarrow> or_else (or_else (rf_reflink R F source target) (fs_hard_link F source target))
                  (fs_copy F source target)
      | Hardlink \<Rightarrow> fs_hard_link F source target
      | CopyFiles \<Rightarrow> fs_copy F source target
      | Clone \<Rightarrow> rf_reflink R F source target
      | CloneOrCopy \<Rightarrow> rf_reflink_or_copy R F source target)"

definition link_file ::
    "reflink_lib \<Rightarrow> package_import_method \<Rightarrow> path \<Rightarrow> path \<Rightarrow> (fs, link_file_error, unit) action" where
  "link_file R import_method source_file target_link =
     act_bind (act_read (\<lambda>F. Inr (fs_exists F target_link))) (\<lambda>there.
     if there then act_return ()
     else act_map_err (CreateLink source_file target_link import_method)
            (act_call (import_file R import_method source_file target_link)))"

section \<open>Importing a package\<close>

datatype create_cas_files_error = CasCreateDir path io_kind | CasLinkFile link_file_error

definition create_dir_all :: "(path \<Rightarrow> io_kind \<Rightarrow> 'e) \<Rightarrow> path \<Rightarrow> (fs, 'e, unit) action" where
  "create_dir_all err dir = act_map_err (err dir) (act_call (\<lambda>F. fs_create_dir_all F dir))"

lemma create_dir_all_Inr: "create_dir_all err d F = (F', Inr ()) \<longleftrightarrow> fs_create_dir_all F d = Inr F'"
  by (simp add: create_dir_all_def result_simps)

definition cas_parent_dirs :: "path \<Rightarrow> cas_paths \<Rightarrow> path list" where
  "cas_parent_dirs dir_path cas_paths =
     btree_set (List.map_filter (\<lambda>(cleaned_entry, _).
       case path_parent (path_of_string cleaned_entry) of
         None \<Rightarrow> None
       | Some parent \<Rightarrow> if parent = [] then None else Some (path_join dir_path parent)) cas_paths)"

definition create_cas_files ::
    "reflink_lib \<Rightarrow> package_import_method \<Rightarrow> path \<Rightarrow> cas_paths \<Rightarrow> (fs, create_cas_files_error, unit) action" where
  "create_cas_files R import_method dir_path cas_paths =
     act_bind (act_read (\<lambda>F. Inr (fs_exists F dir_path))) (\<lambda>there.
     if there then act_return ()
     else
       act_then (create_dir_all CasCreateDir dir_path)
       (act_then (act_for (create_dir_all CasCreateDir) (cas_parent_dirs dir_path cas_paths))
       (act_for (\<lambda>(cleaned_entry, store_path).
          act_map_err CasLinkFile (link_file R import_method store_path (join_str dir_path cleaned_entry)))
        cas_paths)))"

section \<open>Symbolic links to packages\<close>

datatype symlink_package_error =
    CreateParentDir path io_kind
  | SymlinkDir path path io_kind
  | RemoveStalePath path io_kind

text \<open>Removing what a path names: a file or a link by itself, a directory with its content.\<close>

definition remove_any :: "fs \<Rightarrow> path \<Rightarrow> io_kind + fs" where
  "remove_any F p =
     rbind (fs_symlink_metadata F p) (\<lambda>(_, nd).
     if nd = Dir then fs_remove_dir_all F p else fs_remove_file F p)"

definition make_package_link :: "path \<Rightarrow> path \<Rightarrow> (fs, symlink_package_error, unit) action" where
  "make_package_link symlink_target symlink_path =
     act_bind (act_catch (act_call (\<lambda>F. symlink_dir F symlink_target symlink_path))) (\<lambda>r.
     case r of
       Inl e \<Rightarrow> if e \<noteq> AlreadyExists then act_throw (SymlinkDir symlink_target symlink_path e) else act_return ()
     | Inr _ \<Rightarrow> act_return ())"

definition symlink_package :: "path \<Rightarrow> path \<Rightarrow> (fs, symlink_package_error, unit) action" where
  "symlink_package symlink_target symlink_path =
     act_then (case path_parent symlink_path of
                 None \<Rightarrow> act_return ()
               | Some parent \<Rightarrow> create_dir_all CreateParentDir parent)
     (act_bind (act_read (\<lambda>F. Inr (fs_exists F symlink_path))) (\<lambda>there.
      if \<not> there then make_package_link symlink_target symlink_path
      else
        act_bind (act_read (\<lambda>F. Inr (ok_opt (fs_canonicalize F symlink_path) = ok_opt (fs_canonicalize F symlink_target))))
        (\<lambda>same_target.
         if same_target then act_return ()
         else act_then (act_map_err (RemoveStalePath symlink_path) (act_call (\<lambda>F. remove_any F symlink_path)))
                (make_package_link symlink_target symlink_path))))"

definition dependency_store_name :: "('v, 'r) extern \<Rightarrow> pkg_name \<Rightarrow> 'v package_snapshot_dependency \<Rightarrow> string" where
  "dependency_store_name X nm spec =
     (case spec of
        PkgVerPeer ver_peer \<Rightarrow> to_virtual_store_name_from_parts X nm ver_peer
      | DependencyPath dependency_path \<Rightarrow> to_virtual_store_name X (dp_package_specifier dependency_path))"

definition create_symlink_layout ::
    "('v, 'r) extern \<Rightarrow> (pkg_name \<times> 'v package_snapshot_dependency) list \<Rightarrow> path \<Rightarrow> path
     \<Rightarrow> (fs, 'e failure, unit) action" where
  "create_symlink_layout X dependencies virtual_root virtual_node_modules_dir =
     act_for (\<lambda>(nm, spec).
       let virtual_store_name = dependency_store_name X nm spec;
           name_str = pkg_name_to_string nm
       in act_expect ''symlink pkg successful''
            (act_err (symlink_package
               (join_str (join_str (join_str virtual_root virtual_store_name) ''node_modules'') name_str)
               (join_str virtual_node_modules_dir name_str))))
     dependencies"

section \<open>The virtual directory of a package\<close>

datatype create_virtual_dir_error =
    CreateNodeModulesDir path io_kind
  | CreateCasFiles create_cas_files_error

definition create_virtual_dir ::
    "('v, 'r) extern \<Rightarrow> reflink_lib \<Rightarrow> path \<Rightarrow> cas_paths \<Rightarrow> package_import_method \<Rightarrow> 'v dependency_path
     \<Rightarrow> 'v package_snapshot \<Rightarrow> (fs, create_virtual_dir_error failure, unit) action" where
  "create_virtual_dir X R virtual_store_dir cas_paths import_method dependency_path package_snapshot =
     (let virtual_node_modules_dir =
            join_str (join_str virtual_store_dir (to_virtual_store_name X (dp_package_specifier dependency_path)))
              ''node_modules'';
          save_path =
            join_str virtual_node_modules_dir (pkg_name_to_string (ns_name (dp_package_specifier dependency_path)))
      in act_then (act_err (create_dir_all CreateNodeModulesDir virtual_node_modules_dir))
         (act_then (act_map_err (\<lambda>e. Err (CreateCasFiles e))
                     (create_cas_files R import_method save_path cas_paths))
         (case sn_dependencies package_snapshot of
            Some dependencies \<Rightarrow>
              create_symlink_layout X dependencies virtual_store_dir virtual_node_modules_dir
          | None \<Rightarrow> act_return ())))"

section \<open>Direct dependencies\<close>

datatype sync_error =
    ReadModulesDir path io_kind
  | ReadScopeDir path io_kind
  | RemoveDependencyPath path io_kind

definition direct_dependency_entries :: "fs \<Rightarrow> path \<Rightarrow> string \<Rightarrow> sync_error + (string \<times> path) list" where
  "direct_dependency_entries F modules_dir nm =
     (let path = path_join modules_dir [Normal nm]
      in if starts_with_char (CHR ''.'') nm then Inr []
         else if starts_with_char (CHR ''@'') nm \<and> fs_is_dir F path then
           map_ok (map (\<lambda>scoped_name. (nm @ ''/'' @ scoped_name, path_join path [Normal scoped_name])))
             (map_err (ReadScopeDir path) (fs_read_dir F path))
         else Inr [(nm, path)])"

definition current_direct_dependency_paths :: "fs \<Rightarrow> path \<Rightarrow> sync_error + (string \<times> path) list" where
  "current_direct_dependency_paths F modules_dir =
     rbind (map_err (ReadModulesDir modules_dir) (fs_read_dir F modules_dir)) (\<lambda>names.
     map_ok concat (traverse (direct_dependency_entries F modules_dir) names))"

definition remove_path :: "path \<Rightarrow> (fs, sync_error, unit) action" where
  "remove_path p = act_map_err (RemoveDependencyPath p) (act_call (\<lambda>F. remove_any F p))"

definition remove_empty_scope :: "path \<Rightarrow> path \<Rightarrow> (fs, sync_error, unit) action" where
  "remove_empty_scope modules_dir path =
     (case path_parent path of
        None \<Rightarrow> act_return ()
      | Some scope_dir \<Rightarrow>
          act_bind (act_read (\<lambda>F. Inr (scope_dir \<noteq> modules_dir \<and> fs_read_dir F scope_dir = Inr []))) (\<lambda>empty.
          if empty then act_map_err (RemoveDependencyPath scope_dir) (act_call (\<lambda>F. fs_remove_dir F scope_dir))
          else act_return ()))"

definition sync_direct_dependency_links :: "path \<Rightarrow> string list \<Rightarrow> (fs, sync_error, unit) action" where
  "sync_direct_dependency_links modules_dir desired_packages =
     act_bind (act_read (\<lambda>F. Inr (fs_exists F modules_dir))) (\<lambda>there.
     if \<not> there then act_return ()
     else
       act_bind (act_read (\<lambda>F. current_direct_dependency_paths F modules_dir)) (\<lambda>paths.
       act_for (\<lambda>(package_name, path).
         if package_name \<in> set desired_packages then act_return ()
         else act_then (remove_path path) (remove_empty_scope modules_dir path)) paths))"

definition symlink_direct_dependencies ::
    "('v, 'r) extern \<Rightarrow> npmrc \<Rightarrow> 'v root_project_snapshot \<Rightarrow> dependency_group list \<Rightarrow> (fs, 'e failure, unit) action" where
  "symlink_direct_dependencies X config project_snapshot dependency_groups =
     (case project_snapshot of
        Multi _ \<Rightarrow> act_throw (Panic ''Monorepo is not yet supported'')
      | Single project \<Rightarrow>
          let direct_dependencies = dependencies_by_groups project dependency_groups
          in act_then (act_expect ''sync direct dependency links''
                        (act_err (sync_direct_dependency_links (nc_modules_dir config)
                          (map (\<lambda>(nm, _). pkg_name_to_string nm) direct_dependencies))))
             (act_for (\<lambda>(nm, spec).
               let virtual_store_name = to_virtual_store_name_from_parts X nm (rd_version spec);
                   name_str = pkg_name_to_string nm
               in act_expect ''symlink pkg''
                    (act_err (symlink_package
                       (join_str (join_str (join_str (nc_virtual_store_dir config) virtual_store_name) ''node_modules'')
                         name_str)
                       (join_str (nc_modules_dir config) name_str))))
              direct_dependencies))"

end
