(* ===== verification/Package_Links.thy ===== *)
theory Package_Links
  imports Linking
begin

text \<open>
  The links of an installation: what \<^verbatim>\<open>symlink_package\<close> leaves at a path, and what
  \<^verbatim>\<open>sync_direct_dependency_links\<close> leaves in \<^verbatim>\<open>node_modules\<close>.
\<close>

section \<open>Removing what a path names\<close>

lemma remove_any_node:
  assumes ok: "tree_ok F" and n: "node_at F q = Some nd" and run: "remove_any F (abs_path q) = Inr F'"
  shows "q \<noteq> [] \<and> (\<forall>x. node_at F' x = (if prefix q x then None else node_at F x)) \<and> tree_ok F'
    \<and> fs_fault F' = fs_fault F"
proof -
  have l: "lookup F False (abs_path q) = Found q nd" by (rule lookup_node [OF ok n]) simp
  have below: "node_at F (q @ x # r) = None" if "nd \<noteq> Dir" for x r
  proof (rule ccontr)
    assume "node_at F (q @ x # r) \<noteq> None"
    then obtain nd' where "node_at F (q @ x # r) = Some nd'" by auto
    from tree_ok_prefix [OF ok this] n that show False by simp
  qed
  from run l have ne: "q \<noteq> []" and F': "F' = (if nd = Dir then del_nodes (prefix q) F else del_nodes (\<lambda>x. x = q) F)"
    using n by (auto simp: remove_any_def fs_symlink_metadata_def guarded_def fs_remove_dir_all_def fs_remove_file_def
        result_simps split: option.splits if_splits node.splits)
  have nodes: "node_at F' x = (if prefix q x then None else node_at F x)" for x
  proof (cases "nd = Dir \<or> \<not> prefix q x")
    case True
    then show ?thesis using ne by (auto simp: F' node_at_del_nodes)
  next
    case False
    then obtain zs where zs: "x = q @ zs" by (auto simp: prefix_def)
    with False ne below show ?thesis by (cases zs) (simp_all add: F' node_at_del_nodes)
  qed
  have "tree_ok (del_nodes (prefix q) F)"
    by (rule tree_ok_del_nodes [OF ok]) (use ne in \<open>auto simp: prefix_def\<close>)
  moreover have "node_at F' = node_at (del_nodes (prefix q) F)"
  proof
    fix x
    show "node_at F' x = node_at (del_nodes (prefix q) F) x"
      unfolding nodes [of x] node_at_del_nodes using ne by (cases x) auto
  qed
  moreover have fr: "fs_next F' = fs_next F" "fs_fault F' = fs_fault F"
    unfolding F' by (cases "nd = Dir"; simp)+
  then have "fs_next F' = fs_next (del_nodes (prefix q) F)" by simp
  ultimately have "tree_ok F'" by (rule tree_ok_same_nodes)
  then show ?thesis using ne fr(2) by (intro conjI allI) (assumption | rule nodes)+
qed

section \<open>One link\<close>

lemma make_link_new:
  assumes "tree_ok F" and "node_at F d = Some Dir" and "node_at F (d @ [n]) = None"
    and "fs_fault F SymlinkCall (abs_path (d @ [n])) = None"
    and "make_package_link target (abs_path (d @ [n])) F = (F', r)"
  shows "r = Inr () \<and> F' = set_node (d @ [n]) (Symlink target) F"
  using assms(5) lookup_child_None [OF assms(1,2,3), of False]
  by (simp add: make_package_link_def act_simps symlink_dir_def fs_symlink_def guarded_def assms(4))

lemma make_link_old:
  assumes "tree_ok F" and "node_at F q = Some nd" and "fs_fault F SymlinkCall (abs_path q) = None"
    and "make_package_link target (abs_path q) F = (F', r)"
  shows "r = Inr () \<and> F' = F"
  using assms(4) lookup_node [OF assms(1,2), of False]
  by (simp add: make_package_link_def act_simps symlink_dir_def fs_symlink_def guarded_def assms(3))

text \<open>What is left to do when the parent directory is there.\<close>

definition place_link :: "path \<Rightarrow> path \<Rightarrow> (fs, symlink_package_error, unit) action" where
  "place_link target p = (\<lambda>F.
     (if \<not> fs_exists F p then make_package_link target p
      else if ok_opt (fs_canonicalize F p) = ok_opt (fs_canonicalize F target) then act_return ()
      else act_then (act_map_err (RemoveStalePath p) (act_call (\<lambda>F. remove_any F p))) (make_package_link target p)) F)"

lemma symlink_package_Inr:
  assumes "symlink_package target (abs_path (d @ [n])) F = (F', Inr ())"
  shows "\<exists>F1. fs_create_dir_all F (abs_path d) = Inr F1 \<and> place_link target (abs_path (d @ [n])) F1 = (F', Inr ())"
  using assms
  by (simp add: symlink_package_def place_link_def act_bind_Inr [of "create_dir_all _ _"] create_dir_all_Inr
      act_eval(3) act_eval(4) [of "act_read _"] if_distrib [of "\<lambda>m. m _"] cong: if_cong)

text \<open>\<open>link_outcome\<close>: what a success leaves at the path and around it.\<close>

definition link_outcome :: "path \<Rightarrow> names \<Rightarrow> fs \<Rightarrow> fs \<Rightarrow> bool" where
  "link_outcome target q F F' \<longleftrightarrow>
     (node_at F' q = Some (Symlink target)
      \<or> ok_opt (fs_canonicalize F' (abs_path q)) = ok_opt (fs_canonicalize F' target)
      \<or> (\<exists>t. node_at F q = Some (Symlink t) \<and> \<not> fs_exists F' (abs_path q)))
     \<and> tree_ok F' \<and> (\<forall>x. prefix q x \<or> node_at F' x = node_at F x)"

lemma link_where_nothing_resolves:
  assumes ok: "tree_ok F" and d: "node_at F d = Some Dir" and nf: "\<And>c p. fs_fault F c p = None"
    and no: "\<not> fs_exists F (abs_path (d @ [n]))"
    and mk: "make_package_link target (abs_path (d @ [n])) F = (F', Inr ())"
  shows "link_outcome target (d @ [n]) F F'"
proof (cases "node_at F (d @ [n])")
  case None
  from make_link_new [OF ok d None nf mk] have F': "F' = set_node (d @ [n]) (Symlink target) F" by simp
  have "tree_ok F'" unfolding F' by (rule tree_ok_set_node [OF ok d None]) simp
  then show ?thesis by (auto simp: link_outcome_def F' node_at_set_node)
next
  case (Some nd)
  from make_link_old [OF ok Some nf mk] have F': "F' = F" by simp
  have "\<exists>t. nd = Symlink t"
  proof (rule ccontr)
    assume "\<nexists>t. nd = Symlink t"
    then have "lookup F True (abs_path (d @ [n])) = Found (d @ [n]) nd" by (intro lookup_node [OF ok Some]) auto
    with no show False by (simp add: fs_exists_def fs_metadata_def guarded_def nf)
  qed
  with Some no ok show ?thesis by (auto simp: link_outcome_def F')
qed

lemma link_after_removal:
  assumes ok: "tree_ok F" and d: "node_at F d = Some Dir" and nf: "\<And>c p. fs_fault F c p = None"
    and rm: "remove_any F (abs_path (d @ [n])) = Inr F1"
    and mk: "make_package_link target (abs_path (d @ [n])) F1 = (F', Inr ())"
  shows "link_outcome target (d @ [n]) F F'"
proof -
  obtain nd where nd: "node_at F (d @ [n]) = Some nd"
  proof (cases "node_at F (d @ [n])")
    case None
    from lookup_child_None [OF ok d this, of False] rm that show ?thesis
      by (simp add: remove_any_def fs_symlink_metadata_def guarded_def nf)
  qed
  from remove_any_node [OF ok nd rm] have F1: "tree_ok F1" "fs_fault F1 = fs_fault F"
    "\<And>x. node_at F1 x = (if prefix (d @ [n]) x then None else node_at F x)" by auto
  have d1: "node_at F1 d = Some Dir" and n1: "node_at F1 (d @ [n]) = None" using d by (simp_all add: F1(3))
  have f1: "fs_fault F1 SymlinkCall (abs_path (d @ [n])) = None" by (simp add: F1(2) nf)
  from make_link_new [OF F1(1) d1 n1 f1 mk] have F': "F' = set_node (d @ [n]) (Symlink target) F1" by simp
  have "tree_ok F'" unfolding F' by (rule tree_ok_set_node [OF F1(1) d1 n1]) simp
  then show ?thesis by (auto simp: link_outcome_def F' node_at_set_node F1(3))
qed


text \<open>Where nothing is, the link is made.\<close>

lemma symlink_package_new:
  assumes ok: "tree_ok F" and pl: "plain F d" and new: "node_at F (d @ [n]) = None" and nf: "\<forall>c p. fs_fault F c p = None"
    and run: "symlink_package target (abs_path (d @ [n])) F = (F', Inr ())"
  shows "tree_ok F' \<and> keeps F F' \<and> node_at F' (d @ [n]) = Some (Symlink target)
    \<and> (\<forall>q. q \<noteq> d @ [n] \<longrightarrow> node_at F' q = node_at F q
         \<or> prefix q d \<and> node_at F q = None \<and> node_at F' q = Some Dir)"
proof -
  let ?p = "abs_path (d @ [n])"
  from symlink_package_Inr [OF run] obtain F1 where r1: "fs_create_dir_all F (abs_path d) = Inr F1"
    and r2: "place_link target ?p F1 = (F', Inr ())" by blast
  from create_dir_all_plain [OF ok pl r1] have F1: "tree_ok F1" "adds_dirs d F F1" "node_at F1 d = Some Dir" by blast+
  have k1: "keeps F F1" by (rule keeps_create_dir_all [OF r1])
  have nf1: "fs_fault F1 c p = None" for c p using nf keepsD(2) [OF k1] by simp
  have n1: "node_at F1 (d @ [n]) = None"
    using F1(2) [unfolded adds_dirs_def, rule_format, of "d @ [n]"] new by simp
  have "plain F1 (d @ [n])" using adds_dirs_plain [OF F1(2) pl] n1 by (simp add: plain_snoc)
  then have "\<not> fs_exists F1 ?p" using exists_iff [OF F1(1) _ nf1] n1 by simp
  with r2 have mk: "make_package_link target ?p F1 = (F', Inr ())" by (simp add: place_link_def)
  from make_link_new [OF F1(1,3) n1 nf1 mk] have F': "F' = set_node (d @ [n]) (Symlink target) F1" by simp
  have "tree_ok F'" unfolding F' by (rule tree_ok_set_node [OF F1(1,3) n1]) simp
  moreover have "keeps F1 F'" using grows_set_Absent [OF n1, of "Symlink target"] by (simp add: keeps_def F')
  ultimately show ?thesis
    using keeping.trans [OF k1] F1(2) by (auto simp: F' node_at_set_node adds_dirs_def)
qed

text \<open>A link that leads nowhere stays: whatever target is asked for, \<^verbatim>\<open>symlink_package\<close> reports
  success and leaves the stale link in place.\<close>

theorem dangling_link_is_kept:
  assumes ok: "tree_ok F" and dir: "node_at F d = Some Dir" and link: "node_at F (d @ [n]) = Some (Symlink t)"
    and nf: "\<forall>c p. fs_fault F c p = None" and gone: "\<not> fs_exists F (abs_path (d @ [n]))"
  shows "symlink_package target (abs_path (d @ [n])) F = (F, Inr ())"
proof -
  let ?p = "abs_path (d @ [n])"
  have l: "lookup F f (abs_path d) = Found d Dir" for f by (rule lookup_node [OF ok dir]) simp
  have r1: "fs_create_dir_all F (abs_path d) = Inr F"
    by (subst fs_create_dir_all.simps)
      (simp add: fs_mkdir_def fs_is_dir_def fs_metadata_def guarded_def nf l)
  obtain F' r where mk: "make_package_link target ?p F = (F', r)" by (cases "make_package_link target ?p F") auto
  from nf have "fs_fault F SymlinkCall ?p = None" by simp
  from make_link_old [OF ok link this mk] mk have "make_package_link target ?p F = (F, Inr ())" by simp
  with r1 gone show ?thesis by (simp add: symlink_package_def create_dir_all_def act_simps)
qed

section \<open>Examples\<close>

text \<open>A \<^verbatim>\<open>node_modules\<close> with a live link and one that leads nowhere.\<close>

definition links_fs :: fs where
  "links_fs =
     empty_fs\<lparr>fs_nodes := [([''m''], Dir), ([''m'', ''live''], Symlink (abs_path [''old''])),
              ([''m'', ''stale''], Symlink (abs_path [''gone''])), ([''old''], Dir), ([''new''], Dir)]\<rparr>"

lemma tree_ok_links_fs: "tree_ok links_fs"
  by (auto simp: tree_ok_def node_at_def links_fs_def split: if_splits)

lemma no_fault_links_fs: "fs_fault links_fs c p = None"
  by (simp add: links_fs_def empty_fs_def)


theorem dangling_link_is_kept_witness:
  "symlink_package (abs_path [''new'']) (abs_path [''m'', ''stale'']) links_fs = (links_fs, Inr ())"
proof -
  have "symlink_package (abs_path [''new'']) (abs_path ([''m''] @ [''stale''])) links_fs = (links_fs, Inr ())"
  proof (rule dangling_link_is_kept [OF tree_ok_links_fs, of _ _ "abs_path [''gone'']"])
    show "\<not> fs_exists links_fs (abs_path ([''m''] @ [''stale'']))" by code_simp
  qed (simp_all add: node_at_def links_fs_def no_fault_links_fs [unfolded links_fs_def])
  then show ?thesis by simp
qed

end
