(* ===== verification/Async.thy ===== *)
theory Async
  imports Actions
begin

text \<open>
  \<^verbatim>\<open>futures_util::future::join_all\<close>: every task runs, and its result, a failure included, is
  collected. Here the tasks run one after the other in the order of the list, which is one of
  the schedules of the executor. A panic ends the whole; a task that never returns keeps the
  whole from returning.
\<close>

definition act_settle :: "('s, 'e failure, 'a) action \<Rightarrow> ('s, 'f failure, 'e + 'a) action" where
  "act_settle m = (\<lambda>s. case m s of (s', r) \<Rightarrow>
     (s', case r of
        Inr x \<Rightarrow> Inr (Inr x)
      | Inl (Err e) \<Rightarrow> Inr (Inl e)
      | Inl (Panic p) \<Rightarrow> Inl (Panic p)
      | Inl Blocked \<Rightarrow> Inl Blocked
      | Inl OutOfFuel \<Rightarrow> Inl OutOfFuel))"

definition act_join :: "('a \<Rightarrow> ('s, 'e failure, 'b) action) \<Rightarrow> 'a list \<Rightarrow> ('s, 'f failure, ('e + 'b) list) action" where
  "act_join f = act_each (\<lambda>x. act_settle (f x))"

text \<open>\<^verbatim>\<open>collect::<Result<Vec<_>, _>>\<close>, and the loop with a question mark over the results.\<close>

definition act_collect :: "('e + 'b) list \<Rightarrow> ('s, 'e failure, 'b list) action" where
  "act_collect rs = act_read (\<lambda>_. map_err Err (traverse (\<lambda>r. r) rs))"

lemma act_settle_Inr [result_simps]:
  "act_settle m s = (s', Inr r) \<longleftrightarrow> (\<exists>x. m s = (s', Inr x) \<and> r = Inr x) \<or> (\<exists>e. m s = (s', Inl (Err e)) \<and> r = Inl e)"
  by (auto simp: act_settle_def split: prod.splits sum.splits failure.splits)

lemma act_collect_Inr [result_simps]: "act_collect rs s = (s', Inr ys) \<longleftrightarrow> s' = s \<and> rs = map Inr ys"
proof -
  have "traverse (\<lambda>r. r) rs = Inr ys \<longleftrightarrow> rs = map Inr ys" for ys
    by (auto simp: traverse_eq_Inr list_all2_conv_all_nth list_eq_iff_nth_eq)
  then show ?thesis by (auto simp: act_collect_def act_read_def map_err_eq_Inr)
qed

text \<open>All tasks succeeded.\<close>

lemma act_join_Inr: "act_join f xs s = (s', Inr (map Inr ys)) \<longleftrightarrow> act_each f xs s = (s', Inr ys)"
proof (induction xs arbitrary: s ys)
  case (Cons x xs)
  then show ?case by (cases ys) (auto simp: act_join_def result_simps)
qed (auto simp: act_join_def result_simps)

lemma act_join_collect_Inr:
  "act_bind (act_join f xs) act_collect s = (s', Inr ys) \<longleftrightarrow> act_each f xs s = (s', Inr ys)"
  by (auto simp: act_bind_Inr act_collect_Inr act_join_Inr)

context state_order
begin

lemma steps_settle: "steps R m \<Longrightarrow> steps R (act_settle m)"
  by (auto simp: steps_def act_settle_def split: prod.split) (metis fst_conv)

lemma steps_join: "(\<And>x. steps R (f x)) \<Longrightarrow> steps R (act_join f xs)"
  unfolding act_join_def by (intro steps_each steps_settle)

lemma steps_collect: "steps R (act_collect rs)"
  unfolding act_collect_def by (rule steps_read)

lemma steps_for: "(\<And>x. steps R (f x)) \<Longrightarrow> steps R (act_for f xs)"
  unfolding act_for_def by (intro steps_bind steps_each steps_return)

text \<open>The same for tasks that keep the relation because of what they work on.\<close>

lemma steps_each_on: "(\<And>x. x \<in> set xs \<Longrightarrow> steps R (f x)) \<Longrightarrow> steps R (act_each f xs)"
  by (induction xs) (auto intro!: steps_bind steps_return)

lemma steps_join_on: "(\<And>x. x \<in> set xs \<Longrightarrow> steps R (f x)) \<Longrightarrow> steps R (act_join f xs)"
  unfolding act_join_def by (intro steps_each_on steps_settle)

lemmas async_steps = steps_settle steps_join steps_collect steps_for

end

end
