(* ===== verification/Tarball.thy ===== *)
theory Tarball
  imports Registry Async
begin

text \<open>
  \<^verbatim>\<open>crates/tarball\<close>: a tarball comes from the memory of the process, from the store, or from the
  network; a download is checked, unpacked into the store file by file and recorded in an index.
  Every task on a tarball runs to its end before the next one here; the tasks that wait for each
  other are the subject of their own theory.
\<close>

datatype network_mode = NetworkOnline | NetworkOffline

section \<open>The libraries\<close>

text \<open>An entry of an archive, with what reading its parts returns.\<close>

record tar_entry =
  te_is_dir :: bool
  te_mode :: "io_kind + 32 word"
  te_size :: "64 word option"
  te_content :: "io_kind + string"
  te_path :: "io_kind + string"

text \<open>\<^verbatim>\<open>zune_inflate\<close>, \<^verbatim>\<open>tar\<close>, and the clock when an entry is recorded.\<close>

record tarball_lib =
  decode_gzip :: "64 word option \<Rightarrow> string \<Rightarrow> string + string"
  archive_entries :: "string \<Rightarrow> io_kind + (io_kind + tar_entry) list"
  epoch_elapsed :: "tar_entry \<Rightarrow> nat option"

datatype tarball_error =
    FetchTarball string string
  | ReadTarballEntries io_kind
  | Checksum string string
  | DecodeGzip string
  | TarballWriteCasFile ensure_file_error
  | WriteTarballIndexFile ensure_file_error
  | ReadTarballIndexFile read_index_file_error
  | ParseFileIntegrity string
  | OfflineCacheMiss string
  | TaskJoin string

section \<open>Unpacking\<close>

definition decompress_gzip :: "tarball_lib \<Rightarrow> string \<Rightarrow> 64 word option \<Rightarrow> tarball_error + string" where
  "decompress_gzip T gz_data unpacked_size = map_err DecodeGzip (decode_gzip T unpacked_size gz_data)"

text \<open>The path of an entry without its first component.\<close>

definition clean_entry_path :: "string \<Rightarrow> string" where
  "clean_entry_path entry_path = path_to_string (drop 1 (path_of_string entry_path))"

abbreviation unwrap_panic :: "'e failure" where
  "unwrap_panic \<equiv> Panic ''called Result::unwrap() on an Err value''"

type_synonym unpacked = "cas_paths \<times> (string \<times> package_file_info) list"

definition unpack_entry ::
    "store_lib \<Rightarrow> tarball_lib \<Rightarrow> store_dir \<Rightarrow> io_kind + tar_entry \<Rightarrow> unpacked \<Rightarrow> (fs, tarball_error failure, unpacked) action" where
  "unpack_entry L T S r = (\<lambda>(cas_paths, files).
     case r of
       Inl _ \<Rightarrow> act_throw unwrap_panic
     | Inr entry \<Rightarrow>
         if te_is_dir entry then act_return (cas_paths, files)
         else case te_mode entry of
           Inl _ \<Rightarrow> act_throw (Panic ''get mode'')
         | Inr file_mode \<Rightarrow> (
             let file_is_executable = is_all_exec file_mode
             in case te_content entry of
               Inl _ \<Rightarrow> act_throw unwrap_panic
             | Inr buffer \<Rightarrow> (
                 case te_path entry of
                   Inl _ \<Rightarrow> act_throw unwrap_panic
                 | Inr entry_path \<Rightarrow>
                     let cleaned_entry_path = clean_entry_path entry_path
                     in if \<not> valid_utf8 cleaned_entry_path
                        then act_throw (Panic ''entry path must be valid UTF-8'')
                        else
                          act_bind (act_map_err (map_failure_err TarballWriteCasFile)
                                      (write_cas_file L S buffer file_is_executable)) (\<lambda>(file_path, file_hash).
                          let file_attrs =
                                \<lparr> fi_checked_at = epoch_elapsed T entry,
                                  fi_integrity = ''sha512-'' @ base64_encode L file_hash,
                                  fi_mode = file_mode, fi_size = te_size entry \<rparr>
                          in act_return (AList.update cleaned_entry_path file_path cas_paths,
                                         AList.update cleaned_entry_path file_attrs files)))))"

fun unpack_entries ::
    "store_lib \<Rightarrow> tarball_lib \<Rightarrow> store_dir \<Rightarrow> (io_kind + tar_entry) list \<Rightarrow> unpacked \<Rightarrow> (fs, tarball_error failure, unpacked) action" where
  "unpack_entries L T S [] acc = act_return acc"
| "unpack_entries L T S (r # rs) acc = act_bind (unpack_entry L T S r acc) (unpack_entries L T S rs)"

text \<open>The task that checks and unpacks what was received.\<close>

definition unpack_tarball ::
    "store_lib \<Rightarrow> tarball_lib \<Rightarrow> store_dir \<Rightarrow> integrity \<Rightarrow> 64 word option \<Rightarrow> string \<Rightarrow> string
     \<Rightarrow> (fs, tarball_error failure, cas_paths) action" where
  "unpack_tarball L T S package_integrity package_unpacked_size package_url response =
     act_bind (act_read (\<lambda>_. map_err (\<lambda>e. Err (Checksum package_url e)) (integrity_check L package_integrity response))) (\<lambda>_.
     act_bind (act_read (\<lambda>_. map_err Err (decompress_gzip T response package_unpacked_size))) (\<lambda>archive.
     act_bind (act_read (\<lambda>_. map_err (\<lambda>e. Err (ReadTarballEntries e)) (archive_entries T archive))) (\<lambda>entries.
     act_bind (unpack_entries L T S entries ([], [])) (\<lambda>(cas_paths, files).
     act_then (act_map_err (map_failure_err WriteTarballIndexFile)
                 (write_index_file L S package_integrity \<lparr> ix_files = files \<rparr>))
     (act_return cas_paths)))))"

text \<open>\<^verbatim>\<open>tokio::task::spawn\<close> with \<^verbatim>\<open>expect\<close> on the join: a panic of the task is one of the caller.\<close>

definition spawn_join :: "('s, 'e failure, 'a) action \<Rightarrow> ('s, 'e failure, 'a) action" where
  "spawn_join =
     act_map_err (\<lambda>x. case x of Panic _ \<Rightarrow> Panic ''no join error'' | Err e \<Rightarrow> Err e | Blocked \<Rightarrow> Blocked | OutOfFuel \<Rightarrow> OutOfFuel)"

definition run_without_mem_cache ::
    "store_lib \<Rightarrow> tarball_lib \<Rightarrow> 'v network \<Rightarrow> store_dir \<Rightarrow> integrity \<Rightarrow> 64 word option \<Rightarrow> string
     \<Rightarrow> ('v world, tarball_error failure, cas_paths) action" where
  "run_without_mem_cache L T N S package_integrity package_unpacked_size package_url =
     act_bind (act_err (act_map_err (FetchTarball package_url) (http_get (net_bytes N) package_url))) (\<lambda>response.
     spawn_join (on_fs (unpack_tarball L T S package_integrity package_unpacked_size package_url response)))"

section \<open>The store and the memory\<close>

definition load_from_store ::
    "store_lib \<Rightarrow> store_dir \<Rightarrow> integrity \<Rightarrow> fs \<Rightarrow> tarball_error failure + cas_paths option" where
  "load_from_store L S package_integrity F =
     rbind (map_err (map_failure_err ReadTarballIndexFile) (read_index_file L S F package_integrity)) (\<lambda>index.
     case index of
       None \<Rightarrow> Inr None
     | Some index \<Rightarrow>
         map_ok Some (traverse (\<lambda>(path, info).
           rbind (map_err (\<lambda>e. Err (ParseFileIntegrity e)) (integrity_from_str L (fi_integrity info))) (\<lambda>i.
           let executable = is_all_exec (fi_mode info)
           in map_ok (\<lambda>store_path. (path, store_path)) (cas_file_path_by_integrity L S i executable)))
           (ix_files index)))"

definition set_cache :: "string \<Rightarrow> cache_value \<Rightarrow> ('v world, 'e, unit) action" where
  "set_cache url v = (\<lambda>w. (w\<lparr>w_mem_cache := AList.update url v (w_mem_cache w)\<rparr>, Inr ()))"

definition obtain_tarball ::
    "store_lib \<Rightarrow> tarball_lib \<Rightarrow> 'v network \<Rightarrow> store_dir \<Rightarrow> integrity \<Rightarrow> 64 word option \<Rightarrow> string \<Rightarrow> network_mode
     \<Rightarrow> ('v world, tarball_error failure, cas_paths) action" where
  "obtain_tarball L T N S package_integrity package_unpacked_size package_url network_mode =
     act_bind (act_read (\<lambda>w. load_from_store L S package_integrity (w_fs w))) (\<lambda>stored.
     case stored of
       Some cas_paths \<Rightarrow> act_return cas_paths
     | None \<Rightarrow>
         if network_mode = NetworkOffline then act_throw (Err (OfflineCacheMiss package_url))
         else run_without_mem_cache L T N S package_integrity package_unpacked_size package_url)"

definition run_with_mem_cache ::
    "store_lib \<Rightarrow> tarball_lib \<Rightarrow> 'v network \<Rightarrow> store_dir \<Rightarrow> integrity \<Rightarrow> 64 word option \<Rightarrow> string \<Rightarrow> network_mode
     \<Rightarrow> ('v world, tarball_error failure, cas_paths) action" where
  "run_with_mem_cache L T N S package_integrity package_unpacked_size package_url network_mode =
     act_bind (act_read (\<lambda>w. Inr (map_of (w_mem_cache w) package_url))) (\<lambda>cached.
     case cached of
       Some (Available cas_paths) \<Rightarrow> act_return cas_paths
     | Some InProgress \<Rightarrow> act_throw Blocked
     | None \<Rightarrow>
         act_then (set_cache package_url InProgress)
         (act_bind (obtain_tarball L T N S package_integrity package_unpacked_size package_url network_mode) (\<lambda>cas_paths.
          act_then (set_cache package_url (Available cas_paths)) (act_return cas_paths))))"

end
