(* ===== verification/Virtual_Store.thy ===== *)
theory Virtual_Store
  imports Linking Selection Tarball
begin

text \<open>
  The installation of a lockfile, \<^verbatim>\<open>crates/package-manager/src\<close>:
  \<^verbatim>\<open>install_package_by_snapshot.rs\<close>, \<^verbatim>\<open>create_virtual_store.rs\<close>, \<^verbatim>\<open>install_frozen_lockfile.rs\<close> and the
  \<^verbatim>\<open>run\<close> of \<^verbatim>\<open>fetch.rs\<close>.
\<close>

section \<open>The installer\<close>

text \<open>The libraries and the settings that all operations of an installation share.\<close>

record ('v, 'r) installer =
  i_extern :: "('v, 'r) extern"
  i_store :: store_lib
  i_tarball :: tarball_lib
  i_network :: "'v network"
  i_reflink :: reflink_lib
  i_config :: npmrc

abbreviation download ::
    "('v, 'r) installer \<Rightarrow> integrity \<Rightarrow> 64 word option \<Rightarrow> string \<Rightarrow> network_mode
     \<Rightarrow> ('v world, tarball_error failure, cas_paths) action" where
  "download I \<equiv> run_with_mem_cache (i_store I) (i_tarball I) (i_network I) (nc_store_dir (i_config I))"

section \<open>One package\<close>

datatype install_package_by_snapshot_error =
    DownloadTarball tarball_error
  | CreateVirtualDir create_virtual_dir_error

text \<open>The URL and the integrity of a resolution. Two kinds of resolution panic.\<close>

definition registry_tarball_url ::
    "('v, 'r) extern \<Rightarrow> npmrc \<Rightarrow> 'v dependency_path \<Rightarrow> string" where
  "registry_tarball_url X config dependency_path =
     (let registry = (case dp_custom_registry dependency_path of None \<Rightarrow> nc_registry config | Some r \<Rightarrow> r);
          registry = (case strip_suffix_char (CHR ''/'') registry of None \<Rightarrow> registry | Some r \<Rightarrow> r);
          nm = ns_name (dp_package_specifier dependency_path);
          version = show_version X (vp_version (ns_suffix (dp_package_specifier dependency_path)))
      in registry @ ''/'' @ pkg_name_to_string nm @ ''/-/'' @ pn_bare nm @ ''-'' @ version @ ''.tgz'')"

definition tarball_of_snapshot ::
    "('v, 'r) extern \<Rightarrow> npmrc \<Rightarrow> 'v dependency_path \<Rightarrow> 'v package_snapshot \<Rightarrow> 'e failure + string \<times> integrity" where
  "tarball_of_snapshot X config dependency_path package_snapshot =
     (case sn_resolution package_snapshot of
        Tarball tarball_resolution \<Rightarrow>
          (case tr_integrity tarball_resolution of
             None \<Rightarrow> Inl (Panic (''Current implementation requires integrity, but ''
                       @ dependency_path_to_string X dependency_path @ '' doesn't have it''))
           | Some i \<Rightarrow> Inr (tr_tarball tarball_resolution, i))
      | Registry registry_resolution \<Rightarrow>
          Inr (registry_tarball_url X config dependency_path, rr_integrity registry_resolution)
      | _ \<Rightarrow> Inl (Panic (''Only TarballResolution and RegistryResolution is supported at the moment, but ''
               @ dependency_path_to_string X dependency_path @ '' requires another'')))"

definition install_package_by_snapshot ::
    "('v, 'r) installer \<Rightarrow> network_mode \<Rightarrow> 'v dependency_path \<Rightarrow> 'v package_snapshot
     \<Rightarrow> ('v world, install_package_by_snapshot_error failure, unit) action" where
  "install_package_by_snapshot I network_mode dependency_path package_snapshot =
     act_bind (act_read (\<lambda>_. tarball_of_snapshot (i_extern I) (i_config I) dependency_path package_snapshot))
       (\<lambda>(tarball_url, package_integrity).
     act_bind (act_map_err (map_failure_err DownloadTarball)
                 (download I package_integrity None tarball_url network_mode)) (\<lambda>cas_paths.
     act_map_err (map_failure_err CreateVirtualDir)
       (on_fs (create_virtual_dir (i_extern I) (i_reflink I) (nc_virtual_store_dir (i_config I)) cas_paths
                 (nc_package_import_method (i_config I)) dependency_path package_snapshot))))"

section \<open>All packages\<close>

text \<open>A lockfile without packages is a \<^verbatim>\<open>todo!\<close>.\<close>

definition create_virtual_store ::
    "('v, 'r) installer \<Rightarrow> 'v packages option \<Rightarrow> network_mode \<Rightarrow> ('v world, 'e failure, unit) action" where
  "create_virtual_store I packages network_mode =
     (case packages of
        None \<Rightarrow> act_throw (Panic ''not yet implemented: check project_snapshot, error if it's not empty, do nothing if empty'')
      | Some packages \<Rightarrow>
          act_bind (act_join (\<lambda>(dependency_path, package_snapshot).
              act_expect ''called Result::unwrap() on an Err value''
                (install_package_by_snapshot I network_mode dependency_path package_snapshot)
              :: ('v world, unit failure, unit) action) packages) (\<lambda>_.
          act_return ()))"

definition install_frozen_lockfile ::
    "('v, 'r) installer \<Rightarrow> 'v root_project_snapshot \<Rightarrow> 'v packages option \<Rightarrow> dependency_group list \<Rightarrow> network_mode
     \<Rightarrow> ('v world, 'e failure, unit) action" where
  "install_frozen_lockfile I project_snapshot packages dependency_groups network_mode =
     act_then (create_virtual_store I packages network_mode)
       (on_fs (symlink_direct_dependencies (i_extern I) (i_config I) project_snapshot dependency_groups))"

section \<open>fetch\<close>

datatype fetch_run_error = Selecting fetch_error | InstallPackage install_package_by_snapshot_error

definition fetch_run ::
    "('v, 'r) installer \<Rightarrow> 'v lockfile \<Rightarrow> dependency_group list \<Rightarrow> ('v world, fetch_run_error failure, unit) action" where
  "fetch_run I lf dependency_groups =
     act_bind (act_read (\<lambda>_. ok_or (Err (Selecting MissingPackageSnapshots)) (lf_packages lf))) (\<lambda>packages.
     let index = index_new (i_extern I) packages
     in act_bind (act_read (\<lambda>_. map_err (\<lambda>e. Err (Selecting e))
            (collect_selected_packages (i_extern I) (lf_project_snapshot lf) packages index dependency_groups))) (\<lambda>selected.
        act_bind (act_read (\<lambda>_. traverse (\<lambda>dependency_path.
            map_ok (\<lambda>package_snapshot. (dependency_path, package_snapshot))
              (ok_or (Panic ''selected package snapshot exists'') (map_of packages dependency_path))) selected)) (\<lambda>tasks.
        act_bind (act_join (\<lambda>(dependency_path, package_snapshot).
            install_package_by_snapshot I NetworkOnline dependency_path package_snapshot) tasks) (\<lambda>results.
        act_for (\<lambda>result. act_read (\<lambda>_. map_err (\<lambda>e. Err (InstallPackage e)) result)) results))))"

end
