(* ===== verification/Registry_Install.thy ===== *)
theory Registry_Install
  imports Virtual_Store Metadata_Cache Manifest Package_Spec
begin

text \<open>
  Installing straight from the registry, \<^verbatim>\<open>crates/package-manager/src\<close>:
  \<^verbatim>\<open>install_package_from_registry.rs\<close>, \<^verbatim>\<open>install_without_lockfile.rs\<close> and \<^verbatim>\<open>store_add.rs\<close>. The two
  recursions over dependencies take a bound on their depth.
\<close>

section \<open>One package\<close>

datatype install_package_from_registry_error =
    FetchFromRegistry registry_error
  | DownloadTarballToStore tarball_error
  | RegistryCreateCasFiles create_cas_files_error
  | SymlinkPackage symlink_package_error

abbreviation package_metadata ::
    "('v, 'r) installer \<Rightarrow> registry_metadata_mode \<Rightarrow> string \<Rightarrow> ('v world, registry_error failure, 'v package) action" where
  "package_metadata I mode nm \<equiv>
     fetch_package_metadata (i_store I) (i_network I) nm (nc_registry (i_config I)) (nc_store_dir (i_config I)) mode"

text \<open>The metadata of a package, and the version of it that a specifier asks for.\<close>

definition fetch_version ::
    "('v, 'r) installer \<Rightarrow> registry_metadata_mode \<Rightarrow> string \<Rightarrow> string
     \<Rightarrow> ('v world, registry_error failure, 'v package_version) action" where
  "fetch_version I mode nm version_range =
     act_bind (package_metadata I mode nm) (\<lambda>package.
     act_read (\<lambda>_. version_by_specifier (i_extern I) package version_range))"

definition install_package_version ::
    "('v, 'r) installer \<Rightarrow> path \<Rightarrow> 'v package_version
     \<Rightarrow> ('v world, install_package_from_registry_error failure, unit) action" where
  "install_package_version I node_modules_dir package_version =
     (let config = i_config I;
          store_folder_name = pv_to_virtual_store_name (i_extern I) package_version
      in case pd_integrity (pv_dist package_version) of
           None \<Rightarrow> act_throw (Panic ''has integrity field'')
         | Some package_integrity \<Rightarrow>
             act_bind (act_map_err (map_failure_err DownloadTarballToStore)
                         (download I package_integrity (pd_unpacked_size (pv_dist package_version))
                           (as_tarball_url package_version) NetworkOnline)) (\<lambda>cas_paths.
             let save_path = join_str (join_str (join_str (nc_virtual_store_dir config) store_folder_name) ''node_modules'')
                               (pv_name package_version);
                 symlink_path = join_str node_modules_dir (pv_name package_version)
             in act_then (act_map_err (\<lambda>e. Err (RegistryCreateCasFiles e))
                            (on_fs (create_cas_files (i_reflink I) (nc_package_import_method config) save_path cas_paths)))
                  (act_map_err (\<lambda>e. Err (SymlinkPackage e)) (on_fs (symlink_package save_path symlink_path)))))"

definition install_package_from_registry ::
    "('v, 'r) installer \<Rightarrow> registry_metadata_mode \<Rightarrow> path \<Rightarrow> string \<Rightarrow> string
     \<Rightarrow> ('v world, install_package_from_registry_error failure, 'v package_version) action" where
  "install_package_from_registry I mode node_modules_dir nm version_range =
     act_bind (act_map_err (map_failure_err FetchFromRegistry) (fetch_version I mode nm version_range)) (\<lambda>package_version.
     act_then (install_package_version I node_modules_dir package_version) (act_return package_version))"

section \<open>The dependencies of a package\<close>

text \<open>\<^verbatim>\<open>DashSet::insert\<close>: whether the name was new.\<close>

definition mark_resolved :: "string \<Rightarrow> ('v world, 'e, bool) action" where
  "mark_resolved nm =
     (\<lambda>w. if nm \<in> set (w_resolved w) then (w, Inr False) else (w\<lparr>w_resolved := nm # w_resolved w\<rparr>, Inr True))"

fun install_dependencies_from_registry ::
    "nat \<Rightarrow> ('v, 'r) installer \<Rightarrow> registry_metadata_mode \<Rightarrow> 'v package_version \<Rightarrow> ('v world, 'e failure, unit) action" where
  "install_dependencies_from_registry 0 I mode package = act_throw OutOfFuel"
| "install_dependencies_from_registry (Suc fuel) I mode package =
     act_bind (mark_resolved (pv_to_virtual_store_name (i_extern I) package)) (\<lambda>fresh.
     if \<not> fresh then act_return ()
     else
       let node_modules_path = join_str (join_str (nc_virtual_store_dir (i_config I))
                                 (pv_to_virtual_store_name (i_extern I) package)) ''node_modules''
       in act_bind (act_join (\<lambda>(nm, version_range).
              act_bind (act_expect ''called Result::unwrap() on an Err value''
                          (install_package_from_registry I mode node_modules_path nm version_range)) (\<lambda>dependency.
              install_dependencies_from_registry fuel I mode dependency :: ('v world, 'e failure, unit) action))
              (package_dependencies package (nc_auto_install_peers (i_config I)))) (\<lambda>_.
          act_return ()))"

definition install_without_lockfile ::
    "nat \<Rightarrow> ('v, 'r) installer \<Rightarrow> registry_metadata_mode \<Rightarrow> package_manifest \<Rightarrow> dependency_group list
     \<Rightarrow> ('v world, 'e failure, unit) action" where
  "install_without_lockfile fuel I mode M dependency_groups =
     act_bind (act_join (\<lambda>(nm, version_range).
         act_bind (act_expect ''called Result::unwrap() on an Err value''
                     (install_package_from_registry I mode (nc_modules_dir (i_config I)) nm version_range)) (\<lambda>dependency.
         install_dependencies_from_registry fuel I mode dependency :: ('v world, 'e failure, unit) action)) (manifest_dependencies M dependency_groups)) (\<lambda>_.
     act_expect ''sync direct dependency links''
       (act_err (on_fs (sync_direct_dependency_links (nc_modules_dir (i_config I))
          (map fst (manifest_dependencies M dependency_groups))))))"

section \<open>Filling the store\<close>

datatype store_add_error = StoreFetchFromRegistry registry_error | StoreDownloadTarball tarball_error

fun store_package_and_dependencies ::
    "nat \<Rightarrow> ('v, 'r) installer \<Rightarrow> 'v package_version \<Rightarrow> ('v world, store_add_error failure, unit) action" where
  "store_package_and_dependencies 0 I package = act_throw OutOfFuel"
| "store_package_and_dependencies (Suc fuel) I package =
     act_bind (mark_resolved (pv_to_virtual_store_name (i_extern I) package)) (\<lambda>fresh.
     if \<not> fresh then act_return ()
     else case pd_integrity (pv_dist package) of
       None \<Rightarrow> act_throw (Panic ''registry metadata should include integrity'')
     | Some package_integrity \<Rightarrow>
         act_bind (act_map_err (map_failure_err StoreDownloadTarball)
                     (download I package_integrity (pd_unpacked_size (pv_dist package)) (as_tarball_url package) NetworkOnline))
           (\<lambda>_.
         act_bind (act_bind (act_join (\<lambda>(nm, version_range).
             act_map_err (map_failure_err StoreFetchFromRegistry) (fetch_version I Online nm version_range))
             (package_dependencies package (nc_auto_install_peers (i_config I)))) act_collect) (\<lambda>dependencies.
         act_for (store_package_and_dependencies fuel I) dependencies)))"

definition store_add ::
    "nat \<Rightarrow> ('v, 'r) installer \<Rightarrow> string list \<Rightarrow> ('v world, store_add_error failure, unit) action" where
  "store_add fuel I packages =
     act_bind (act_bind (act_join (\<lambda>package.
         let spec = package_spec_parse package
         in act_map_err (map_failure_err StoreFetchFromRegistry)
              (fetch_version I Online (sp_name spec) (case sp_specifier spec of None \<Rightarrow> ''latest'' | Some s \<Rightarrow> s)))
         packages) act_collect) (\<lambda>root_packages.
     act_for (store_package_and_dependencies fuel I) root_packages)"

end
