(* ===== verification/Create_Bins.thy ===== *)
theory Create_Bins
  imports Path_Order Manifest Store_Dir
begin

text \<open>
  \<^verbatim>\<open>crates/package-manager/src/create_bins.rs\<close>: the links in \<^verbatim>\<open>node_modules/.bin\<close> of the project and of
  every package of the virtual store.
\<close>

datatype create_bins_error =
    BinsReadDir path io_kind
  | BinsReadDirEntry path io_kind
  | CreateBinDir path io_kind
  | RemoveBinDir path io_kind
  | LoadManifest path manifest_error
  | CreateBinLink path path io_kind

section \<open>The packages of a directory\<close>

definition is_link :: "node \<Rightarrow> bool" where
  "is_link nd = (case nd of Symlink _ \<Rightarrow> True | _ \<Rightarrow> False)"

text \<open>\<^verbatim>\<open>DirEntry::file_type\<close>, which does not follow links.\<close>

definition entry_file_type :: "fs \<Rightarrow> path \<Rightarrow> io_kind + node" where
  "entry_file_type F p = map_ok snd (fs_symlink_metadata F p)"

definition sorted_entries :: "fs \<Rightarrow> path \<Rightarrow> create_bins_error + string list" where
  "sorted_entries F dir = map_ok sort (map_err (BinsReadDir dir) (fs_read_dir F dir))"

definition collect_virtual_store_node_modules_dirs :: "fs \<Rightarrow> path \<Rightarrow> create_bins_error + path list" where
  "collect_virtual_store_node_modules_dirs F root =
     map_ok (\<lambda>names. filter (fs_exists F)
         (List.map_filter (\<lambda>nm.
            let path = path_join root [Normal nm]
            in case entry_file_type F path of
                 Inr Dir \<Rightarrow> Some (join_str path ''node_modules'')
               | _ \<Rightarrow> None) names))
       (sorted_entries F root)"

definition scoped_package_dirs :: "fs \<Rightarrow> path \<Rightarrow> string list \<Rightarrow> path list" where
  "scoped_package_dirs F path names =
     List.map_filter (\<lambda>nm.
       let p = path_join path [Normal nm]
       in case entry_file_type F p of
            Inr file_type \<Rightarrow> if file_type = Dir \<or> is_link file_type then Some p else None
          | Inl _ \<Rightarrow> None) names"

definition package_dirs_of_entry :: "fs \<Rightarrow> path \<Rightarrow> string \<Rightarrow> create_bins_error + path list" where
  "package_dirs_of_entry F dir file_name =
     (let path = path_join dir [Normal file_name]
      in rbind (map_err (BinsReadDirEntry dir) (entry_file_type F path)) (\<lambda>file_type.
         if file_name = ''.bin'' \<or> starts_with_char (CHR ''.'') file_name then Inr []
         else if starts_with_char (CHR ''@'') file_name \<and> file_type = Dir then
           map_ok (scoped_package_dirs F path) (sorted_entries F path)
         else if file_type = Dir \<or> is_link file_type then Inr [path]
         else Inr []))"

definition immediate_package_dirs :: "fs \<Rightarrow> path \<Rightarrow> create_bins_error + path list" where
  "immediate_package_dirs F node_modules_dir =
     rbind (sorted_entries F node_modules_dir) (\<lambda>names.
     map_ok concat (traverse (package_dirs_of_entry F node_modules_dir) names))"

section \<open>The links\<close>

text \<open>\<^verbatim>\<open>sort\<close> on pairs.\<close>

definition sort_pairs :: "(string \<times> string) list \<Rightarrow> (string \<times> string) list" where
  "sort_pairs xs = sort_key fst (sort_key snd xs)"

text \<open>The bins of one package; a package without a manifest has none.\<close>

definition package_bins :: "json_lib \<Rightarrow> fs \<Rightarrow> path \<Rightarrow> create_bins_error + (string \<times> string) list" where
  "package_bins J F package_dir =
     (let manifest_path = join_str package_dir ''package.json''
      in if \<not> fs_exists F manifest_path then Inr []
         else rbind (map_err (LoadManifest manifest_path) (manifest_from_path J F manifest_path)) (\<lambda>manifest.
              map_ok sort_pairs (map_err (LoadManifest manifest_path) (manifest_bin_entries J manifest))))"

text \<open>The map from names to targets: the first package that has a name keeps it.\<close>

fun collect_bin_links ::
    "json_lib \<Rightarrow> fs \<Rightarrow> path list \<Rightarrow> (string \<times> path) list \<Rightarrow> create_bins_error + (string \<times> path) list" where
  "collect_bin_links J F [] bin_links = Inr bin_links"
| "collect_bin_links J F (package_dir # package_dirs) bin_links =
     rbind (package_bins J F package_dir) (\<lambda>bin_entries.
     collect_bin_links J F package_dirs
       (fold (\<lambda>(bin_name, relative_target). or_insert bin_name (join_str package_dir relative_target))
          bin_entries bin_links))"

definition create_bin_link :: "path \<Rightarrow> string \<Rightarrow> path \<Rightarrow> (fs, create_bins_error, unit) action" where
  "create_bin_link bin_dir bin_name target =
     (let link = join_str bin_dir bin_name
      in act_bind (act_catch (act_call (\<lambda>F. symlink_file F target link))) (\<lambda>r.
         case r of
           Inl e \<Rightarrow> if e \<noteq> AlreadyExists then act_throw (CreateBinLink target link e) else act_return ()
         | Inr _ \<Rightarrow> act_return ()))"

definition create_bin_links_for_node_modules :: "json_lib \<Rightarrow> path \<Rightarrow> (fs, create_bins_error, unit) action" where
  "create_bin_links_for_node_modules J node_modules_dir =
     act_bind (act_read (\<lambda>F. rbind (immediate_package_dirs F node_modules_dir) (\<lambda>package_dirs.
                            collect_bin_links J F package_dirs []))) (\<lambda>bin_links.
     let bin_dir = join_str node_modules_dir ''.bin''
     in act_bind (act_read (\<lambda>F. Inr (fs_exists F bin_dir))) (\<lambda>there.
        act_then (if there then act_map_err (RemoveBinDir bin_dir) (act_call (\<lambda>F. fs_remove_dir_all F bin_dir))
                  else act_return ())
        (if bin_links = [] then act_return ()
         else act_then (act_map_err (CreateBinDir bin_dir) (act_call (\<lambda>F. fs_create_dir_all F bin_dir)))
                (act_for (\<lambda>(bin_name, target). create_bin_link bin_dir bin_name target) (btree_entries bin_links)))))"

definition create_bins :: "json_lib \<Rightarrow> path \<Rightarrow> path \<Rightarrow> (fs, create_bins_error, unit) action" where
  "create_bins J modules_dir virtual_store_dir =
     act_bind (act_read (\<lambda>F. Inr (fs_exists F modules_dir))) (\<lambda>there.
     act_then (if there then create_bin_links_for_node_modules J modules_dir else act_return ())
     (act_bind (act_read (\<lambda>F. Inr (fs_exists F virtual_store_dir))) (\<lambda>there.
      if there then
        act_bind (act_read (\<lambda>F. collect_virtual_store_node_modules_dirs F virtual_store_dir)) (\<lambda>dirs.
        act_for (create_bin_links_for_node_modules J) dirs)
      else act_return ())))"

end
