(* ===== verification/Install.thy ===== *)
theory Install
  imports Registry_Install Generate_Lockfile Create_Bins
begin

text \<open>
  The commands, \<^verbatim>\<open>crates/package-manager/src\<close>: \<^verbatim>\<open>install.rs\<close>, \<^verbatim>\<open>add.rs\<close>, \<^verbatim>\<open>remove.rs\<close> and \<^verbatim>\<open>update.rs\<close>. They
  share the installer, the JSON and YAML libraries and the bound on the recursions.
\<close>

section \<open>Install\<close>

record ('v, 'r) workspace =
  ws_installer :: "('v, 'r) installer"
  ws_json :: json_lib
  ws_yaml :: "'v yaml_lib"
  ws_fuel :: nat

record install_flags =
  if_frozen_lockfile :: bool
  if_offline :: bool
  if_prefer_offline :: bool
  if_lockfile_only :: bool
  if_resolution_only :: bool

definition no_flags :: install_flags where
  "no_flags = \<lparr> if_frozen_lockfile = False, if_offline = False, if_prefer_offline = False,
                if_lockfile_only = False, if_resolution_only = False \<rparr>"

abbreviation ws_config :: "('v, 'r) workspace \<Rightarrow> npmrc" where
  "ws_config W \<equiv> i_config (ws_installer W)"

text \<open>\<^verbatim>\<open>collect::<HashMap<_, _>>\<close>: a later value of a key replaces an earlier one.\<close>

definition collect_map :: "('k \<times> 'a) list \<Rightarrow> ('k \<times> 'a) list" where
  "collect_map xs = fold (\<lambda>(k, v). AList.update k v) xs []"

definition group_in_sync :: "package_manifest \<Rightarrow> 'v project_snapshot \<Rightarrow> dependency_group \<Rightarrow> bool" where
  "group_in_sync M project_snapshot g =
     (let manifest_dependencies = collect_map (manifest_dependencies M [g]);
          snapshot_dependencies = (case get_map_by_group project_snapshot g of
              None \<Rightarrow> []
            | Some dependencies \<Rightarrow> collect_map (map (\<lambda>(nm, spec). (pkg_name_to_string nm, rd_specifier spec)) dependencies))
      in length manifest_dependencies = length snapshot_dependencies
         \<and> list_all (\<lambda>(nm, specifier). map_of snapshot_dependencies nm = Some specifier) manifest_dependencies)"

definition lockfile_matches_manifest :: "package_manifest \<Rightarrow> 'v lockfile \<Rightarrow> dependency_group list \<Rightarrow> bool" where
  "lockfile_matches_manifest M lf dependency_groups =
     (case lf_project_snapshot lf of
        Multi _ \<Rightarrow> False
      | Single project_snapshot \<Rightarrow> list_all (group_in_sync M project_snapshot) dependency_groups)"

definition lockfile_in_sync :: "package_manifest \<Rightarrow> 'v lockfile \<Rightarrow> dependency_group list \<Rightarrow> bool" where
  "lockfile_in_sync M lf dependency_groups = lockfile_matches_manifest M lf dependency_groups"

definition install_from_lockfile ::
    "('v, 'r) workspace \<Rightarrow> 'v lockfile \<Rightarrow> dependency_group list \<Rightarrow> network_mode \<Rightarrow> ('v world, 'e failure, unit) action" where
  "install_from_lockfile W lf dependency_groups network_mode =
     (if cv_major (lf_lockfile_version lf) \<noteq> 6 then act_throw (Panic ''assertion left == right failed'')
      else install_frozen_lockfile (ws_installer W) (lf_project_snapshot lf) (lf_packages lf) dependency_groups network_mode)"

definition metadata_mode :: "bool \<Rightarrow> registry_metadata_mode" where
  "metadata_mode prefer_offline = (if prefer_offline then PreferOffline else Online)"

definition generate_and_save ::
    "('v, 'r) workspace \<Rightarrow> package_manifest \<Rightarrow> dependency_group list \<Rightarrow> bool \<Rightarrow> ('v world, 'e failure, 'v lockfile) action" where
  "generate_and_save W M dependency_groups prefer_offline =
     (let I = ws_installer W;
          G = \<lparr> g_extern = i_extern I, g_store = i_store I, g_network = i_network I, g_config = i_config I,
                g_mode = metadata_mode prefer_offline \<rparr>
      in act_bind (act_expect ''generate pnpm lockfile'' (generate_lockfile (ws_fuel W) G M dependency_groups)) (\<lambda>lf.
         let lockfile_dir = (case path_parent (mf_path M) of None \<Rightarrow> [CurDir] | Some d \<Rightarrow> d)
         in act_bind (act_expect ''save pnpm lockfile to workspace'' (act_err (on_fs (save_to_dir (ws_yaml W) lf lockfile_dir)))) (\<lambda>_.
            act_return lf)))"

text \<open>The branches that go on to the bins.\<close>

definition install_packages ::
    "('v, 'r) workspace \<Rightarrow> package_manifest \<Rightarrow> 'v lockfile option \<Rightarrow> dependency_group list \<Rightarrow> install_flags
     \<Rightarrow> ('v world, 'e failure, unit) action" where
  "install_packages W M lockfile dependency_groups flags =
     (if if_offline flags then
        (case lockfile of
           None \<Rightarrow> act_throw (Panic ''--offline requires an existing pnpm-lock.yaml'')
         | Some lf \<Rightarrow>
             if if_frozen_lockfile flags \<or> lockfile_matches_manifest M lf dependency_groups
             then install_from_lockfile W lf dependency_groups NetworkOffline
             else act_throw (Panic ''--offline requires pnpm-lock.yaml to be in sync with package.json''))
      else if \<not> nc_lockfile (ws_config W) then
        install_without_lockfile (ws_fuel W) (ws_installer W) (metadata_mode (if_prefer_offline flags)) M dependency_groups
      else if if_frozen_lockfile flags then
        (case lockfile of
           None \<Rightarrow> act_throw (Panic ''--frozen-lockfile requires an existing pnpm-lock.yaml'')
         | Some lf \<Rightarrow>
             if \<not> lockfile_in_sync M lf dependency_groups
             then act_throw (Panic ''--frozen-lockfile requires pnpm-lock.yaml to be in sync with package.json'')
             else install_from_lockfile W lf dependency_groups NetworkOnline)
      else
        (case lockfile of
           Some lf \<Rightarrow>
             if nc_prefer_frozen_lockfile (ws_config W) \<and> lockfile_matches_manifest M lf dependency_groups
             then install_from_lockfile W lf dependency_groups NetworkOnline
             else act_bind (generate_and_save W M dependency_groups (if_prefer_offline flags)) (\<lambda>generated.
                  install_from_lockfile W generated dependency_groups NetworkOnline)
         | None \<Rightarrow>
             act_bind (generate_and_save W M dependency_groups (if_prefer_offline flags)) (\<lambda>generated.
             install_from_lockfile W generated dependency_groups NetworkOnline)))"

definition install ::
    "('v, 'r) workspace \<Rightarrow> package_manifest \<Rightarrow> 'v lockfile option \<Rightarrow> dependency_group list \<Rightarrow> install_flags
     \<Rightarrow> ('v world, 'e failure, unit) action" where
  "install W M lockfile dependency_groups flags =
     (if if_lockfile_only flags \<or> if_resolution_only flags then
        if if_frozen_lockfile flags then
          act_throw (Panic ''--lockfile-only and --resolution-only cannot be used with --frozen-lockfile'')
        else if if_offline flags then
          act_throw (Panic ''--lockfile-only and --resolution-only cannot be used with --offline'')
        else if if_lockfile_only flags \<and> \<not> if_resolution_only flags
              \<and> (case lockfile of None \<Rightarrow> False | Some lf \<Rightarrow> lockfile_in_sync M lf dependency_groups)
        then act_return ()
        else act_bind (generate_and_save W M dependency_groups (if_prefer_offline flags)) (\<lambda>_. act_return ())
      else
        act_then (install_packages W M lockfile dependency_groups flags)
          (act_expect ''create node_modules/.bin layout''
             (act_err (on_fs (create_bins (ws_json W) (nc_modules_dir (ws_config W)) (nc_virtual_store_dir (ws_config W)))))))"

section \<open>Changing the manifest\<close>

definition save_manifest ::
    "json_lib \<Rightarrow> package_manifest \<Rightarrow> ('v world, manifest_error, unit) action" where
  "save_manifest J M = on_fs (\<lambda>F. manifest_save J F M)"

datatype add_error =
    AddDependencyToManifest manifest_error
  | AddSaveManifest manifest_error
  | AddFetchFromRegistry registry_error

text \<open>What the command adds for one argument.\<close>

definition resolve_added_spec ::
    "('v, 'r) installer \<Rightarrow> bool \<Rightarrow> string \<Rightarrow> ('v world, add_error failure, string \<times> string) action" where
  "resolve_added_spec I save_exact package =
     (let spec = package_spec_parse package
      in case sp_specifier spec of
           Some specifier \<Rightarrow> act_return (sp_name spec, specifier)
         | None \<Rightarrow>
             act_bind (act_map_err (map_failure_err AddFetchFromRegistry)
                         (fetch_version I Online (sp_name spec) ''latest'')) (\<lambda>version.
             act_return (sp_name spec, pv_serialize (i_extern I) version save_exact)))"

fun add_to_groups ::
    "json_lib \<Rightarrow> string \<Rightarrow> string \<Rightarrow> dependency_group list \<Rightarrow> package_manifest \<Rightarrow> manifest_error failure + package_manifest" where
  "add_to_groups J nm version_range [] M = Inr M"
| "add_to_groups J nm version_range (g # groups) M =
     rbind (manifest_add_dependency J M nm version_range g) (add_to_groups J nm version_range groups)"

fun add_all :: "json_lib \<Rightarrow> dependency_group list \<Rightarrow> (string \<times> string) list \<Rightarrow> package_manifest \<Rightarrow> manifest_error failure + package_manifest" where
  "add_all J groups [] M = Inr M"
| "add_all J groups ((nm, version_range) # specs) M =
     rbind (add_to_groups J nm version_range groups M) (add_all J groups specs)"

text \<open>The commands return the manifest as they leave it.\<close>

definition add ::
    "('v, 'r) workspace \<Rightarrow> package_manifest \<Rightarrow> 'v lockfile option \<Rightarrow> dependency_group list \<Rightarrow> string list \<Rightarrow> bool
     \<Rightarrow> ('v world, add_error failure, package_manifest) action" where
  "add W M lockfile dependency_groups packages save_exact =
     act_bind (act_bind (act_join (resolve_added_spec (ws_installer W) save_exact) packages) act_collect) (\<lambda>specs.
     act_bind (act_read (\<lambda>_. map_err (map_failure_err AddDependencyToManifest) (add_all (ws_json W) dependency_groups specs M))) (\<lambda>M.
     act_then (install W M lockfile dependency_groups no_flags)
     (act_then (act_map_err (\<lambda>e. Err (AddSaveManifest e)) (save_manifest (ws_json W) M))
     (act_return M))))"

datatype remove_error = RemoveDependencyFromManifest manifest_error | RemoveSaveManifest manifest_error

fun remove_from_groups :: "json_lib \<Rightarrow> string \<Rightarrow> dependency_group list \<Rightarrow> package_manifest \<Rightarrow> manifest_error + package_manifest" where
  "remove_from_groups J package [] M = Inr M"
| "remove_from_groups J package (g # groups) M =
     rbind (manifest_remove_dependency J M package g) (\<lambda>(M, _). remove_from_groups J package groups M)"

fun remove_all :: "json_lib \<Rightarrow> dependency_group list \<Rightarrow> string list \<Rightarrow> package_manifest \<Rightarrow> manifest_error + package_manifest" where
  "remove_all J groups [] M = Inr M"
| "remove_all J groups (package # packages) M =
     rbind (remove_from_groups J package groups M) (remove_all J groups packages)"

definition remove ::
    "('v, 'r) workspace \<Rightarrow> package_manifest \<Rightarrow> dependency_group list \<Rightarrow> string list
     \<Rightarrow> ('v world, remove_error failure, package_manifest) action" where
  "remove W M dependency_groups packages =
     act_bind (act_read (\<lambda>_. map_err (\<lambda>e. Err (RemoveDependencyFromManifest e)) (remove_all (ws_json W) dependency_groups packages M))) (\<lambda>M.
     act_then (install W M None [Prod, Dev, Optional] no_flags)
     (act_then (act_map_err (\<lambda>e. Err (RemoveSaveManifest e)) (save_manifest (ws_json W) M))
     (act_return M)))"

section \<open>Update\<close>

datatype update_error =
    UpdateFetchFromRegistry registry_error
  | MissingPackage string
  | UpdateDependencyInManifest manifest_error
  | UpdateSaveManifest manifest_error

definition is_exact_version :: "('v, 'r) extern \<Rightarrow> string \<Rightarrow> bool" where
  "is_exact_version X specifier = is_ok (parse_version X specifier)"

definition target_entries_of ::
    "package_manifest \<Rightarrow> dependency_group list \<Rightarrow> string \<Rightarrow> (dependency_group \<times> string \<times> string) list" where
  "target_entries_of M dependency_groups nm =
     List.map_filter (\<lambda>g. map_option (\<lambda>specifier. (g, nm, specifier)) (manifest_dependency_version M nm g)) dependency_groups"

definition collect_target_entries ::
    "package_manifest \<Rightarrow> dependency_group list \<Rightarrow> string list \<Rightarrow> update_error + (dependency_group \<times> string \<times> string) list" where
  "collect_target_entries M dependency_groups packages =
     map_ok concat (traverse (\<lambda>package.
       let nm = sp_name (package_spec_parse package); targets = target_entries_of M dependency_groups nm
       in if targets = [] then Inl (MissingPackage nm) else Inr targets) packages)"

definition ensure_target_packages_exist ::
    "package_manifest \<Rightarrow> dependency_group list \<Rightarrow> string list \<Rightarrow> update_error + unit" where
  "ensure_target_packages_exist M dependency_groups packages =
     map_ok (\<lambda>_. ()) (traverse (\<lambda>package.
       let nm = sp_name (package_spec_parse package)
       in if list_all (\<lambda>g. manifest_dependency_version M nm g = None) dependency_groups
          then Inl (MissingPackage nm) else Inr ()) packages)"

definition resolve_update ::
    "('v, 'r) installer \<Rightarrow> dependency_group \<times> string \<times> string \<Rightarrow> ('v world, update_error failure, string \<times> string \<times> string) action" where
  "resolve_update I = (\<lambda>(_, nm, current_spec).
     act_bind (act_map_err (map_failure_err UpdateFetchFromRegistry) (fetch_version I Online nm ''latest'')) (\<lambda>latest_version.
     act_return (nm, current_spec,
       pv_serialize (i_extern I) latest_version (is_exact_version (i_extern I) current_spec))))"

text \<open>Where the previous specifier still stands, the next one replaces it.\<close>

fun replace_in_groups ::
    "json_lib \<Rightarrow> string \<Rightarrow> string \<Rightarrow> string \<Rightarrow> dependency_group list \<Rightarrow> package_manifest \<Rightarrow> manifest_error failure + package_manifest" where
  "replace_in_groups J nm previous_spec next_spec [] M = Inr M"
| "replace_in_groups J nm previous_spec next_spec (g # groups) M =
     rbind (if manifest_dependency_version M nm g = Some previous_spec
            then manifest_add_dependency J M nm next_spec g else Inr M)
       (replace_in_groups J nm previous_spec next_spec groups)"

fun apply_updates ::
    "json_lib \<Rightarrow> dependency_group list \<Rightarrow> (string \<times> string \<times> string) list \<Rightarrow> package_manifest \<Rightarrow> manifest_error failure + package_manifest" where
  "apply_updates J groups [] M = Inr M"
| "apply_updates J groups ((nm, previous_spec, next_spec) # updates) M =
     rbind (replace_in_groups J nm previous_spec next_spec groups M) (apply_updates J groups updates)"

text \<open>A given specifier goes into every group that has the package; the flag says whether one had.\<close>

fun set_in_groups ::
    "json_lib \<Rightarrow> string \<Rightarrow> string \<Rightarrow> dependency_group list \<Rightarrow> bool \<Rightarrow> package_manifest \<Rightarrow> manifest_error failure + package_manifest \<times> bool" where
  "set_in_groups J nm specifier [] updated M = Inr (M, updated)"
| "set_in_groups J nm specifier (g # groups) updated M =
     (if manifest_dependency_version M nm g = None then set_in_groups J nm specifier groups updated M
      else rbind (manifest_add_dependency J M nm specifier g) (set_in_groups J nm specifier groups True))"

fun set_specifiers ::
    "json_lib \<Rightarrow> dependency_group list \<Rightarrow> string list \<Rightarrow> package_manifest \<Rightarrow> update_error failure + package_manifest" where
  "set_specifiers J groups [] M = Inr M"
| "set_specifiers J groups (package # packages) M =
     (let spec = package_spec_parse package
      in case sp_specifier spec of
           None \<Rightarrow> set_specifiers J groups packages M
         | Some specifier \<Rightarrow>
             rbind (map_err (map_failure_err UpdateDependencyInManifest)
                      (set_in_groups J (sp_name spec) specifier groups False M)) (\<lambda>(M, updated).
             if \<not> updated then Inl (Err (MissingPackage (sp_name spec)))
             else set_specifiers J groups packages M))"

definition updated_manifest ::
    "('v, 'r) workspace \<Rightarrow> package_manifest \<Rightarrow> dependency_group list \<Rightarrow> string list \<Rightarrow> bool
     \<Rightarrow> ('v world, update_error failure, package_manifest) action" where
  "updated_manifest W M dependency_groups packages latest =
     (if latest then
        act_bind (act_read (\<lambda>_. if packages = [] then Inr (manifest_dependency_entries M dependency_groups)
                               else map_err Err (collect_target_entries M dependency_groups packages))) (\<lambda>targets.
        act_bind (act_bind (act_join (resolve_update (ws_installer W)) targets) act_collect) (\<lambda>updates.
        act_read (\<lambda>_. map_err (map_failure_err UpdateDependencyInManifest)
                         (apply_updates (ws_json W) dependency_groups updates M))))
      else if packages \<noteq> [] then
        act_bind (act_read (\<lambda>_. map_err Err (ensure_target_packages_exist M dependency_groups packages))) (\<lambda>_.
        act_read (\<lambda>_. set_specifiers (ws_json W) dependency_groups packages M))
      else act_return M)"

definition update_run ::
    "('v, 'r) workspace \<Rightarrow> package_manifest \<Rightarrow> dependency_group list \<Rightarrow> string list \<Rightarrow> bool
     \<Rightarrow> ('v world, update_error failure, package_manifest) action" where
  "update_run W M dependency_groups packages latest =
     act_bind (updated_manifest W M dependency_groups packages latest) (\<lambda>M.
     act_then (install W M None dependency_groups no_flags)
     (act_then (act_map_err (\<lambda>e. Err (UpdateSaveManifest e)) (save_manifest (ws_json W) M))
     (act_return M)))"

end
