(* ===== verification/Package_Files.thy ===== *)
theory Package_Files
  imports Linking
begin

text \<open>
  What an import leaves behind: \<^verbatim>\<open>link_file\<close> and \<^verbatim>\<open>create_cas_files\<close> give a package directory with
  the files of the store and nothing else.
\<close>

section \<open>One file\<close>

text \<open>\<open>linked ns data F F'\<close>: \<open>F'\<close> is \<open>F\<close> with a file at \<open>ns\<close> that reads \<open>data\<close>, and nothing else.\<close>

definition linked :: "names \<Rightarrow> string \<Rightarrow> fs \<Rightarrow> fs \<Rightarrow> bool" where
  "linked ns data F F' \<longleftrightarrow>
     tree_ok F' \<and> keeps F F'
     \<and> (\<exists>i. node_at F' ns = Some (File i) \<and> in_data (fs_inodes F' i) = data)
     \<and> (\<forall>q. q \<noteq> ns \<longrightarrow> node_at F' q = node_at F q)"

text \<open>What the documentation of \<^verbatim>\<open>reflink_copy\<close> says: a success makes a new file with the same content.\<close>

definition reflink_ok :: "reflink_lib \<Rightarrow> bool" where
  "reflink_ok R \<longleftrightarrow>
     (\<forall>F src tgt i F'. tree_ok F \<longrightarrow> node_at F src = Some (File i) \<longrightarrow> plain F tgt \<longrightarrow> node_at F tgt = None \<longrightarrow>
        rf_reflink R F (abs_path src) (abs_path tgt) = Inr F'
        \<or> rf_reflink_or_copy R F (abs_path src) (abs_path tgt) = Inr F' \<longrightarrow>
        linked tgt (in_data (fs_inodes F i)) F F')"

lemma plain_linked: "linked ns data F F' \<Longrightarrow> plain F q \<Longrightarrow> plain F' q"
  unfolding linked_def plain_def by (metis node.distinct(3) option.inject)

lemma hard_link_linked:
  assumes ok: "tree_ok F" and src: "node_at F src = Some (File i)"
    and tgt: "plain F tgt" "node_at F tgt = None"
    and run: "fs_hard_link F (abs_path src) (abs_path tgt) = Inr F'"
  shows "linked tgt (in_data (fs_inodes F i)) F F'"
proof -
  have l: "lookup F False (abs_path src) = Found src (File i)" by (rule lookup_node [OF ok src]) simp
  from lookup_None [OF tgt, of False] run l obtain d n where
    dn: "tgt = d @ [n]" "node_at F d = Some Dir" and F': "F' = set_node (d @ [n]) (File i) F"
    by (auto simp: fs_hard_link_def guarded_Inr)
  have "tree_ok F'"
    unfolding F' using dn tgt(2) tree_okD(2) [OF ok src] by (intro tree_ok_set_node [OF ok]) auto
  moreover have "keeps F F'" using grows_set_Absent [OF tgt(2), of "File i"] by (simp add: keeps_def F' dn)
  ultimately show ?thesis by (auto simp: linked_def F' dn node_at_set_node)
qed

lemma copy_linked:
  assumes ok: "tree_ok F" and src: "node_at F src = Some (File i)"
    and tgt: "plain F tgt" "node_at F tgt = None"
    and run: "fs_copy F (abs_path src) (abs_path tgt) = Inr F'"
  shows "linked tgt (in_data (fs_inodes F i)) F F'"
proof -
  have l: "lookup F True (abs_path src) = Found src (File i)" by (rule lookup_node [OF ok src]) simp
  from run l obtain F1 j where o: "fs_open_create F (abs_path tgt) (in_mode (fs_inodes F i)) = Inr (F1, j)"
    and F': "F' = set_mode j (in_mode (fs_inodes F i)) (set_data j (in_data (fs_inodes F i)) F1)"
    by (auto simp: fs_copy_def guarded_Inr result_simps)
  from o lookup_None [OF tgt, of True] obtain d n where dn: "tgt = d @ [n]" "node_at F d = Some Dir"
    by (auto simp: fs_open_create_def guarded_Inr)
  from open_create_child [OF ok dn(2) _ o [unfolded dn(1)]] tgt(2) dn(1)
  have j: "j = fs_next F" and F1: "F1 = fresh_file (d @ [n]) \<lparr>in_data = [], in_mode = in_mode (fs_inodes F i) AND NOT (fs_umask F)\<rparr> F"
    by auto
  have t1: "tree_ok F1" unfolding F1 using tgt(2) dn by (intro tree_ok_fresh_file [OF ok dn(2)]) simp
  have n': "node_at F' = node_at F1" "fs_next F' = fs_next F1" by (simp_all add: F')
  have "tree_ok F'" by (rule tree_ok_same_nodes [OF t1 n'])
  moreover have "keeps F F1" unfolding F1 using tgt(2) dn by (intro keeps_fresh_file [OF ok]) simp
  then have "keeps F F'"
    unfolding keeps_def grows_def n'(1) by (simp add: F' j inodes_set_data set_mode_def)
  moreover have "node_at F1 tgt = Some (File j)" by (simp add: F1 j dn node_at_fresh_file node_at_set_node)
  moreover have "node_at F1 q = node_at F q" if "q \<noteq> tgt" for q
    using that by (simp add: F1 dn node_at_fresh_file node_at_set_node)
  moreover have "in_data (fs_inodes F' j) = in_data (fs_inodes F i)" by (simp add: F' set_data_def set_mode_def)
  ultimately show ?thesis by (auto simp: linked_def n')
qed

lemma import_linked:
  assumes R: "reflink_ok R" and ok: "tree_ok F" and src: "node_at F src = Some (File i)"
    and tgt: "plain F tgt" "node_at F tgt = None"
    and run: "import_file R m (abs_path src) (abs_path tgt) F = Inr F'"
  shows "linked tgt (in_data (fs_inodes F i)) F F'"
proof -
  have "rf_reflink R F (abs_path src) (abs_path tgt) = Inr F'
      \<or> rf_reflink_or_copy R F (abs_path src) (abs_path tgt) = Inr F'
      \<or> fs_hard_link F (abs_path src) (abs_path tgt) = Inr F' \<or> fs_copy F (abs_path src) (abs_path tgt) = Inr F'"
    using run by (auto simp: import_file_def or_else_def split: package_import_method.splits sum.splits)
  then show ?thesis
    using R hard_link_linked [OF ok src tgt] copy_linked [OF ok src tgt] ok src tgt
    unfolding reflink_ok_def by blast
qed

text \<open>Every import method gives the same result: \<^verbatim>\<open>link_file\<close> leaves a target that exists alone,
  and otherwise its success means that the target is a new file with the content of the source,
  and that nothing else has changed; its failure changes nothing.\<close>

theorem link_file_spec:
  assumes "reflink_ok R" and "tree_ok F" and "node_at F src = Some (File i)" and "plain F tgt"
    and "fs_fault F Stat (abs_path tgt) = None"
    and "link_file R m (abs_path src) (abs_path tgt) F = (F', r)"
  shows "if node_at F tgt \<noteq> None then F' = F \<and> r = Inr ()
    else if r = Inr () then linked tgt (in_data (fs_inodes F i)) F F' else F' = F"
proof (cases "node_at F tgt")
  case None
  then have e: "\<not> fs_exists F (abs_path tgt)" using exists_iff [OF assms(2,4,5)] by simp
  show ?thesis
  proof (cases "import_file R m (abs_path src) (abs_path tgt) F")
    case (Inl x)
    with e assms(6) None show ?thesis by (auto simp: link_file_def act_simps)
  next
    case (Inr G)
    with e assms(6) None import_linked [OF assms(1,2,3,4) None Inr] show ?thesis
      by (auto simp: link_file_def act_simps)
  qed
next
  case (Some nd)
  then have "fs_exists F (abs_path tgt)" using exists_iff [OF assms(2,4,5)] by simp
  with assms(6) Some show ?thesis by (auto simp: link_file_def act_simps)
qed

lemma link_file_run:
  assumes "reflink_ok R" and "tree_ok F" and "node_at F src = Some (File i)" and "plain F tgt" and "node_at F tgt = None"
    and "fs_fault F Stat (abs_path tgt) = None"
    and "link_file R m (abs_path src) (abs_path tgt) F = (F', Inr ())"
  shows "linked tgt (in_data (fs_inodes F i)) F F'"
proof -
  have "\<not> fs_exists F (abs_path tgt)" using exists_iff [OF assms(2,4,6)] assms(5) by simp
  with assms(7) have "import_file R m (abs_path src) (abs_path tgt) F = Inr F'"
    by (simp add: link_file_def act_simps split: sum.splits)
  then show ?thesis by (rule import_linked [OF assms(1-5)])
qed

section \<open>Loops over directories and files\<close>

lemma create_dirs_run:
  assumes "act_for (create_dir_all err) ds F = (F', Inr ())" and "tree_ok F"
    and "\<And>d. d \<in> set ds \<Longrightarrow> \<exists>ns. d = abs_path ns \<and> plain F ns"
  shows "tree_ok F' \<and> keeps F F'
    \<and> (\<forall>q. node_at F' q = node_at F q
         \<or> (\<exists>ns. abs_path ns \<in> set ds \<and> prefix q ns) \<and> node_at F q = None \<and> node_at F' q = Some Dir)"
  using assms
proof (induction ds arbitrary: F)
  case Nil
  then show ?case by (auto simp: result_simps keeping.refl)
next
  case (Cons d ds)
  from Cons.prems(1) obtain F1 where one: "fs_create_dir_all F d = Inr F1"
    and rest: "act_for (create_dir_all err) ds F1 = (F', Inr ())"
    by (auto simp: act_for_Cons_Inr create_dir_all_Inr)
  from Cons.prems(3) [of d] obtain ns where ns: "d = abs_path ns" "plain F ns" by auto
  from create_dir_all_plain [OF Cons.prems(2) ns(2) one [unfolded ns(1)]]
  have F1: "tree_ok F1" "adds_dirs ns F F1" by blast+
  have k1: "keeps F F1" by (rule keeps_create_dir_all [OF one])
  have "\<exists>ns. d' = abs_path ns \<and> plain F1 ns" if "d' \<in> set ds" for d'
    using Cons.prems(3) [of d'] that adds_dirs_plain [OF F1(2)] by auto
  from Cons.IH [OF rest F1(1) this] have ih: "tree_ok F'" "keeps F1 F'"
    "\<And>q. node_at F' q = node_at F1 q
         \<or> (\<exists>ns. abs_path ns \<in> set ds \<and> prefix q ns) \<and> node_at F1 q = None \<and> node_at F' q = Some Dir" by blast+
  have "node_at F' q = node_at F q
      \<or> (\<exists>ns. abs_path ns \<in> set (d # ds) \<and> prefix q ns) \<and> node_at F q = None \<and> node_at F' q = Some Dir" for q
    using ih(3) [of q] F1(2) [unfolded adds_dirs_def, rule_format, of q] ns(1) by auto
  with ih(1) keeping.trans [OF k1 ih(2)] show ?case by blast
qed

text \<open>The same loop over names: each pair is the target and the source of a file.\<close>

lemma link_files_run:
  assumes R: "reflink_ok R"
    and run: "act_for (\<lambda>(t, s). act_map_err err (link_file R m (abs_path s) (abs_path t))) xs F = (F', Inr ())"
    and ok: "tree_ok F" and nf: "\<And>p. fs_fault F Stat p = None"
    and new: "\<And>t s. (t, s) \<in> set xs \<Longrightarrow> plain F t \<and> node_at F t = None \<and> (\<exists>i. node_at F s = Some (File i))"
    and dist: "distinct (map fst xs)"
  shows "tree_ok F' \<and> keeps F F'
    \<and> (\<forall>(t, s) \<in> set xs. \<exists>i j. node_at F s = Some (File i) \<and> node_at F' t = Some (File j)
         \<and> in_data (fs_inodes F' j) = in_data (fs_inodes F i))
    \<and> (\<forall>q. q \<notin> fst ` set xs \<longrightarrow> node_at F' q = node_at F q)"
  using run ok nf new dist
proof (induction xs arbitrary: F)
  case Nil
  then show ?case by (auto simp: result_simps keeping.refl)
next
  case (Cons x xs)
  obtain t s where x: "x = (t, s)" by (cases x)
  from Cons.prems(1) obtain F1 where one: "link_file R m (abs_path s) (abs_path t) F = (F1, Inr ())"
    and rest: "act_for (\<lambda>(t, s). act_map_err err (link_file R m (abs_path s) (abs_path t))) xs F1 = (F', Inr ())"
    by (auto simp: x act_for_Cons_Inr result_simps)
  from Cons.prems(4) [of t s] x obtain i where t: "plain F t" "node_at F t = None" and s: "node_at F s = Some (File i)"
    by auto
  from link_file_run [OF R Cons.prems(2) s t Cons.prems(3) one]
  have l: "linked t (in_data (fs_inodes F i)) F F1" .
  then obtain j where F1: "tree_ok F1" "keeps F F1" "node_at F1 t = Some (File j)"
    "in_data (fs_inodes F1 j) = in_data (fs_inodes F i)" "\<And>q. q \<noteq> t \<Longrightarrow> node_at F1 q = node_at F q"
    by (auto simp: linked_def)
  have new1: "plain F1 t' \<and> node_at F1 t' = None \<and> (\<exists>i. node_at F1 s' = Some (File i))" if m: "(t', s') \<in> set xs" for t' s'
  proof -
    from Cons.prems(5) m x have "t' \<noteq> t" by (auto simp: image_iff)
    with Cons.prems(4) [of t' s'] m plain_linked [OF l] F1(5) keepsD(3) [OF F1(2)] show ?thesis by auto
  qed
  from Cons.IH [OF rest F1(1) _ new1] Cons.prems(3,5) keepsD(2) [OF F1(2)]
  have ih: "tree_ok F'" "keeps F1 F'"
    "\<And>t' s'. (t', s') \<in> set xs \<Longrightarrow> \<exists>i j. node_at F1 s' = Some (File i) \<and> node_at F' t' = Some (File j)
         \<and> in_data (fs_inodes F' j) = in_data (fs_inodes F1 i)"
    "\<And>q. q \<notin> fst ` set xs \<Longrightarrow> node_at F' q = node_at F1 q" by auto
  have "node_at F' t = Some (File j)" by (rule keepsD(3) [OF ih(2) F1(3)])
  moreover have "in_data (fs_inodes F' j) = in_data (fs_inodes F i)"
    using keepsD(4) [OF ih(2) tree_okD(2) [OF F1(1,3)]] F1(4) by simp
  moreover have "\<exists>i j. node_at F s' = Some (File i) \<and> node_at F' t' = Some (File j)
         \<and> in_data (fs_inodes F' j) = in_data (fs_inodes F i)" if m: "(t', s') \<in> set xs" for t' s'
  proof -
    from Cons.prems(4) [of t' s'] m obtain i' where i': "node_at F s' = Some (File i')" by auto
    then have "node_at F1 s' = Some (File i')" by (rule keepsD(3) [OF F1(2)])
    moreover have "fs_inodes F1 i' = fs_inodes F i'" by (rule keepsD(4) [OF F1(2) tree_okD(2) [OF Cons.prems(2) i']])
    ultimately show ?thesis using ih(3) [OF m] i' by auto
  qed
  ultimately show ?case using ih(1) keeping.trans [OF F1(2) ih(2)] ih(4) F1(5) s by (auto simp: x)
qed

section \<open>One package\<close>

definition path_names :: "path \<Rightarrow> names" where
  "path_names p = List.map_filter (\<lambda>c. case c of Normal s \<Rightarrow> Some s | _ \<Rightarrow> None) p"

definition entry_names :: "string \<Rightarrow> names" where
  "entry_names e = path_names (path_of_string e)"

text \<open>
  A list of files that can be imported together: relative entries without \<^verbatim>\<open>..\<close>, none of them
  below another, and absolute sources that are files.
\<close>

definition clean_entry :: "string \<Rightarrow> bool" where
  "clean_entry e \<longleftrightarrow> entry_names e \<noteq> [] \<and> path_of_string e = map Normal (entry_names e)"

definition importable :: "fs \<Rightarrow> cas_paths \<Rightarrow> bool" where
  "importable F cas \<longleftrightarrow>
     (\<forall>(e, p) \<in> set cas. clean_entry e \<and> p = abs_path (path_names p) \<and> (\<exists>i. node_at F (path_names p) = Some (File i)))
     \<and> distinct (map (\<lambda>(e, _). entry_names e) cas)
     \<and> (\<forall>a \<in> fst ` set cas. \<forall>b \<in> fst ` set cas. \<not> strict_prefix (entry_names a) (entry_names b))"

lemma join_names: "ns \<noteq> [] \<Longrightarrow> path_join (abs_path d) (map Normal ns) = abs_path (d @ ns)"
  by (cases ns) (auto simp: path_join_def is_absolute_def abs_path_def)

lemma join_clean_entry: "clean_entry e \<Longrightarrow> join_str (abs_path d) e = abs_path (d @ entry_names e)"
  by (simp add: clean_entry_def join_names)

lemma parent_clean_entry: "clean_entry e \<Longrightarrow> path_parent (path_of_string e) = Some (map Normal (butlast (entry_names e)))"
  by (auto simp: clean_entry_def path_parent_def last_map map_butlast [symmetric])

lemma cas_parent_dirs_clean:
  assumes "\<And>e p. (e, p) \<in> set cas \<Longrightarrow> clean_entry e"
  shows "d \<in> set (cas_parent_dirs (abs_path dir) cas) \<longleftrightarrow>
    (\<exists>e p. (e, p) \<in> set cas \<and> butlast (entry_names e) \<noteq> [] \<and> d = abs_path (dir @ butlast (entry_names e)))"
proof -
  have parent: "(case path_parent (path_of_string e) of None \<Rightarrow> None
        | Some parent \<Rightarrow> if parent = [] then None else Some (path_join (abs_path dir) parent)) = Some d
      \<longleftrightarrow> butlast (entry_names e) \<noteq> [] \<and> d = abs_path (dir @ butlast (entry_names e))"
    if "(e, p) \<in> set cas" for e p
    using parent_clean_entry [OF assms [OF that]] join_names [of "butlast (entry_names e)" dir] by auto
  show ?thesis
    unfolding cas_parent_dirs_def set_btree_set set_map_filter_iff
  proof
    assume "\<exists>x\<in>set cas. (case x of (cleaned_entry, _) \<Rightarrow> case path_parent (path_of_string cleaned_entry) of
       None \<Rightarrow> None | Some parent \<Rightarrow> if parent = [] then None else Some (path_join (abs_path dir) parent)) = Some d"
    then obtain e p where "(e, p) \<in> set cas" "(case path_parent (path_of_string e) of None \<Rightarrow> None
        | Some parent \<Rightarrow> if parent = [] then None else Some (path_join (abs_path dir) parent)) = Some d" by auto
    then show "\<exists>e p. (e, p) \<in> set cas \<and> butlast (entry_names e) \<noteq> [] \<and> d = abs_path (dir @ butlast (entry_names e))"
      using parent by blast
  next
    assume "\<exists>e p. (e, p) \<in> set cas \<and> butlast (entry_names e) \<noteq> [] \<and> d = abs_path (dir @ butlast (entry_names e))"
    then obtain e p where e: "(e, p) \<in> set cas"
      "butlast (entry_names e) \<noteq> [] \<and> d = abs_path (dir @ butlast (entry_names e))" by blast
    show "\<exists>x\<in>set cas. (case x of (cleaned_entry, _) \<Rightarrow> case path_parent (path_of_string cleaned_entry) of
       None \<Rightarrow> None | Some parent \<Rightarrow> if parent = [] then None else Some (path_join (abs_path dir) parent)) = Some d"
      using parent [OF e(1)] e by (intro bexI [of _ "(e, p)"]) simp_all
  qed
qed

lemma importableD:
  assumes "importable F cas" and "(e, p) \<in> set cas"
  shows "clean_entry e" "p = abs_path (path_names p)" "\<exists>i. node_at F (path_names p) = Some (File i)"
  using assms by (auto simp: importable_def)

text \<open>Nothing is below a path that is not there.\<close>

lemma absent_below:
  assumes ok: "tree_ok F" and dir: "plain F dir" "node_at F dir = None"
  shows "node_at F (dir @ q) = None" and "plain F (dir @ q)"
proof -
  show below: "node_at F (dir @ q) = None" for q
  proof (rule ccontr)
    assume "node_at F (dir @ q) \<noteq> None"
    then obtain nd where n: "node_at F (dir @ q) = Some nd" by auto
    with dir(2) have "q \<noteq> []" by auto
    with tree_ok_prefix [OF ok n] dir(2) show False by simp
  qed
  show "plain F (dir @ q)"
    unfolding plain_def
  proof (intro allI notI)
    fix k t assume *: "node_at F (take k (dir @ q)) = Some (Symlink t)"
    show False
    proof (cases "k \<le> length dir")
      case True
      with * dir(1) show False by (simp add: plain_def)
    next
      case False
      with * below [of "take (k - length dir) q"] show False by simp
    qed
  qed
qed

text \<open>The directories of a package: they are at and above the place and above the entries.\<close>

definition package_dirs_made :: "names \<Rightarrow> cas_paths \<Rightarrow> fs \<Rightarrow> fs \<Rightarrow> bool" where
  "package_dirs_made dir cas F F1 \<longleftrightarrow> tree_ok F1 \<and> keeps F F1
     \<and> (\<forall>q. node_at F1 q = node_at F q \<or> node_at F q = None \<and> node_at F1 q = Some Dir
         \<and> (prefix q dir \<or> (\<exists>e p. (e, p) \<in> set cas \<and> prefix q (dir @ butlast (entry_names e)))))"

lemma package_dirs_run:
  assumes ok: "tree_ok F" and dir: "plain F dir" "node_at F dir = None" and imp: "importable F cas"
    and r0: "fs_create_dir_all F (abs_path dir) = Inr F0"
    and r1: "act_for (create_dir_all CasCreateDir) (cas_parent_dirs (abs_path dir) cas) F0 = (F1, Inr ())"
  shows "package_dirs_made dir cas F F1"
proof -
  note entry = importableD(1) [OF imp]
  from create_dir_all_plain [OF ok dir(1) r0] have F0: "tree_ok F0" "adds_dirs dir F F0" by blast+
  have "\<exists>ns. d = abs_path ns \<and> plain F0 ns" if "d \<in> set (cas_parent_dirs (abs_path dir) cas)" for d
    using that adds_dirs_plain [OF F0(2) absent_below(2) [OF ok dir]] by (auto simp: cas_parent_dirs_clean [OF entry])
  from create_dirs_run [OF r1 F0(1) this] have F1: "tree_ok F1" "keeps F0 F1"
    and new1: "\<And>q. node_at F1 q = node_at F0 q
      \<or> (\<exists>ns. abs_path ns \<in> set (cas_parent_dirs (abs_path dir) cas) \<and> prefix q ns)
        \<and> node_at F0 q = None \<and> node_at F1 q = Some Dir" by blast+
  have "node_at F1 q = node_at F q \<or> node_at F q = None \<and> node_at F1 q = Some Dir
      \<and> (prefix q dir \<or> (\<exists>e p. (e, p) \<in> set cas \<and> prefix q (dir @ butlast (entry_names e))))" for q
    using new1 [of q] F0(2) [unfolded adds_dirs_def, rule_format, of q]
    by (auto simp: cas_parent_dirs_clean [OF entry])
  with F1(1) keeping.trans [OF keeps_create_dir_all [OF r0] F1(2)] show ?thesis
    unfolding package_dirs_made_def by blast
qed

lemma package_dirs_plain:
  assumes "package_dirs_made dir cas F F1" and "plain F q"
  shows "plain F1 q"
  unfolding plain_def
proof (intro allI notI)
  fix k t assume "node_at F1 (take k q) = Some (Symlink t)"
  with assms(1) have "node_at F (take k q) = Some (Symlink t)"
    unfolding package_dirs_made_def by (metis node.distinct(5) option.inject)
  with assms(2) show False by (simp add: plain_def)
qed

text \<open>No directory is where an entry goes.\<close>

lemma entry_place_free:
  assumes ok: "tree_ok F" and dir: "plain F dir" "node_at F dir = None" and imp: "importable F cas"
    and made: "package_dirs_made dir cas F F1" and e: "(e, p) \<in> set cas"
  shows "node_at F1 (dir @ entry_names e) = None \<and> plain F1 (dir @ entry_names e)"
proof
  have ne: "entry_names e' \<noteq> []" if "(e', p') \<in> set cas" for e' p'
    using importableD(1) [OF imp that] by (simp add: clean_entry_def)
  have "\<not> prefix (dir @ entry_names e) (dir @ butlast (entry_names e'))" if e': "(e', p') \<in> set cas" for e' p'
  proof
    assume "prefix (dir @ entry_names e) (dir @ butlast (entry_names e'))"
    with ne [OF e'] have "strict_prefix (entry_names e) (entry_names e')"
      by (metis append_butlast_last_id prefix_order.le_less_trans prefix_snoc same_prefix_prefix
          strict_prefix_def prefixI append_self_conv list.distinct(1))
    moreover have "e \<in> fst ` set cas" "e' \<in> fst ` set cas" using e e' by force+
    ultimately show False using imp by (auto simp: importable_def)
  qed
  with made ne [OF e] absent_below(1) [OF ok dir, of "entry_names e"]
  show "node_at F1 (dir @ entry_names e) = None"
    by (auto simp: package_dirs_made_def dest: spec [of _ "dir @ entry_names e"])
  show "plain F1 (dir @ entry_names e)"
    by (rule package_dirs_plain [OF made absent_below(2) [OF ok dir]])
qed

text \<open>The loop over the entries is the loop over the names of their places and sources.\<close>

definition package_links :: "names \<Rightarrow> cas_paths \<Rightarrow> (names \<times> names) list" where
  "package_links dir cas = map (\<lambda>(e, p). (dir @ entry_names e, path_names p)) cas"

lemma link_entries:
  assumes imp: "importable F cas"
  shows "act_for (\<lambda>(e, p). act_map_err err (link_file R m p (join_str (abs_path dir) e))) cas
    = act_for (\<lambda>(t, s). act_map_err err (link_file R m (abs_path s) (abs_path t))) (package_links dir cas)"
  unfolding package_links_def act_for_map
proof (rule act_for_cong)
  fix x assume mem: "x \<in> set cas"
  obtain e p where x: "x = (e, p)" by fastforce
  show "(case x of (e, p) \<Rightarrow> act_map_err err (link_file R m p (join_str (abs_path dir) e)))
    = (case case x of (e, p) \<Rightarrow> (dir @ entry_names e, path_names p) of
        (t, s) \<Rightarrow> act_map_err err (link_file R m (abs_path s) (abs_path t)))"
    using importableD(1,2) [OF imp, of e p] mem by (simp add: x join_clean_entry)
qed

lemma distinct_package_links:
  assumes "importable F cas"
  shows "distinct (map fst (package_links dir cas))"
proof -
  have "map fst (package_links dir cas) = map ((@) dir) (map (\<lambda>(e, _). entry_names e) cas)"
    by (auto simp: package_links_def comp_def split_beta)
  moreover have "inj ((@) dir)" by (simp add: inj_def)
  moreover have "distinct (map (\<lambda>(e, _). entry_names e) cas)" using assms by (simp add: importable_def)
  ultimately show ?thesis by (simp only: distinct_map [of "(@) dir"] inj_on_def inj_def) blast
qed

text \<open>What the links leave, when the directories are made.\<close>

lemma package_links_run:
  assumes R: "reflink_ok R" and ok: "tree_ok F" and dir: "plain F dir" "node_at F dir = None"
    and nf: "\<And>p. fs_fault F Stat p = None" and imp: "importable F cas" and made: "package_dirs_made dir cas F F1"
    and run: "act_for (\<lambda>(t, s). act_map_err err (link_file R m (abs_path s) (abs_path t))) (package_links dir cas) F1 = (F', Inr ())"
  shows "tree_ok F' \<and> keeps F F'
    \<and> (\<forall>(e, p) \<in> set cas. \<exists>i j. node_at F (path_names p) = Some (File i)
         \<and> node_at F' (dir @ entry_names e) = Some (File j) \<and> in_data (fs_inodes F' j) = in_data (fs_inodes F i))
    \<and> (\<forall>q. (\<forall>e \<in> fst ` set cas. q \<noteq> dir @ entry_names e) \<longrightarrow> node_at F' q = node_at F1 q)"
proof -
  from made have F1: "tree_ok F1" "keeps F F1" by (simp_all add: package_dirs_made_def)
  have "plain F1 t \<and> node_at F1 t = None \<and> (\<exists>i. node_at F1 s = Some (File i))" if "(t, s) \<in> set (package_links dir cas)" for t s
    using that entry_place_free [OF ok dir imp made] importableD(3) [OF imp] keepsD(3) [OF F1(2)]
    by (fastforce simp: package_links_def)
  moreover have "fs_fault F1 Stat p = None" for p using nf keepsD(2) [OF F1(2)] by simp
  ultimately have l: "tree_ok F'" "keeps F1 F'"
    "\<And>t s. (t, s) \<in> set (package_links dir cas) \<Longrightarrow> \<exists>i j. node_at F1 s = Some (File i) \<and> node_at F' t = Some (File j)
         \<and> in_data (fs_inodes F' j) = in_data (fs_inodes F1 i)"
    "\<And>q. q \<notin> fst ` set (package_links dir cas) \<Longrightarrow> node_at F' q = node_at F1 q"
    using link_files_run [OF R run F1(1) _ _ distinct_package_links [OF imp]] by blast+
  have "\<exists>i j. node_at F (path_names p) = Some (File i)
         \<and> node_at F' (dir @ entry_names e) = Some (File j) \<and> in_data (fs_inodes F' j) = in_data (fs_inodes F i)"
    if e: "(e, p) \<in> set cas" for e p
  proof -
    from e have "(dir @ entry_names e, path_names p) \<in> set (package_links dir cas)" by (force simp: package_links_def)
    from l(3) [OF this] obtain i j where ij: "node_at F1 (path_names p) = Some (File i)"
      "node_at F' (dir @ entry_names e) = Some (File j)" "in_data (fs_inodes F' j) = in_data (fs_inodes F1 i)" by blast
    from importableD(3) [OF imp e] obtain i' where i': "node_at F (path_names p) = Some (File i')" ..
    with keepsD(3) [OF F1(2) i'] ij(1) have "i' = i" by simp
    with i' ij keepsD(4) [OF F1(2) tree_okD(2) [OF ok i']] show ?thesis by auto
  qed
  moreover have "node_at F' q = node_at F1 q" if "\<forall>e \<in> fst ` set cas. q \<noteq> dir @ entry_names e" for q
    by (rule l(4)) (use that in \<open>auto simp: package_links_def\<close>)
  ultimately show ?thesis using l(1) keeping.trans [OF F1(2) l(2)] by auto
qed

lemma create_cas_files_run:
  assumes R: "reflink_ok R" and ok: "tree_ok F" and dir: "plain F dir" "node_at F dir = None"
    and nf: "\<And>p. fs_fault F Stat p = None" and imp: "importable F cas"
    and run: "create_cas_files R m (abs_path dir) cas F = (F', Inr ())"
  shows "\<exists>F1. package_dirs_made dir cas F F1 \<and> tree_ok F' \<and> keeps F F'
    \<and> (\<forall>(e, p) \<in> set cas. \<exists>i j. node_at F (path_names p) = Some (File i)
         \<and> node_at F' (dir @ entry_names e) = Some (File j) \<and> in_data (fs_inodes F' j) = in_data (fs_inodes F i))
    \<and> (\<forall>q. (\<forall>e \<in> fst ` set cas. q \<noteq> dir @ entry_names e) \<longrightarrow> node_at F' q = node_at F1 q)"
proof -
  have "\<not> fs_exists F (abs_path dir)" using exists_iff [OF ok dir(1) nf] dir(2) by simp
  with run obtain F0 F1 where r0: "fs_create_dir_all F (abs_path dir) = Inr F0"
    and r1: "act_for (create_dir_all CasCreateDir) (cas_parent_dirs (abs_path dir) cas) F0 = (F1, Inr ())"
    and r2: "act_for (\<lambda>(e, p). act_map_err CasLinkFile (link_file R m p (join_str (abs_path dir) e))) cas F1 = (F', Inr ())"
    by (simp add: create_cas_files_def act_eval(3) act_eval(4) [of "act_read _"] result_simps create_dir_all_Inr) blast
  have made: "package_dirs_made dir cas F F1" by (rule package_dirs_run [OF ok dir imp r0 r1])
  with package_links_run [OF R ok dir nf imp made r2 [unfolded link_entries [OF imp]]] show ?thesis by blast
qed

text \<open>Importing a package into a directory that is not there yet gives a faithful copy: when
  \<^verbatim>\<open>create_cas_files\<close> succeeds, every entry of the package is a file with the content of its store
  file, every new file is such an entry, and nothing that was there before has changed.\<close>

theorem create_cas_files_spec:
  assumes R: "reflink_ok R" and ok: "tree_ok F" and dir: "plain F dir" "node_at F dir = None"
    and nf: "\<And>p. fs_fault F Stat p = None" and imp: "importable F cas"
    and run: "create_cas_files R m (abs_path dir) cas F = (F', Inr ())"
  shows "tree_ok F' \<and> keeps F F'
    \<and> (\<forall>(e, p) \<in> set cas. \<exists>i j. node_at F (path_names p) = Some (File i)
         \<and> node_at F' (dir @ entry_names e) = Some (File j) \<and> in_data (fs_inodes F' j) = in_data (fs_inodes F i))
    \<and> (\<forall>q i. node_at F' q = Some (File i) \<longrightarrow>
         node_at F q = Some (File i) \<or> (\<exists>e \<in> fst ` set cas. q = dir @ entry_names e))"
proof -
  from create_cas_files_run [OF R ok dir nf imp run] obtain F1 where
    made: "package_dirs_made dir cas F F1"
    and l: "tree_ok F' \<and> keeps F F'
      \<and> (\<forall>(e, p) \<in> set cas. \<exists>i j. node_at F (path_names p) = Some (File i)
           \<and> node_at F' (dir @ entry_names e) = Some (File j) \<and> in_data (fs_inodes F' j) = in_data (fs_inodes F i))
      \<and> (\<forall>q. (\<forall>e \<in> fst ` set cas. q \<noteq> dir @ entry_names e) \<longrightarrow> node_at F' q = node_at F1 q)" by blast
  have "node_at F q = Some (File i) \<or> (\<exists>e \<in> fst ` set cas. q = dir @ entry_names e)"
    if q: "node_at F' q = Some (File i)" for q i
  proof (rule disjCI)
    assume "\<not> (\<exists>e \<in> fst ` set cas. q = dir @ entry_names e)"
    with l q have "node_at F1 q = Some (File i)" by auto
    with made show "node_at F q = Some (File i)"
      unfolding package_dirs_made_def by (metis node.distinct(1) option.inject)
  qed
  with l show ?thesis by blast
qed

section \<open>Examples\<close>

text \<open>A store with one file, and a file system that knows no reflinks.\<close>

definition no_reflink :: reflink_lib where
  "no_reflink = \<lparr> rf_reflink = (\<lambda>_ _ _. Inl OtherIo), rf_reflink_or_copy = fs_copy \<rparr>"

definition package_fs :: fs where
  "package_fs =
     empty_fs\<lparr>fs_nodes := [([''store''], Dir), ([''store'', ''x''], File 0)],
              fs_inodes := \<lambda>_. \<lparr> in_data = ''data'', in_mode = 0x1A4 \<rparr>, fs_next := 1\<rparr>"

definition package_cas :: cas_paths where
  "package_cas = [(''lib/a.js'', abs_path [''store'', ''x''])]"

lemma reflink_ok_no_reflink: "reflink_ok no_reflink"
  using copy_linked unfolding reflink_ok_def no_reflink_def by simp

lemma tree_ok_package_fs: "tree_ok package_fs"
  by (auto simp: tree_ok_def node_at_def package_fs_def split: if_splits)

lemma no_fault_package_fs: "fs_fault package_fs c p = None"
  by (simp add: package_fs_def empty_fs_def)

lemma plain_package_fs: "plain package_fs q"
  by (auto simp: plain_def node_at_def package_fs_def split: if_splits)

lemma importable_package_cas: "importable package_fs package_cas"
proof -
  have e: "entry_names ''lib/a.js'' = [''lib'', ''a.js'']" "clean_entry ''lib/a.js''" by code_simp+
  have p: "path_names (abs_path [''store'', ''x'']) = [''store'', ''x'']" by code_simp
  have "node_at package_fs [''store'', ''x''] = Some (File 0)" by (simp add: node_at_def package_fs_def)
  with e p show ?thesis by (simp add: importable_def package_cas_def)
qed

theorem link_file_spec_witness:
  "\<exists>F'. link_file no_reflink Auto (abs_path [''store'', ''x'']) (abs_path [''store'', ''y'']) package_fs = (F', Inr ())
     \<and> linked [''store'', ''y''] ''data'' package_fs F'"
proof -
  have src: "node_at package_fs [''store'', ''x''] = Some (File 0)" and new: "node_at package_fs [''store'', ''y''] = None"
    by (simp_all add: node_at_def package_fs_def)
  have res: "snd (link_file no_reflink Auto (abs_path [''store'', ''x'']) (abs_path [''store'', ''y'']) package_fs) = Inr ()"
    by code_simp
  from ex_state [OF res] obtain F' where
    run: "link_file no_reflink Auto (abs_path [''store'', ''x'']) (abs_path [''store'', ''y'']) package_fs = (F', Inr ())" ..
  from link_file_spec [OF reflink_ok_no_reflink tree_ok_package_fs src plain_package_fs no_fault_package_fs run] run new
  show ?thesis by (simp add: package_fs_def)
qed

theorem create_cas_files_spec_witness:
  "\<exists>F' j. create_cas_files no_reflink Hardlink (abs_path [''m'']) package_cas package_fs = (F', Inr ())
     \<and> node_at F' [''m'', ''lib'', ''a.js''] = Some (File j) \<and> in_data (fs_inodes F' j) = ''data''"
proof -
  have new: "node_at package_fs [''m''] = None" by (simp add: node_at_def package_fs_def)
  have res: "snd (create_cas_files no_reflink Hardlink (abs_path [''m'']) package_cas package_fs) = Inr ()"
    by code_simp
  from ex_state [OF res] obtain F' where
    run: "create_cas_files no_reflink Hardlink (abs_path [''m'']) package_cas package_fs = (F', Inr ())" ..
  have e: "entry_names ''lib/a.js'' = [''lib'', ''a.js'']" by code_simp
  from create_cas_files_spec [OF reflink_ok_no_reflink tree_ok_package_fs plain_package_fs new
      no_fault_package_fs importable_package_cas run] run
  show ?thesis by (auto simp: package_cas_def e) (simp add: package_fs_def)
qed

end
