(* ===== verification/Tarball_Store.thy ===== *)
theory Tarball_Store
  imports Tarball
begin

text \<open>
  What unpacking a tarball leaves in the store, what the store gives back later, and what the
  memory of the process does with failures.
\<close>

section \<open>The state of the store\<close>

definition store_inv :: "store_lib \<Rightarrow> names \<Rightarrow> fs \<Rightarrow> bool" where
  "store_inv L r F \<longleftrightarrow>
     tree_ok F \<and> cas_ok L r F \<and> (\<forall>h ex. plain F (cas_names r h ex)) \<and> (\<forall>p. fs_fault F Stat p = None)"

text \<open>A digest has at least two bytes.\<close>

definition digest_lib :: "store_lib \<Rightarrow> bool" where
  "digest_lib L \<longleftrightarrow> (\<forall>b. 2 \<le> length (sha512_digest L b))"

text \<open>What may change besides: the way to content addresses.\<close>

definition only_cas :: "names \<Rightarrow> fs \<Rightarrow> fs \<Rightarrow> bool" where
  "only_cas r F F' \<longleftrightarrow>
     (\<forall>q. node_at F' q = node_at F q \<or> (\<exists>h ex. 2 \<le> length h \<and> new_on_way (cas_names r h ex) F' q))
     \<and> (\<forall>q. plain F q \<longrightarrow> plain F' q)"

lemma only_cas_refl [simp]: "only_cas r F F"
  by (simp add: only_cas_def)

lemma only_cas_trans: "only_cas r F G \<Longrightarrow> only_cas r G H \<Longrightarrow> only_cas r F H"
  unfolding only_cas_def new_on_way_def by metis

lemma write_cas_file_inv:
  assumes "digest_lib L" and "sd_root S = abs_path r" and "store_inv L r F"
    and "write_cas_file L S buffer ex F = (F', Inr (p, h))"
  shows "store_inv L r F' \<and> keeps F F' \<and> h = sha512_digest L buffer \<and> p = abs_path (cas_names r h ex)
    \<and> node_at F' (cas_names r h ex) \<noteq> None \<and> only_cas r F F'"
proof -
  have len: "2 \<le> length (sha512_digest L buffer)" using assms(1) by (simp add: digest_lib_def)
  have inv: "tree_ok F" "cas_ok L r F" "plain F (cas_names r h ex)" "fs_fault F Stat p = None" for h ex p
    using assms(3) by (simp_all add: store_inv_def)
  from write_cas_file_run [OF inv(1) assms(2) len inv(3,4,2) assms(4)]
  have w: "h = sha512_digest L buffer" "p = abs_path (cas_names r h ex)" "cas_ok L r F'" "keeps F F'" "tree_ok F'"
    "node_at F' (cas_names r h ex) \<noteq> None" "\<And>q. plain F q \<Longrightarrow> plain F' q"
    "\<And>q. node_at F' q = node_at F q \<or> new_on_way (cas_names r h ex) F' q" by blast+
  then have "only_cas r F F'" unfolding only_cas_def using len by blast
  moreover note w
  moreover have "fs_fault F' = fs_fault F" by (rule keepsD(2) [OF w(4)])
  ultimately show ?thesis using assms(3) by (simp add: store_inv_def)
qed

section \<open>Unpacking\<close>

text \<open>\<open>stored L r F rs (nm, p)\<close>: \<open>p\<close> is where the content of an entry of that name is.\<close>

definition stored :: "store_lib \<Rightarrow> names \<Rightarrow> fs \<Rightarrow> (io_kind + tar_entry) list \<Rightarrow> string \<Rightarrow> path \<Rightarrow> string \<Rightarrow> 32 word \<Rightarrow> bool" where
  "stored L r F rs nm p h m \<longleftrightarrow>
     (\<exists>entry buffer entry_path. Inr entry \<in> set rs \<and> \<not> te_is_dir entry \<and> te_mode entry = Inr m
        \<and> te_content entry = Inr buffer \<and> te_path entry = Inr entry_path
        \<and> nm = clean_entry_path entry_path \<and> h = sha512_digest L buffer)
     \<and> p = abs_path (cas_names r h (is_all_exec m)) \<and> node_at F (cas_names r h (is_all_exec m)) \<noteq> None"

lemma stored_keeps: "stored L r F rs nm p h m \<Longrightarrow> keeps F F' \<Longrightarrow> stored L r F' rs nm p h m"
  unfolding stored_def using keepsD(3) by blast

lemma stored_mono: "stored L r F rs nm p h m \<Longrightarrow> set rs \<subseteq> set rs' \<Longrightarrow> stored L r F rs' nm p h m"
  unfolding stored_def by blast

text \<open>The two tables of an unpacking go together.\<close>

definition unpacked_ok :: "store_lib \<Rightarrow> names \<Rightarrow> fs \<Rightarrow> (io_kind + tar_entry) list \<Rightarrow> unpacked \<Rightarrow> bool" where
  "unpacked_ok L r F rs acc \<longleftrightarrow>
     distinct (map fst (fst acc))
     \<and> list_all2 (\<lambda>(nm, p) (nm', fi). nm' = nm \<and> (\<exists>h. fi_integrity fi = ''sha512-'' @ base64_encode L h
          \<and> stored L r F rs nm p h (fi_mode fi))) (fst acc) (snd acc)"

lemma keys_update: "fst ` set (AList.update k v xs) = insert k (fst ` set xs)"
  by (induction xs) auto

lemma list_all2_member: "list_all2 P xs ys \<Longrightarrow> x \<in> set xs \<Longrightarrow> \<exists>y \<in> set ys. P x y"
  by (induction xs ys rule: list_all2_induct) auto

lemma list_all2_update:
  assumes "list_all2 (\<lambda>(k, x) (k', y). k' = k \<and> Q k x y) xs ys" and "Q k x y"
  shows "list_all2 (\<lambda>(k, x) (k', y). k' = k \<and> Q k x y) (AList.update k x xs) (AList.update k y ys)"
  using assms by (induction xs ys rule: list_all2_induct) (auto split: prod.splits)

lemma unpacked_ok_update:
  assumes "unpacked_ok L r F rs (cas, files)" and "stored L r F rs nm p h m"
    and "fi_integrity fi = ''sha512-'' @ base64_encode L h" and "fi_mode fi = m"
  shows "unpacked_ok L r F rs (AList.update nm p cas, AList.update nm fi files)"
  using assms distinct_update [of cas nm p]
  by (auto simp: unpacked_ok_def intro!: list_all2_update)

lemma unpacked_ok_keeps:
  assumes "unpacked_ok L r F rs acc" and "keeps F F'" and "set rs \<subseteq> set rs'"
  shows "unpacked_ok L r F' rs' acc"
  using assms(1) unfolding unpacked_ok_def
  by (auto elim!: list_all2_mono intro: stored_mono [OF stored_keeps [OF _ assms(2)] assms(3)])

lemma unpack_entry_run:
  assumes L: "digest_lib L" and S: "sd_root S = abs_path r" and inv: "store_inv L r F"
    and acc: "unpacked_ok L r F rs (cas, files)" and mem: "x \<in> set rs"
    and run: "unpack_entry L T S x (cas, files) F = (F', Inr acc')"
  shows "store_inv L r F' \<and> keeps F F' \<and> unpacked_ok L r F' rs acc' \<and> only_cas r F F'
    \<and> fst ` set cas \<subseteq> fst ` set (fst acc')
    \<and> (\<forall>entry ep. x = Inr entry \<longrightarrow> \<not> te_is_dir entry \<longrightarrow> te_path entry = Inr ep \<longrightarrow> clean_entry_path ep \<in> fst ` set (fst acc'))"
proof (cases x)
  case (Inl e)
  with run show ?thesis by (simp add: unpack_entry_def result_simps)
next
  case x: (Inr entry)
  show ?thesis
  proof (cases "te_is_dir entry")
    case True
    with run x acc inv show ?thesis by (auto simp: unpack_entry_def result_simps keeping.refl)
  next
    case False
    with run x obtain m buffer ep where e: "te_mode entry = Inr m" "te_content entry = Inr buffer" "te_path entry = Inr ep"
      and run1: "act_bind (act_map_err (map_failure_err TarballWriteCasFile)
                   (write_cas_file L S buffer (is_all_exec m))) (\<lambda>(file_path, file_hash).
          let file_attrs = \<lparr> fi_checked_at = epoch_elapsed T entry,
                             fi_integrity = ''sha512-'' @ base64_encode L file_hash,
                             fi_mode = m, fi_size = te_size entry \<rparr>
          in act_return (AList.update (clean_entry_path ep) file_path cas,
                         AList.update (clean_entry_path ep) file_attrs files)) F = (F', Inr acc')"
      by (auto simp: unpack_entry_def act_throw_eq Let_def split: sum.splits if_splits)
    from run1 obtain p h where w: "write_cas_file L S buffer (is_all_exec m) F = (F', Inr (p, h))"
      and acc': "acc' = (AList.update (clean_entry_path ep) p cas, AList.update (clean_entry_path ep)
        \<lparr> fi_checked_at = epoch_elapsed T entry, fi_integrity = ''sha512-'' @ base64_encode L h,
          fi_mode = m, fi_size = te_size entry \<rparr> files)"
      by (auto simp: result_simps Let_def)
    from write_cas_file_inv [OF L S inv w] have i: "store_inv L r F'" "keeps F F'" "h = sha512_digest L buffer"
      "p = abs_path (cas_names r h (is_all_exec m))" "node_at F' (cas_names r h (is_all_exec m)) \<noteq> None"
      "only_cas r F F'" by blast+
    have st: "stored L r F' rs (clean_entry_path ep) p h m"
      unfolding stored_def using x mem False e i(3-5) by blast
    have "unpacked_ok L r F' rs acc'"
      unfolding acc' by (rule unpacked_ok_update [OF unpacked_ok_keeps [OF acc i(2)] st]) simp_all
    then show ?thesis using i(1,2,6) x e(3) by (auto simp: acc' keys_update)
  qed
qed

lemma unpack_entries_run:
  assumes L: "digest_lib L" and S: "sd_root S = abs_path r"
  shows "store_inv L r F \<Longrightarrow> unpacked_ok L r F rs (cas, files) \<Longrightarrow> set xs \<subseteq> set rs
    \<Longrightarrow> unpack_entries L T S xs (cas, files) F = (F', Inr acc')
    \<Longrightarrow> store_inv L r F' \<and> keeps F F' \<and> unpacked_ok L r F' rs acc' \<and> only_cas r F F'
      \<and> fst ` set cas \<subseteq> fst ` set (fst acc')
      \<and> (\<forall>entry ep. Inr entry \<in> set xs \<longrightarrow> \<not> te_is_dir entry \<longrightarrow> te_path entry = Inr ep
           \<longrightarrow> clean_entry_path ep \<in> fst ` set (fst acc'))"
proof (induction xs arbitrary: F cas files)
  case Nil
  then show ?case by (auto simp: result_simps keeping.refl)
next
  case (Cons x xs)
  from Cons.prems(4) obtain F1 acc1 where one: "unpack_entry L T S x (cas, files) F = (F1, Inr acc1)"
    and rest: "unpack_entries L T S xs acc1 F1 = (F', Inr acc')"
    by (auto simp: result_simps)
  obtain cas1 files1 where acc1: "acc1 = (cas1, files1)" by (cases acc1)
  have mem: "x \<in> set rs" and sub: "set xs \<subseteq> set rs" using Cons.prems(3) by auto
  from unpack_entry_run [OF L S Cons.prems(1,2) mem one]
  have o: "store_inv L r F1" "keeps F F1" "unpacked_ok L r F1 rs (cas1, files1)" "only_cas r F F1"
    "fst ` set cas \<subseteq> fst ` set cas1"
    "\<And>entry ep. x = Inr entry \<Longrightarrow> \<not> te_is_dir entry \<Longrightarrow> te_path entry = Inr ep \<Longrightarrow> clean_entry_path ep \<in> fst ` set cas1"
    by (auto simp: acc1)
  from Cons.IH [OF o(1,3) sub rest [unfolded acc1]]
  have ih: "store_inv L r F'" "keeps F1 F'" "unpacked_ok L r F' rs acc'" "only_cas r F1 F'"
    "fst ` set cas1 \<subseteq> fst ` set (fst acc')"
    "\<And>entry ep. Inr entry \<in> set xs \<Longrightarrow> \<not> te_is_dir entry \<Longrightarrow> te_path entry = Inr ep \<Longrightarrow> clean_entry_path ep \<in> fst ` set (fst acc')"
    by blast+
  have "clean_entry_path ep \<in> fst ` set (fst acc')"
    if "Inr entry \<in> set (x # xs)" "\<not> te_is_dir entry" "te_path entry = Inr ep" for entry ep
    using that o(6) [of entry ep] ih(5,6) by auto
  then have "\<forall>entry ep. Inr entry \<in> set (x # xs) \<longrightarrow> \<not> te_is_dir entry \<longrightarrow> te_path entry = Inr ep
      \<longrightarrow> clean_entry_path ep \<in> fst ` set (fst acc')" by simp
  moreover have "only_cas r F F'" by (rule only_cas_trans [OF o(4) ih(4)])
  moreover have "fst ` set cas \<subseteq> fst ` set (fst acc')" by (rule order.trans [OF o(5) ih(5)])
  moreover have "keeps F F'" by (rule keeping.trans [OF o(2) ih(2)])
  ultimately show ?case using ih(1,3) by simp
qed

section \<open>The index of a package\<close>

definition index_names :: "names \<Rightarrow> string \<Rightarrow> names" where
  "index_names r hex = r @ [''v3'', ''files'', take 2 hex, drop 2 hex @ ''-index.json'']"

lemma index_file_path_names:
  assumes "sd_root S = abs_path r" and "hex_ok (snd (integrity_to_hex L i))" and "index_file_path L S i = Inr p"
  shows "p = abs_path (index_names r (snd (integrity_to_hex L i)))"
  using assms by (auto simp: index_file_path_def file_path_by_hex_str_ok index_names_def abs_path_def
      split: prod.splits if_splits)

lemma index_not_cas:
  assumes "hex_ok hex" and "2 \<le> length h"
  shows "index_names r hex \<noteq> cas_names r h ex"
proof
  assume eq: "index_names r hex = cas_names r h ex"
  have "(file_path_by_hex_str \<lparr> sd_root = abs_path r \<rparr> hex ''-index.json'' :: unit failure + path)
      = file_path_by_hex_str \<lparr> sd_root = abs_path r \<rparr> (hex_of_bytes h) (exec_suffix ex)"
    using eq by (simp add: file_path_by_hex_str_ok assms hex_ok_digest index_names_def cas_names_def)
  then have "''-index.json'' = exec_suffix ex"
    using file_path_by_hex_str_inject [OF assms(1) hex_ok_digest [OF assms(2)], of "''-index.json''" "exec_suffix ex"
        "\<lparr> sd_root = abs_path r \<rparr>", where 'e = unit]
    by simp
  then show False by (simp add: exec_suffix_def split: if_splits)
qed

lemma write_index_run:
  assumes S: "sd_root S = abs_path r" and hex: "hex_ok (snd (integrity_to_hex L i))" and L: "digest_lib L"
    and inv: "store_inv L r F" and pl: "plain F (index_names r (snd (integrity_to_hex L i)))"
    and run: "write_index_file L S i ix F = (F', Inr ())"
  shows "store_inv L r F' \<and> keeps F F' \<and> index_file_path L S i = (Inr (abs_path (index_names r (snd (integrity_to_hex L i)))) :: ensure_file_error failure + path)
    \<and> (\<exists>content. index_to_string L ix = Inr content
      \<and> (node_at F (index_names r (snd (integrity_to_hex L i))) = None \<longrightarrow>
           file_added (index_names r (snd (integrity_to_hex L i))) content F F'))"
proof -
  let ?ns = "index_names r (snd (integrity_to_hex L i))"
  from run obtain p content where p: "index_file_path L S i = (Inr p :: ensure_file_error failure + path)"
    and c: "index_to_string L ix = Inr content" and e: "ensure_file p content (Some 0x1B6) F = (F', Inr ())"
    by (cases "index_to_string L ix") (auto simp: write_index_file_def result_simps)
  have pn: "p = abs_path ?ns" by (rule index_file_path_names [OF S hex p])
  have t: "tree_ok F" "fs_fault F Stat q = None" for q using inv by (simp_all add: store_inv_def)
  from ensure_file_run [OF t(1) pl t(2) e [unfolded pn]]
  have "node_at F ?ns \<noteq> None \<and> F' = F \<or> node_at F ?ns = None \<and> tree_ok F' \<and> keeps F F' \<and> file_added ?ns content F F'"
    by auto
  then have res: "store_inv L r F' \<and> keeps F F' \<and> (node_at F ?ns = None \<longrightarrow> file_added ?ns content F F')"
  proof
    assume "node_at F ?ns \<noteq> None \<and> F' = F"
    with inv show ?thesis by (auto simp: keeping.refl)
  next
    assume a: "node_at F ?ns = None \<and> tree_ok F' \<and> keeps F F' \<and> file_added ?ns content F F'"
    have "cas_ok L r F'"
    proof (rule cas_ok_file_added [of L r F F' ?ns content])
      show "sha512_digest L content = h" if "2 \<le> length h" "?ns = cas_names r h ex" for h ex
        using index_not_cas [OF hex that(1)] that(2) by blast
    qed (use inv a in \<open>auto simp: store_inv_def\<close>)
    moreover have "fs_fault F' = fs_fault F" using a keepsD(2) by blast
    moreover have "plain F' (cas_names r h ex)" for h ex
      using a inv file_added_plain by (auto simp: store_inv_def)
    ultimately show ?thesis using a inv by (simp add: store_inv_def)
  qed
  from p have "index_file_path L S i = (Inr (abs_path ?ns) :: ensure_file_error failure + path)" by (simp only: pn)
  with res c show ?thesis by (intro conjI exI [of _ content]) simp_all
qed

lemma unpack_tarball_run:
  assumes L: "digest_lib L" and S: "sd_root S = abs_path r" and hex: "hex_ok (snd (integrity_to_hex L i))"
    and inv: "store_inv L r F" and pl: "plain F (index_names r (snd (integrity_to_hex L i)))"
    and run: "unpack_tarball L T S i unp url response F = (F', Inr cas)"
  obtains alg archive rs F1 files where "integrity_check L i response = Inr alg"
    and "decode_gzip T unp response = Inr archive" and "archive_entries T archive = Inr rs"
    and "unpack_entries L T S rs ([], []) F = (F1, Inr (cas, files))"
    and "store_inv L r F1" "keeps F F1" "unpacked_ok L r F1 rs (cas, files)" "only_cas r F F1"
    and "write_index_file L S i \<lparr> ix_files = files \<rparr> F1 = (F', Inr ())"
    and "plain F1 (index_names r (snd (integrity_to_hex L i)))"
    and "\<forall>entry ep. Inr entry \<in> set rs \<longrightarrow> \<not> te_is_dir entry \<longrightarrow> te_path entry = Inr ep \<longrightarrow> clean_entry_path ep \<in> fst ` set cas"
proof -
  from run obtain alg archive rs F1 files where r: "integrity_check L i response = Inr alg"
    "decode_gzip T unp response = Inr archive" "archive_entries T archive = Inr rs"
    "unpack_entries L T S rs ([], []) F = (F1, Inr (cas, files))"
    "write_index_file L S i \<lparr> ix_files = files \<rparr> F1 = (F', Inr ())"
    by (auto simp: unpack_tarball_def result_simps decompress_gzip_def)
  have "unpacked_ok L r F rs ([], [])" by (simp add: unpacked_ok_def)
  from unpack_entries_run [OF L S inv this order.refl r(4)]
  have e: "store_inv L r F1" "keeps F F1" "unpacked_ok L r F1 rs (cas, files)" "only_cas r F F1"
    "\<forall>entry ep. Inr entry \<in> set rs \<longrightarrow> \<not> te_is_dir entry \<longrightarrow> te_path entry = Inr ep \<longrightarrow> clean_entry_path ep \<in> fst ` set cas"
    by auto
  from e(4) pl have "plain F1 (index_names r (snd (integrity_to_hex L i)))" by (simp add: only_cas_def)
  with r e that show thesis by simp
qed

lemma unpack_tarball_result:
  assumes L: "digest_lib L" and S: "sd_root S = abs_path r" and hex: "hex_ok (snd (integrity_to_hex L i))"
    and inv: "store_inv L r F" and pl: "plain F (index_names r (snd (integrity_to_hex L i)))"
    and run: "unpack_tarball L T S i unp url response F = (F', Inr cas)"
  shows "\<exists>alg archive rs. integrity_check L i response = Inr alg
    \<and> decode_gzip T unp response = Inr archive \<and> archive_entries T archive = Inr rs
    \<and> store_inv L r F' \<and> keeps F F' \<and> distinct (map fst cas)
    \<and> (\<forall>(nm, p) \<in> set cas. \<exists>h m. stored L r F' rs nm p h m)
    \<and> (\<forall>entry ep. Inr entry \<in> set rs \<longrightarrow> \<not> te_is_dir entry \<longrightarrow> te_path entry = Inr ep
         \<longrightarrow> clean_entry_path ep \<in> fst ` set cas)"
proof -
  obtain alg archive rs F1 files where u: "integrity_check L i response = Inr alg"
    "decode_gzip T unp response = Inr archive" "archive_entries T archive = Inr rs"
    and "unpack_entries L T S rs ([], []) F = (F1, Inr (cas, files))"
    and v: "store_inv L r F1" "keeps F F1" "unpacked_ok L r F1 rs (cas, files)" "only_cas r F F1"
    and w: "write_index_file L S i \<lparr> ix_files = files \<rparr> F1 = (F', Inr ())"
    and pl1: "plain F1 (index_names r (snd (integrity_to_hex L i)))"
    and all: "\<forall>entry ep. Inr entry \<in> set rs \<longrightarrow> \<not> te_is_dir entry \<longrightarrow> te_path entry = Inr ep \<longrightarrow> clean_entry_path ep \<in> fst ` set cas"
    by (rule unpack_tarball_run [OF L S hex inv pl run])
  from write_index_run [OF S hex L v(1) pl1 w] have k: "store_inv L r F'" "keeps F1 F'" by blast+
  have "\<exists>h m. stored L r F' rs nm p h m" if "(nm, p) \<in> set cas" for nm p
  proof -
    from v(3) have "list_all2 (\<lambda>(nm, p) (nm', fi). nm' = nm \<and> (\<exists>h. fi_integrity fi = ''sha512-'' @ base64_encode L h
          \<and> stored L r F1 rs nm p h (fi_mode fi))) cas files" by (simp add: unpacked_ok_def)
    from list_all2_member [OF this that] obtain h and fi :: package_file_info where "stored L r F1 rs nm p h (fi_mode fi)" by auto
    from stored_keeps [OF this k(2)] show ?thesis by (intro exI)
  qed
  then show ?thesis using u v(3) all k(1) keeping.trans [OF v(2) k(2)]
    by (intro exI [of _ alg] exI [of _ archive] exI [of _ rs]) (auto simp: unpacked_ok_def)
qed

text \<open>C27: A tarball is unpacked only when its checksum is right, and then every entry of it that is
  no directory is recorded under its cleaned path, each name once, with the address of the
  content of an entry of that name; the store stays content-addressed and no file of it changes.\<close>

theorem unpack_tarball_spec:
  assumes L: "digest_lib L" and S: "sd_root S = abs_path r" and hex: "hex_ok (snd (integrity_to_hex L i))"
    and inv: "store_inv L r F" and pl: "plain F (index_names r (snd (integrity_to_hex L i)))"
    and run: "unpack_tarball L T S i unp url response F = (F', Inr cas)"
  shows "\<exists>alg archive rs. integrity_check L i response = Inr alg
    \<and> decode_gzip T unp response = Inr archive \<and> archive_entries T archive = Inr rs
    \<and> store_inv L r F' \<and> keeps F F' \<and> distinct (map fst cas)
    \<and> (\<forall>(nm, p) \<in> set cas. \<exists>h m. stored L r F' rs nm p h m)
    \<and> (\<forall>entry ep. Inr entry \<in> set rs \<longrightarrow> \<not> te_is_dir entry \<longrightarrow> te_path entry = Inr ep
         \<longrightarrow> clean_entry_path ep \<in> fst ` set cas)"
  by (rule unpack_tarball_result [OF assms])

section \<open>Loading what was unpacked\<close>

text \<open>What \<^verbatim>\<open>ssri\<close>, \<^verbatim>\<open>base64\<close> and the JSON form of an index promise.\<close>

definition codec_lib :: "store_lib \<Rightarrow> bool" where
  "codec_lib L \<longleftrightarrow>
     (\<forall>ix s. index_to_string L ix = Inr s \<longrightarrow> index_from_str L s = Inr ix \<and> valid_utf8 s)
     \<and> (\<forall>b. \<exists>j. integrity_from_str L (''sha512-'' @ base64_encode L (sha512_digest L b)) = Inr j
          \<and> snd (integrity_to_hex L j) = hex_of_bytes (sha512_digest L b))"

lemma index_not_prefix_cas:
  assumes "hex_ok hex" and "2 \<le> length h"
  shows "\<not> prefix (index_names r hex) (cas_names r h ex)"
proof
  assume "prefix (index_names r hex) (cas_names r h ex)"
  then obtain zs where zs: "cas_names r h ex = index_names r hex @ zs" by (auto simp: prefix_def)
  then have "length zs = 0" using arg_cong [OF zs, of length] by (simp add: cas_names_def index_names_def)
  with zs index_not_cas [OF assms, of r ex] show False by simp
qed

lemma load_indexed:
  assumes codec: "codec_lib L" and L: "digest_lib L" and S: "sd_root S = abs_path r"
    and two: "list_all2 (\<lambda>(nm, p) (nm', fi). nm' = nm \<and> (\<exists>h. fi_integrity fi = ''sha512-'' @ base64_encode L h
          \<and> stored L r F rs nm p h (fi_mode fi))) cas files"
  shows "traverse (\<lambda>(path, info).
           rbind (map_err (\<lambda>e. Err (ParseFileIntegrity e)) (integrity_from_str L (fi_integrity info))) (\<lambda>i.
           let executable = is_all_exec (fi_mode info)
           in map_ok (\<lambda>store_path. (path, store_path)) (cas_file_path_by_integrity L S i executable)))
         files = (Inr cas :: tarball_error failure + cas_paths)"
  using two
proof (induction cas files rule: list_all2_induct)
  case (Cons x xs y ys)
  obtain nm p where x: "x = (nm, p)" by (cases x)
  obtain nm' fi where y: "y = (nm', fi)" by (cases y)
  from Cons.hyps(1) obtain h where h: "nm' = nm" "fi_integrity fi = ''sha512-'' @ base64_encode L h"
    "stored L r F rs nm p h (fi_mode fi)" by (auto simp: x y)
  from h(3) obtain b where b: "h = sha512_digest L b" and p: "p = abs_path (cas_names r h (is_all_exec (fi_mode fi)))"
    by (auto simp: stored_def)
  from codec obtain j where j: "integrity_from_str L (fi_integrity fi) = Inr j"
    "snd (integrity_to_hex L j) = hex_of_bytes h"
    unfolding codec_lib_def h(2) b by blast
  have "2 \<le> length h" using L b by (simp add: digest_lib_def)
  from cas_file_path_abs [OF this S] have "cas_file_path_by_integrity L S j (is_all_exec (fi_mode fi)) = (Inr p :: tarball_error failure + path)"
    using j(2) p by (simp add: cas_file_path_by_integrity_def cas_file_path_def Let_def split_beta)
  with Cons.IH j(1) show ?case by (simp add: x y h(1) Let_def)
qed simp

lemma unpack_load_result:
  assumes L: "digest_lib L" and S: "sd_root S = abs_path r" and hex: "hex_ok (snd (integrity_to_hex L i))"
    and codec: "codec_lib L" and inv: "store_inv L r F" and nf: "\<And>p. fs_fault F ReadFile p = None"
    and pl: "plain F (index_names r (snd (integrity_to_hex L i)))"
    and new: "node_at F (index_names r (snd (integrity_to_hex L i))) = None"
    and run: "unpack_tarball L T S i unp url response F = (F', Inr cas)"
  shows "load_from_store L S i F' = Inr (Some cas)"
proof -
  let ?ns = "index_names r (snd (integrity_to_hex L i))"
  obtain alg archive rs F1 files where "integrity_check L i response = Inr alg"
    "decode_gzip T unp response = Inr archive" "archive_entries T archive = Inr rs"
    and "unpack_entries L T S rs ([], []) F = (F1, Inr (cas, files))"
    and v: "store_inv L r F1" "keeps F F1" "unpacked_ok L r F1 rs (cas, files)" "only_cas r F F1"
    and w: "write_index_file L S i \<lparr> ix_files = files \<rparr> F1 = (F', Inr ())"
    and pl1: "plain F1 ?ns"
    and "\<forall>entry ep. Inr entry \<in> set rs \<longrightarrow> \<not> te_is_dir entry \<longrightarrow> te_path entry = Inr ep \<longrightarrow> clean_entry_path ep \<in> fst ` set cas"
    by (rule unpack_tarball_run [OF L S hex inv pl run])
  have new1: "node_at F1 ?ns = None"
    using v(4) new index_not_prefix_cas [OF hex] new_on_way_prefix unfolding only_cas_def by metis
  from write_index_run [OF S hex L v(1) pl1 w] new1 obtain content where k: "store_inv L r F'" "keeps F1 F'"
    "index_file_path L S i = (Inr (abs_path ?ns) :: ensure_file_error failure + path)"
    "index_to_string L \<lparr> ix_files = files \<rparr> = Inr content" "file_added ?ns content F1 F'" by blast
  have p: "index_file_path L S i = (Inr (abs_path ?ns) :: read_index_file_error failure + path)"
    using k(3) by (auto simp: index_file_path_def file_path_by_hex_str_def Let_def split: prod.splits if_splits)
  have "fs_fault F' = fs_fault F" using keepsD(2) [OF k(2)] keepsD(2) [OF v(2)] by simp
  moreover have "tree_ok F'" using k(1) by (simp add: store_inv_def)
  ultimately have "fs_read F' (abs_path ?ns) = Inr content"
    using read_node [of F' ?ns "fs_next F1"] k(5) nf by (simp add: file_added_def)
  moreover from codec k(4) have "index_from_str L content = Inr \<lparr> ix_files = files \<rparr>" "valid_utf8 content"
    by (auto simp: codec_lib_def)
  ultimately have "read_index_file L S F' i = Inr (Some \<lparr> ix_files = files \<rparr>)"
    by (simp add: read_index_file_def p fs_read_to_string_def)
  then show ?thesis
    using load_indexed [OF codec L S, of F1 rs cas files] v(3)
    by (simp add: load_from_store_def unpacked_ok_def)
qed

text \<open>C28: What was unpacked is found again: after a package has been unpacked into a store without
  an index for it, loading the package from the store gives the same paths under the same names,
  without a download.\<close>

theorem unpack_then_load:
  assumes L: "digest_lib L" and S: "sd_root S = abs_path r" and hex: "hex_ok (snd (integrity_to_hex L i))"
    and codec: "codec_lib L" and inv: "store_inv L r F" and nf: "\<And>p. fs_fault F ReadFile p = None"
    and pl: "plain F (index_names r (snd (integrity_to_hex L i)))"
    and new: "node_at F (index_names r (snd (integrity_to_hex L i))) = None"
    and run: "unpack_tarball L T S i unp url response F = (F', Inr cas)"
  shows "load_from_store L S i F' = Inr (Some cas)"
  by (rule unpack_load_result [OF assms])

section \<open>The memory of the process\<close>

lemma http_get_frame: "http_get f url w = (w', r) \<Longrightarrow> w_mem_cache w' = w_mem_cache w \<and> length (w_requests w') = Suc (length (w_requests w))"
  by (auto simp: http_get_def)

lemma on_fs_frame: "on_fs m w = (w', r) \<Longrightarrow> w_mem_cache w' = w_mem_cache w \<and> w_requests w' = w_requests w"
  by (auto simp: on_fs_def act_on_def split: prod.splits)

lemma obtain_tarball_frame:
  assumes "obtain_tarball L T N S i unp url mode w = (w', r)"
  shows "w_mem_cache w' = w_mem_cache w \<and> length (w_requests w') \<le> Suc (length (w_requests w))"
proof -
  have "w_mem_cache w' = w_mem_cache w \<and> length (w_requests w') \<le> Suc (length (w_requests w))"
    if run: "run_without_mem_cache L T N S i unp url w = (w', r)"
  proof -
    obtain w1 x where g: "http_get (net_bytes N) url w = (w1, x)" by (cases "http_get (net_bytes N) url w")
    show ?thesis
    proof (cases x)
      case (Inl e)
      with run g http_get_frame [OF g] show ?thesis
        by (auto simp: run_without_mem_cache_def act_bind_def act_map_err_def)
    next
      case (Inr response)
      obtain w2 y where u: "on_fs (unpack_tarball L T S i unp url response) w1 = (w2, y)"
        by (cases "on_fs (unpack_tarball L T S i unp url response) w1")
      with run g Inr have "w' = w2"
        by (auto simp: run_without_mem_cache_def act_bind_def act_map_err_def spawn_join_def)
      with http_get_frame [OF g] on_fs_frame [OF u] show ?thesis by simp
    qed
  qed
  moreover have "w' = w \<or> run_without_mem_cache L T N S i unp url w = (w', r)"
    using assms by (auto simp: obtain_tarball_def act_bind_def act_read_def act_return_def act_throw_def
        split: sum.splits option.splits if_splits)
  ultimately show ?thesis by auto
qed

text \<open>A process downloads a tarball at most once. The first call for a URL makes at most one
  request; when it succeeds, every later call for the URL returns its result without touching
  the store or the network. When it fails, the URL stays marked as being in progress, and every
  later call waits for a notification that no one sends.\<close>

theorem mem_cache_after_first_call:
  assumes new: "map_of (w_mem_cache w) url = None"
    and run: "run_with_mem_cache L T N S i unp url mode w = (w', r)"
  shows "length (w_requests w') \<le> Suc (length (w_requests w))
    \<and> (\<forall>L2 T2 N2 S2 i2 unp2 mode2. run_with_mem_cache L2 T2 N2 S2 i2 unp2 url mode2 w'
         = (w', case r of Inr cas_paths \<Rightarrow> Inr cas_paths | Inl _ \<Rightarrow> Inl Blocked))"
proof -
  let ?w1 = "w\<lparr>w_mem_cache := AList.update url InProgress (w_mem_cache w)\<rparr>"
  obtain w2 x where o: "obtain_tarball L T N S i unp url mode ?w1 = (w2, x)" by (cases "obtain_tarball L T N S i unp url mode ?w1")
  from obtain_tarball_frame [OF o] have f: "w_mem_cache w2 = AList.update url InProgress (w_mem_cache w)"
    "length (w_requests w2) \<le> Suc (length (w_requests w))" by simp_all
  show ?thesis
  proof (cases x)
    case (Inl e)
    with run new o have w': "w' = w2" and r: "r = Inl e"
      by (auto simp: run_with_mem_cache_def act_bind_def act_read_def set_cache_def)
    have "map_of (w_mem_cache w') url = Some InProgress" by (simp add: w' f(1) update_conv')
    then show ?thesis using f(2) by (simp add: w' r run_with_mem_cache_def act_simps)
  next
    case (Inr cas)
    with run new o have w': "w' = w2\<lparr>w_mem_cache := AList.update url (Available cas) (w_mem_cache w2)\<rparr>" and r: "r = Inr cas"
      by (auto simp: run_with_mem_cache_def act_bind_def act_read_def act_return_def set_cache_def)
    have "map_of (w_mem_cache w') url = Some (Available cas)" by (simp add: w' update_conv')
    then have "run_with_mem_cache L2 T2 N2 S2 i2 unp2 url mode2 w' = (w', Inr cas)" for L2 T2 N2 S2 i2 unp2 mode2
      by (simp add: run_with_mem_cache_def act_simps)
    then show ?thesis using f(2) by (simp add: w' r)
  qed
qed

section \<open>Examples\<close>

text \<open>A tarball with one directory and one file, and libraries with a digest of two bytes.\<close>

definition tarball_index :: package_files_index where
  "tarball_index = \<lparr> ix_files = [(''a.js'',
     \<lparr> fi_checked_at = None, fi_integrity = ''sha512-ab'', fi_mode = 0x1A4, fi_size = None \<rparr>)] \<rparr>"

definition tarball_store_lib :: store_lib where
  "tarball_store_lib =
     \<lparr> sha512_digest = (\<lambda>s. take 2 (s @ ''..'')), base64_encode = (\<lambda>s. s),
       integrity_from_str = (\<lambda>s. if take 7 s = ''sha512-'' then Inr [(Sha512, drop 7 s)] else Inl ''parse''),
       integrity_to_hex = (\<lambda>i. (fst (hd i), hex_of_bytes (take 2 (snd (hd i) @ ''..'')))),
       integrity_check = (\<lambda>i b. if take 2 b = take 2 (snd (hd i)) then Inr Sha512 else Inl ''mismatch''),
       index_to_string = (\<lambda>ix. if ix = tarball_index then Inr ''index'' else Inl ''unknown''),
       index_from_str = (\<lambda>s. if s = ''index'' then Inr tarball_index else Inl ''parse'') \<rparr>"

definition one_file_tarball :: tarball_lib where
  "one_file_tarball =
     \<lparr> decode_gzip = (\<lambda>_ s. Inr s),
       archive_entries = (\<lambda>_. Inr
         [Inr \<lparr> te_is_dir = True, te_mode = Inr 0x1ED, te_size = None, te_content = Inr [], te_path = Inr ''package/'' \<rparr>,
          Inr \<lparr> te_is_dir = False, te_mode = Inr 0x1A4, te_size = None, te_content = Inr ''ab'', te_path = Inr ''package/a.js'' \<rparr>]),
       epoch_elapsed = (\<lambda>_. None) \<rparr>"

abbreviation tarball_integrity :: integrity where
  "tarball_integrity \<equiv> [(Sha512, ''zz'')]"

lemma digest_tarball_store: "digest_lib tarball_store_lib"
  by (auto simp: digest_lib_def tarball_store_lib_def min_def)

lemma codec_tarball_store: "codec_lib tarball_store_lib"
proof -
  have "valid_utf8 ''index''" by code_simp
  moreover have "take 2 (take 2 (b @ ''..'') @ ''..'') = take 2 (b @ ''..'')" for b :: string by (simp add: min_def)
  ultimately show ?thesis by (auto simp: codec_lib_def tarball_store_lib_def)
qed

lemma hex_tarball_store: "hex_ok (snd (integrity_to_hex tarball_store_lib i))"
  by (simp add: tarball_store_lib_def hex_ok_digest)

lemma store_inv_empty: "store_inv L r empty_fs"
  by (simp add: store_inv_def cas_ok_def cas_names_def)

lemma unpack_example:
  "\<exists>F'. unpack_tarball tarball_store_lib one_file_tarball store_root tarball_integrity None ''u'' ''zz'' empty_fs
     = (F', Inr [(''a.js'', abs_path [''store'', ''v3'', ''files'', ''61'', ''62''])])"
proof -
  have res: "snd (unpack_tarball tarball_store_lib one_file_tarball store_root tarball_integrity None ''u'' ''zz'' empty_fs)
     = Inr [(''a.js'', abs_path [''store'', ''v3'', ''files'', ''61'', ''62''])]" by code_simp
  from ex_state [OF res] show ?thesis .
qed

lemma store_root_path: "sd_root store_root = abs_path [''store'']"
  by (simp add: store_root_def)

theorem unpack_tarball_spec_witness:
  "\<exists>F'. snd (unpack_tarball tarball_store_lib one_file_tarball store_root tarball_integrity None ''u'' ''zz'' empty_fs)
       = Inr [(''a.js'', abs_path [''store'', ''v3'', ''files'', ''61'', ''62''])]
     \<and> store_inv tarball_store_lib [''store''] F' \<and> keeps empty_fs F'"
proof -
  from unpack_example obtain F' where run: "unpack_tarball tarball_store_lib one_file_tarball store_root tarball_integrity None ''u'' ''zz'' empty_fs
     = (F', Inr [(''a.js'', abs_path [''store'', ''v3'', ''files'', ''61'', ''62''])])" ..
  from unpack_tarball_spec [OF digest_tarball_store store_root_path hex_tarball_store store_inv_empty plain_empty run] run
  show ?thesis by auto
qed

theorem unpack_then_load_witness:
  "load_from_store tarball_store_lib store_root tarball_integrity
     (fst (unpack_tarball tarball_store_lib one_file_tarball store_root tarball_integrity None ''u'' ''zz'' empty_fs))
     = Inr (Some [(''a.js'', abs_path [''store'', ''v3'', ''files'', ''61'', ''62''])])"
proof -
  from unpack_example obtain F' where run: "unpack_tarball tarball_store_lib one_file_tarball store_root tarball_integrity None ''u'' ''zz'' empty_fs
     = (F', Inr [(''a.js'', abs_path [''store'', ''v3'', ''files'', ''61'', ''62''])])" ..
  have "node_at empty_fs (index_names [''store''] h) = None" for h by (simp add: index_names_def)
  from unpack_then_load [OF digest_tarball_store store_root_path hex_tarball_store codec_tarball_store store_inv_empty
      fault_empty plain_empty this run] run
  show ?thesis by simp
qed

text \<open>A network that is down.\<close>

definition down :: "nat network" where
  "down = \<lparr> net_package = (\<lambda>_ _. Inl ''down''), net_version = (\<lambda>_ _. Inl ''down''), net_bytes = (\<lambda>_ _. Inl ''down''),
     package_to_vec = (\<lambda>_. Inl ''json''), package_from_str = (\<lambda>_. Inl ''json'') \<rparr>"

definition fresh_world :: "fs \<Rightarrow> nat world" where
  "fresh_world F = \<lparr> w_fs = F, w_requests = [], w_metadata = [], w_mem_cache = [], w_resolved = [] \<rparr>"

theorem mem_cache_after_first_call_witness:
  "\<exists>w'. run_with_mem_cache tarball_store_lib one_file_tarball down store_root tarball_integrity None ''u'' NetworkOnline
       (fresh_world empty_fs) = (w', Inl (Err (FetchTarball ''u'' ''down'')))
     \<and> run_with_mem_cache tarball_store_lib one_file_tarball down store_root tarball_integrity None ''u'' NetworkOnline w'
       = (w', Inl Blocked)"
proof -
  have new: "map_of (w_mem_cache (fresh_world empty_fs)) ''u'' = None" by (simp add: fresh_world_def)
  have res: "snd (run_with_mem_cache tarball_store_lib one_file_tarball down store_root tarball_integrity None ''u'' NetworkOnline
       (fresh_world empty_fs)) = Inl (Err (FetchTarball ''u'' ''down''))" by code_simp
  from ex_state [OF res] obtain w' where run: "run_with_mem_cache tarball_store_lib one_file_tarball down store_root tarball_integrity None ''u'' NetworkOnline
       (fresh_world empty_fs) = (w', Inl (Err (FetchTarball ''u'' ''down'')))" ..
  from mem_cache_after_first_call [OF new run] run show ?thesis by auto
qed

end
