(* ===== verification/Install_Example.thy ===== *)
theory Install_Example
  imports Install Generated_Lockfile Package_Files Tarball_Store
begin

text \<open>
  A small workspace for the witnesses of the theorems on whole commands: a registry that serves
  every tarball with one file, a project with two dependencies and a lockfile of two packages, one
  of which depends on the other.
\<close>

definition workspace_network :: "ver3 network" where
  "workspace_network =
     \<lparr> net_package = (\<lambda>_ url. ok_or ''not found'' (map_of example_registry url)),
       net_version = (\<lambda>_ _. Inl ''not found''), net_bytes = (\<lambda>_ _. Inr ''zz''),
       package_to_vec = (\<lambda>_. Inl ''serialize''), package_from_str = (\<lambda>_. Inl ''parse'') \<rparr>"

definition example_installer :: "(ver3, range3) installer" where
  "example_installer =
     \<lparr> i_extern = lib3, i_store = tarball_store_lib, i_tarball = one_file_tarball, i_network = workspace_network,
       i_reflink = no_reflink, i_config = example_config \<rparr>"

text \<open>A lockfile in which \<^verbatim>\<open>p\<close> depends on \<^verbatim>\<open>o\<close>.\<close>

definition locked_path :: "string \<Rightarrow> ver3 dependency_path" where
  "locked_path nm =
     \<lparr> dp_custom_registry = None,
       dp_package_specifier = \<lparr> ns_name = \<lparr> pn_scope = None, pn_bare = nm \<rparr>, ns_suffix = \<lparr> vp_version = (1, 0, 0), vp_peer = [] \<rparr> \<rparr> \<rparr>"

definition locked_snapshot :: "string list \<Rightarrow> ver3 package_snapshot" where
  "locked_snapshot deps =
     (placeholder_snapshot (Registry \<lparr> rr_integrity = tarball_integrity \<rparr>) False False)
       \<lparr> sn_dependencies := Some (map (\<lambda>nm. (\<lparr> pn_scope = None, pn_bare = nm \<rparr>, PkgVerPeer \<lparr> vp_version = (1, 0, 0), vp_peer = [] \<rparr>)) deps) \<rparr>"

definition locked_project :: "ver3 lockfile" where
  "locked_project =
     \<lparr> lf_lockfile_version = \<lparr> cv_major = 6, cv_minor = 0 \<rparr>, lf_settings = None,
       lf_never_built_dependencies = None, lf_overrides = None,
       lf_project_snapshot = Single
           \<lparr> ps_specifiers = None,
             ps_dependencies = Some [(\<lparr> pn_scope = None, pn_bare = ''p'' \<rparr>,
               \<lparr> rd_specifier = ''1.0.0'', rd_version = \<lparr> vp_version = (1, 0, 0), vp_peer = [] \<rparr> \<rparr>)],
             ps_optional_dependencies = None, ps_dev_dependencies = None, ps_dependencies_meta = None,
             ps_publish_directory = None \<rparr>,
       lf_packages = Some [(locked_path ''p'', locked_snapshot [''o'']), (locked_path ''o'', locked_snapshot [])] \<rparr>"


definition example_workspace :: "(ver3, range3) workspace" where
  "example_workspace =
     \<lparr> ws_installer = example_installer, ws_json = json3 (mf_value project_manifest), ws_yaml = yaml3 locked_project,
       ws_fuel = 5 \<rparr>"

end
