(* ===== verification/Virtual_Dirs.thy ===== *)
theory Virtual_Dirs
  imports Package_Links Install_Example
begin

text \<open>
  The directory of a package in the virtual store: its files, and next to them the links to its
  dependencies, so that node.js finds a dependency from within the package.
\<close>

section \<open>Where a package is\<close>

text \<open>Names as npm allows them, and the directories of such a name.\<close>

definition pkg_name_plain :: "pkg_name \<Rightarrow> bool" where
  "pkg_name_plain n \<longleftrightarrow>
     file_name_ok (pn_bare n) \<and> \<not> starts_with_char (CHR ''@'') (pn_bare n)
     \<and> (case pn_scope n of None \<Rightarrow> True | Some s \<Rightarrow> file_name_ok (CHR ''@'' # s))"

definition pkg_dirs :: "pkg_name \<Rightarrow> names" where
  "pkg_dirs n = (case pn_scope n of None \<Rightarrow> [pn_bare n] | Some s \<Rightarrow> [CHR ''@'' # s, pn_bare n])"

lemma pkg_dirs_not_Nil [simp]: "pkg_dirs n \<noteq> []"
  by (simp add: pkg_dirs_def split: option.split)

lemma path_of_pkg_name: "pkg_name_plain n \<Longrightarrow> path_of_string (pkg_name_to_string n) = map Normal (pkg_dirs n)"
  using path_of_two_names [of "CHR ''@'' # the (pn_scope n)" "pn_bare n"]
  by (auto simp: pkg_name_plain_def pkg_name_to_string_def pkg_dirs_def split: option.splits)

lemma join_pkg_name: "pkg_name_plain n \<Longrightarrow> join_str (abs_path d) (pkg_name_to_string n) = abs_path (d @ pkg_dirs n)"
  by (simp add: path_of_pkg_name join_names)

lemma join_file_name: "file_name_ok s \<Longrightarrow> join_str (abs_path d) s = abs_path (d @ [s])"
  by (simp add: abs_path_def)

text \<open>The directories of two packages are not in each other.\<close>

lemma pkg_dirs_parallel: "pkg_name_plain a \<Longrightarrow> pkg_name_plain b \<Longrightarrow> a \<noteq> b \<Longrightarrow> pkg_dirs a \<parallel> pkg_dirs b"
  by (cases a; cases b)
     (auto simp: parallel_def pkg_dirs_def pkg_name_plain_def starts_with_char_def split: option.splits)

definition package_place :: "names \<Rightarrow> string \<Rightarrow> pkg_name \<Rightarrow> names" where
  "package_place vs store_name n = vs @ [store_name, ''node_modules''] @ pkg_dirs n"

section \<open>What may be new\<close>

text \<open>\<open>only_below D F F'\<close>: the new nodes are at or below the directories \<open>D\<close>, or directories above them.\<close>

definition only_below :: "names set \<Rightarrow> fs \<Rightarrow> fs \<Rightarrow> bool" where
  "only_below D F F' \<longleftrightarrow> keeps F F'
     \<and> (\<forall>q nd. node_at F' q = Some nd \<longrightarrow> node_at F q = Some nd
          \<or> nd = Dir \<and> (\<exists>d \<in> D. strict_prefix q d) \<or> (\<exists>d \<in> D. prefix d q))"

interpretation below: state_order "only_below D" for D
proof unfold_locales
  fix F F1 F2 assume "only_below D F F1" "only_below D F1 F2"
  then show "only_below D F F2" unfolding only_below_def using keeping.trans by blast
qed (simp add: only_below_def keeping.refl)

lemma only_below_keeps: "only_below D F F' \<Longrightarrow> keeps F F'"
  by (simp add: only_below_def)

lemma only_below_same:
  assumes "only_below D F F'" and "\<And>d. d \<in> D \<Longrightarrow> d \<parallel> q"
  shows "node_at F' q = node_at F q"
proof -
  have "\<not> prefix d q \<and> \<not> strict_prefix q d" if "d \<in> D" for d
    using assms(2) [OF that] by (auto simp: parallel_def strict_prefix_def)
  then have "node_at F q = Some nd" if "node_at F' q = Some nd" for nd
    using assms(1) that unfolding only_below_def by blast
  with keepsD(3) [OF only_below_keeps [OF assms(1)], of q] show ?thesis
    by (cases "node_at F q"; cases "node_at F' q") auto
qed

lemma only_below_plain:
  assumes "only_below D F F'" and "\<And>d. d \<in> D \<Longrightarrow> \<not> prefix d q" and "plain F q"
  shows "plain F' q"
  unfolding plain_def
proof (intro allI notI)
  fix k t assume "node_at F' (take k q) = Some (Symlink t)"
  moreover have "node_at F (take k q) \<noteq> Some (Symlink t)" using assms(3) unfolding plain_def by blast
  ultimately obtain d where "d \<in> D" "prefix d (take k q)" using assms(1) unfolding only_below_def by blast
  moreover have "prefix (take k q) q" by (rule take_is_prefix)
  ultimately show False using assms(2) prefix_order.trans by blast
qed

lemma only_below_mono:
  assumes "only_below D F F'" and "\<And>d. d \<in> D \<Longrightarrow> \<exists>e \<in> E. prefix e d"
  shows "only_below E F F'"
proof -
  have "(\<exists>e \<in> E. strict_prefix q e) \<or> (\<exists>e \<in> E. prefix e q)" if "d \<in> D" "strict_prefix q d" for q d
  proof -
    from assms(2) [OF that(1)] obtain e where e: "e \<in> E" "prefix e d" by blast
    from prefix_same_cases [OF e(2), of q] that(2) have "prefix e q \<or> strict_prefix q e"
      by (auto simp: strict_prefix_def)
    with e(1) show ?thesis by blast
  qed
  moreover have "\<exists>e \<in> E. prefix e q" if "d \<in> D" "prefix d q" for q d
    using assms(2) [OF that(1)] that(2) prefix_order.trans by blast
  ultimately show ?thesis using assms(1) unfolding only_below_def by meson
qed

section \<open>Several links\<close>

text \<open>A link of \<^verbatim>\<open>create_symlink_layout\<close> or \<^verbatim>\<open>symlink_direct_dependencies\<close>.\<close>

abbreviation link_at :: "string \<Rightarrow> names \<Rightarrow> names \<Rightarrow> path \<Rightarrow> (fs, 'e failure, unit) action" where
  "link_at msg b ns t \<equiv> act_expect msg (act_err (symlink_package t (abs_path (b @ ns))))"

lemma prefix_snoc_strict: "prefix q d \<Longrightarrow> strict_prefix q (d @ [n])"
  by (metis prefix_order.le_less_trans strict_prefixI' append_Nil2)

text \<open>A place beside a new link stays free.\<close>

lemma place_stays_free:
  assumes new: "\<And>q. q \<noteq> b @ d @ [n] \<Longrightarrow> node_at F1 q = node_at F q \<or> prefix q (b @ d) \<and> node_at F q = None \<and> node_at F1 q = Some Dir"
    and par: "d @ [n] \<parallel> ns" and free: "plain F (b @ ns)" "node_at F (b @ ns) = None"
  shows "plain F1 (b @ ns) \<and> node_at F1 (b @ ns) = None"
proof
  have "\<not> prefix (b @ ns) (b @ d)" using par by (auto simp: parallel_def dest: prefix_order.trans)
  moreover have "b @ ns \<noteq> b @ d @ [n]" using par by auto
  ultimately show "node_at F1 (b @ ns) = None" using new [of "b @ ns"] free(2) by auto
  show "plain F1 (b @ ns)"
    unfolding plain_def
  proof (intro allI notI)
    fix k t assume l: "node_at F1 (take k (b @ ns)) = Some (Symlink t)"
    have "take k (b @ ns) \<noteq> b @ d @ [n]"
    proof
      assume "take k (b @ ns) = b @ d @ [n]"
      then have "prefix (b @ d @ [n]) (b @ ns)" by (metis take_is_prefix)
      with par show False by (auto simp: parallel_def)
    qed
    moreover have "node_at F (take k (b @ ns)) \<noteq> Some (Symlink t)" using free(1) unfolding plain_def by blast
    ultimately show False using l new by fastforce
  qed
qed

lemma link_all:
  assumes "act_for (\<lambda>(ns, t). link_at msg b ns t :: (fs, 'e failure, unit) action) xs F = (F', Inr ())"
    and "tree_ok F" and "\<forall>c p. fs_fault F c p = None"
    and "\<forall>(ns, t) \<in> set xs. ns \<noteq> [] \<and> plain F (b @ ns) \<and> node_at F (b @ ns) = None"
    and "sorted_wrt (\<lambda>x y. fst x \<parallel> fst y) xs"
  shows "tree_ok F' \<and> keeps F F' \<and> (\<forall>(ns, t) \<in> set xs. node_at F' (b @ ns) = Some (Symlink t))
    \<and> (\<forall>q. (\<forall>ns \<in> fst ` set xs. q \<noteq> b @ ns) \<longrightarrow> node_at F' q = node_at F q
         \<or> (\<exists>ns \<in> fst ` set xs. strict_prefix q (b @ ns)) \<and> node_at F q = None \<and> node_at F' q = Some Dir)"
  using assms
proof (induction xs arbitrary: F)
  case Nil
  then show ?case by (auto simp: act_return_eq keeping.refl)
next
  case (Cons x xs)
  obtain d n t where x: "x = (d @ [n], t)" using Cons.prems(4) by (cases x) (auto, metis rev_exhaust)
  have "\<exists>F1. symlink_package t (abs_path ((b @ d) @ [n])) F = (F1, Inr ())
      \<and> act_for (\<lambda>(ns, t). link_at msg b ns t :: (fs, 'e failure, unit) action) xs F1 = (F', Inr ())"
    using Cons.prems(1) by (simp add: x act_for_Cons_Inr act_expect_Inr act_map_err_eq_Inr)
  then obtain F1 where one: "symlink_package t (abs_path ((b @ d) @ [n])) F = (F1, Inr ())"
    and rest: "act_for (\<lambda>(ns, t). link_at msg b ns t :: (fs, 'e failure, unit) action) xs F1 = (F', Inr ())"
    by blast
  have pl: "plain F (b @ d)" and new: "node_at F ((b @ d) @ [n]) = None"
    using Cons.prems(4) plain_prefix [of F "b @ d" "[n]"] by (auto simp: x)
  from symlink_package_new [OF Cons.prems(2) pl new Cons.prems(3) one]
  have F1: "tree_ok F1" "keeps F F1" "node_at F1 (b @ d @ [n]) = Some (Symlink t)"
    "\<And>q. q \<noteq> b @ d @ [n] \<Longrightarrow> node_at F1 q = node_at F q \<or> prefix q (b @ d) \<and> node_at F q = None \<and> node_at F1 q = Some Dir"
    by auto
  have "ns \<noteq> [] \<and> plain F1 (b @ ns) \<and> node_at F1 (b @ ns) = None" if m: "(ns, t') \<in> set xs" for ns t'
  proof -
    have ns: "d @ [n] \<parallel> ns" "ns \<noteq> []" "plain F (b @ ns)" "node_at F (b @ ns) = None"
      using Cons.prems(4,5) m by (auto simp: x)
    from place_stays_free [where d = d and n = n, OF F1(4) ns(1,3,4)] ns(2) show ?thesis by simp
  qed
  with Cons.IH [OF rest F1(1)] Cons.prems(3,5) keepsD(2) [OF F1(2)]
  have ih: "tree_ok F'" "keeps F1 F'" "\<And>ns t. (ns, t) \<in> set xs \<Longrightarrow> node_at F' (b @ ns) = Some (Symlink t)"
    "\<And>q. \<forall>ns \<in> fst ` set xs. q \<noteq> b @ ns \<Longrightarrow> node_at F' q = node_at F1 q
         \<or> (\<exists>ns \<in> fst ` set xs. strict_prefix q (b @ ns)) \<and> node_at F1 q = None \<and> node_at F' q = Some Dir"
    by (fastforce simp: split_def)+
  have "node_at F' q = node_at F q
      \<or> (\<exists>ns \<in> fst ` set (x # xs). strict_prefix q (b @ ns)) \<and> node_at F q = None \<and> node_at F' q = Some Dir"
    if q: "\<forall>ns \<in> fst ` set (x # xs). q \<noteq> b @ ns" for q
    using q F1(4) [of q] ih(4) [of q] prefix_snoc_strict [of q "b @ d" n] by (auto simp: x)
  moreover have "node_at F' (b @ d @ [n]) = Some (Symlink t)" by (rule keepsD(3) [OF ih(2) F1(3)])
  ultimately show ?case using ih(1,3) keeping.trans [OF F1(2) ih(2)] by (auto simp: x)
qed

section \<open>The directory of a package\<close>

lemma importable_keeps: "importable F cas \<Longrightarrow> keeps F F' \<Longrightarrow> importable F' cas"
  unfolding importable_def by (fastforce dest: keepsD(3))

text \<open>Where the package with a virtual store name is looked for, and the link to a dependency.\<close>

definition dependency_links ::
    "('v, 'r) extern \<Rightarrow> names \<Rightarrow> (pkg_name \<times> 'v package_snapshot_dependency) list \<Rightarrow> (names \<times> path) list" where
  "dependency_links X vs dependencies =
     map (\<lambda>(n, spec). (pkg_dirs n, abs_path (package_place vs (dependency_store_name X n spec) n))) dependencies"

definition plain_dependencies :: "('v, 'r) extern \<Rightarrow> (pkg_name \<times> 'v package_snapshot_dependency) list \<Rightarrow> bool" where
  "plain_dependencies X dependencies \<longleftrightarrow> distinct (map fst dependencies)
     \<and> (\<forall>(n, spec) \<in> set dependencies. pkg_name_plain n \<and> file_name_ok (dependency_store_name X n spec))"

lemma file_name_node_modules [simp]: "file_name_ok ''node_modules''"
  by (simp add: file_name_ok_def)

lemma join_place:
  assumes "file_name_ok s" and "pkg_name_plain n"
  shows "join_str (join_str (join_str (abs_path vs) s) ''node_modules'') (pkg_name_to_string n) = abs_path (package_place vs s n)"
  by (simp only: join_file_name [OF assms(1)] join_file_name [OF file_name_node_modules] join_pkg_name [OF assms(2)])
     (simp add: package_place_def)

lemma symlink_layout_links:
  assumes "plain_dependencies X dependencies"
  shows "(create_symlink_layout X dependencies (abs_path vs) (abs_path d) :: (fs, 'e failure, unit) action)
    = act_for (\<lambda>(ns, t). link_at ''symlink pkg successful'' d ns t) (dependency_links X vs dependencies)"
  unfolding create_symlink_layout_def dependency_links_def act_for_map Let_def
  by (rule act_for_cong)
     (use assms in \<open>auto simp: plain_dependencies_def join_place join_pkg_name simp del: join_name path_of_file_name\<close>)

lemma dependency_links_parallel:
  "plain_dependencies X dependencies \<Longrightarrow> sorted_wrt (\<lambda>x y. fst x \<parallel> fst y) (dependency_links X vs dependencies)"
proof (induction dependencies)
  case (Cons x dependencies)
  then show ?case
    by (force simp: dependency_links_def plain_dependencies_def intro: pkg_dirs_parallel)
qed (simp add: dependency_links_def)

text \<open>What an import does to paths that lead neither to nor into the package.\<close>

lemma package_dirs_beside:
  assumes "package_dirs_made dir cas F F1" and "dir \<parallel> q"
  shows "node_at F1 q = node_at F q"
proof -
  have "\<not> prefix q (dir @ r)" for r
  proof
    assume "prefix q (dir @ r)"
    then have "prefix q dir \<or> prefix dir q" by (metis prefix_same_cases prefixI)
    with assms(2) show False by (auto simp: parallel_def)
  qed
  moreover from this [of "[]"] have "\<not> prefix q dir" by simp
  ultimately show ?thesis using assms(1) unfolding package_dirs_made_def by blast
qed

lemma import_beside:
  assumes R: "reflink_ok R" and ok: "tree_ok F" and dir: "plain F dir" "node_at F dir = None"
    and nf: "\<And>p. fs_fault F Stat p = None" and imp: "importable F cas"
    and run: "create_cas_files R m (abs_path dir) cas F = (F', Inr ())"
  shows "tree_ok F' \<and> keeps F F'
    \<and> (\<forall>(e, p) \<in> set cas. \<exists>i j. node_at F (path_names p) = Some (File i)
         \<and> node_at F' (dir @ entry_names e) = Some (File j) \<and> in_data (fs_inodes F' j) = in_data (fs_inodes F i))
    \<and> (\<forall>q. dir \<parallel> q \<longrightarrow> node_at F' q = node_at F q)
    \<and> (\<forall>q nd. node_at F' q = Some nd \<longrightarrow> node_at F q = Some nd
         \<or> nd = Dir \<and> (prefix q dir \<or> prefix dir q) \<or> (\<exists>e \<in> fst ` set cas. \<exists>i. q = dir @ entry_names e \<and> nd = File i))"
proof -
  from create_cas_files_run [OF R ok dir nf imp run] obtain F1 where
    made: "package_dirs_made dir cas F F1"
    and l: "tree_ok F'" "keeps F F'"
      "\<forall>(e, p) \<in> set cas. \<exists>i j. node_at F (path_names p) = Some (File i)
           \<and> node_at F' (dir @ entry_names e) = Some (File j) \<and> in_data (fs_inodes F' j) = in_data (fs_inodes F i)"
      "\<And>q. \<forall>e \<in> fst ` set cas. q \<noteq> dir @ entry_names e \<Longrightarrow> node_at F' q = node_at F1 q" by blast
  have "node_at F' q = node_at F q" if "dir \<parallel> q" for q
  proof -
    have "node_at F' q = node_at F1 q" by (rule l(4)) (use that in \<open>auto simp: parallel_def\<close>)
    with package_dirs_beside [OF made that] show ?thesis by simp
  qed
  moreover have "node_at F q = Some nd \<or> nd = Dir \<and> (prefix q dir \<or> prefix dir q)
      \<or> (\<exists>e \<in> fst ` set cas. \<exists>i. q = dir @ entry_names e \<and> nd = File i)" if q: "node_at F' q = Some nd" for q nd
  proof (cases "\<exists>e \<in> fst ` set cas. q = dir @ entry_names e")
    case True
    with l(3) q show ?thesis by fastforce
  next
    case False
    with l(4) q have "node_at F1 q = Some nd" by auto
    moreover have "node_at F1 q = node_at F q \<or> node_at F1 q = Some Dir"
      using made unfolding package_dirs_made_def by blast
    moreover have "node_at F1 q = node_at F q \<or> prefix q dir \<or> prefix dir q"
      using package_dirs_beside [OF made, of q] by (auto simp: parallel_def)
    ultimately show ?thesis by auto
  qed
  ultimately show ?thesis using l(1-3) by blast
qed

text \<open>The links of a package, made where only its own directory is.\<close>

lemma layout_run:
  assumes ok: "tree_ok F" and nf: "\<forall>c p. fs_fault F c p = None" and deps: "plain_dependencies X dependencies"
    and free: "\<And>n. n \<in> fst ` set dependencies \<Longrightarrow> plain F (d @ pkg_dirs n) \<and> node_at F (d @ pkg_dirs n) = None"
    and run: "(create_symlink_layout X dependencies (abs_path vs) (abs_path d) :: (fs, 'e failure, unit) action) F = (F', Inr ())"
  shows "tree_ok F' \<and> keeps F F'
    \<and> (\<forall>(n, spec) \<in> set dependencies. node_at F' (d @ pkg_dirs n)
         = Some (Symlink (abs_path (package_place vs (dependency_store_name X n spec) n))))
    \<and> (\<forall>q nd. node_at F' q = Some nd \<longrightarrow> node_at F q = Some nd \<or> (\<exists>n \<in> fst ` set dependencies. q = d @ pkg_dirs n)
         \<or> nd = Dir \<and> (prefix q d \<or> prefix d q))"
proof -
  let ?links = "dependency_links X vs dependencies"
  have mem: "(ns, t) \<in> set ?links \<longleftrightarrow> (\<exists>n spec. (n, spec) \<in> set dependencies \<and> ns = pkg_dirs n
      \<and> t = abs_path (package_place vs (dependency_store_name X n spec) n))" for ns t
    by (force simp: dependency_links_def)
  have fst_mem: "fst ` set ?links = (\<lambda>n. pkg_dirs n) ` fst ` set dependencies"
    by (force simp: dependency_links_def)
  have "\<forall>(ns, t) \<in> set ?links. ns \<noteq> [] \<and> plain F (d @ ns) \<and> node_at F (d @ ns) = None"
    using free by (force simp: mem)
  from link_all [OF run [unfolded symlink_layout_links [OF deps]] ok nf this dependency_links_parallel [OF deps]]
  have l: "tree_ok F'" "keeps F F'" "\<And>ns t. (ns, t) \<in> set ?links \<Longrightarrow> node_at F' (d @ ns) = Some (Symlink t)"
    "\<And>q. \<forall>ns \<in> fst ` set ?links. q \<noteq> d @ ns \<Longrightarrow> node_at F' q = node_at F q
       \<or> (\<exists>ns \<in> fst ` set ?links. strict_prefix q (d @ ns)) \<and> node_at F q = None \<and> node_at F' q = Some Dir" by blast+
  have "node_at F q = Some nd \<or> (\<exists>n \<in> fst ` set dependencies. q = d @ pkg_dirs n) \<or> nd = Dir \<and> (prefix q d \<or> prefix d q)"
    if q: "node_at F' q = Some nd" for q nd
  proof (cases "\<exists>n \<in> fst ` set dependencies. q = d @ pkg_dirs n")
    case False
    then have "\<forall>ns \<in> fst ` set ?links. q \<noteq> d @ ns" unfolding fst_mem by blast
    from l(4) [OF this] q show ?thesis
    proof (elim disjE conjE bexE)
      fix ns assume "strict_prefix q (d @ ns)" "node_at F' q = Some Dir"
      then have "prefix q d \<or> prefix d q" by (metis prefix_same_cases prefixI strict_prefix_def)
      with q \<open>node_at F' q = Some Dir\<close> show ?thesis by simp
    qed simp
  qed simp
  moreover have "\<forall>(n, spec) \<in> set dependencies. node_at F' (d @ pkg_dirs n)
         = Some (Symlink (abs_path (package_place vs (dependency_store_name X n spec) n)))"
    using l(3) mem by blast
  ultimately show ?thesis using l(1,2) by blast
qed

text \<open>The three steps: the directory, the import, the links.\<close>

lemma virtual_dir_steps:
  assumes store: "store = to_virtual_store_name X (dp_package_specifier dp)" "file_name_ok store"
    and own: "own = ns_name (dp_package_specifier dp)" "pkg_name_plain own"
    and run: "create_virtual_dir X R (abs_path vs) cas m dp sn F = (F', Inr ())"
  shows "\<exists>F1 F2. fs_create_dir_all F (abs_path (vs @ [store, ''node_modules''])) = Inr F1
    \<and> create_cas_files R m (abs_path (package_place vs store own)) cas F1 = (F2, Inr ())
    \<and> (create_symlink_layout X (iter_opt (sn_dependencies sn)) (abs_path vs) (abs_path (vs @ [store, ''node_modules'']))
         :: (fs, create_virtual_dir_error failure, unit) action) F2 = (F', Inr ())"
proof -
  let ?d = "vs @ [store, ''node_modules'']"
  have dir: "join_str (join_str (abs_path vs) store) ''node_modules'' = abs_path ?d"
    by (simp only: join_file_name [OF store(2)] join_file_name [OF file_name_node_modules]) simp
  have save: "join_str (abs_path ?d) (pkg_name_to_string own) = abs_path (package_place vs store own)"
    using join_pkg_name [OF own(2), of ?d] by (simp add: package_place_def)
  show ?thesis
    using run unfolding create_virtual_dir_def Let_def store(1) [symmetric] own(1) [symmetric] dir save
    by (cases "sn_dependencies sn")
       (auto simp: act_bind_Inr act_map_err_eq_Inr create_dir_all_Inr iter_opt_def create_symlink_layout_def act_return_eq)
qed

lemma new_virtual_dir:
  assumes ok: "tree_ok F" and vs: "plain F vs" and new: "node_at F (vs @ [store]) = None"
    and run: "fs_create_dir_all F (abs_path (vs @ [store, ''node_modules''])) = Inr F1"
  shows "tree_ok F1 \<and> keeps F F1
    \<and> (\<forall>q nd. node_at F1 q = Some nd \<longrightarrow> node_at F q = Some nd \<or> nd = Dir \<and> prefix q (vs @ [store, ''node_modules'']))
    \<and> (\<forall>n. node_at F1 (vs @ [store, ''node_modules''] @ pkg_dirs n) = None
         \<and> plain F1 (vs @ [store, ''node_modules''] @ pkg_dirs n))"
proof -
  let ?d = "vs @ [store, ''node_modules'']"
  have "plain F (vs @ [store])" using vs new by (simp add: plain_snoc)
  note absent = absent_below [OF ok this new]
  have "plain F ?d" using absent(2) [of "[''node_modules'']"] by simp
  from create_dir_all_plain [OF ok this run] have F1: "tree_ok F1" "adds_dirs ?d F F1" by blast+
  have "node_at F1 (?d @ pkg_dirs n) = None \<and> plain F1 (?d @ pkg_dirs n)" for n
  proof -
    have "node_at F1 (?d @ pkg_dirs n) = node_at F (?d @ pkg_dirs n)"
      using F1(2) [unfolded adds_dirs_def, rule_format, of "?d @ pkg_dirs n"]
      by (cases "pkg_dirs n") (auto simp: pkg_dirs_def split: option.splits)
    moreover have "plain F1 (?d @ pkg_dirs n)" using adds_dirs_plain [OF F1(2) absent(2) [of "''node_modules'' # pkg_dirs n"]] by simp
    ultimately show ?thesis using absent(1) [of "''node_modules'' # pkg_dirs n"] by simp
  qed
  moreover have "node_at F q = Some nd \<or> nd = Dir \<and> prefix q ?d" if "node_at F1 q = Some nd" for q nd
    using F1(2) [unfolded adds_dirs_def, rule_format, of q] that by auto
  ultimately show ?thesis using F1(1) keeps_create_dir_all [OF run] by simp
qed

text \<open>A place beside the imported package is as it was, and no link is new on the way to it.\<close>

lemma import_beside_plain:
  assumes "\<And>q nd. node_at F' q = Some nd \<Longrightarrow> node_at F q = Some nd \<or> nd = Dir \<or> (\<exists>i. nd = File i)" and "plain F q"
  shows "plain F' q"
  unfolding plain_def
proof (intro allI notI)
  fix k t assume "node_at F' (take k q) = Some (Symlink t)"
  from assms(1) [OF this] assms(2) show False unfolding plain_def by blast
qed

text \<open>The entries of a package are in a directory, with the content of the files they come from.\<close>

definition copied :: "names \<Rightarrow> cas_paths \<Rightarrow> fs \<Rightarrow> fs \<Rightarrow> bool" where
  "copied dir cas F F' \<longleftrightarrow>
     (\<forall>(e, p) \<in> set cas. \<exists>i j. node_at F (path_names p) = Some (File i)
        \<and> node_at F' (dir @ entry_names e) = Some (File j) \<and> in_data (fs_inodes F' j) = in_data (fs_inodes F i))"

lemma copied_carry:
  assumes ok: "tree_ok F" "tree_ok F2" and k: "keeps F F1" "keeps F2 F'" and imp: "importable F cas"
    and copied: "copied dir cas F1 F2"
  shows "copied dir cas F F'"
  unfolding copied_def
proof clarify
  fix e p assume e: "(e, p) \<in> set cas"
  with copied obtain i j where ij: "node_at F1 (path_names p) = Some (File i)"
    "node_at F2 (dir @ entry_names e) = Some (File j)" "in_data (fs_inodes F2 j) = in_data (fs_inodes F1 i)"
    unfolding copied_def by blast
  from importableD(3) [OF imp e] obtain i' where i': "node_at F (path_names p) = Some (File i')" ..
  with keepsD(3) [OF k(1) i'] ij(1) have "i' = i" by simp
  moreover have "fs_inodes F1 i' = fs_inodes F i'" by (rule keepsD(4) [OF k(1) tree_okD(2) [OF ok(1) i']])
  moreover have "fs_inodes F' j = fs_inodes F2 j" by (rule keepsD(4) [OF k(2) tree_okD(2) [OF ok(2) ij(2)]])
  ultimately show "\<exists>i j. node_at F (path_names p) = Some (File i) \<and> node_at F' (dir @ entry_names e) = Some (File j)
      \<and> in_data (fs_inodes F' j) = in_data (fs_inodes F i)"
    using i' ij keepsD(3) [OF k(2) ij(2)] by auto
qed

text \<open>The first two steps: only files and directories are new, and the places of the links are free.\<close>

lemma package_imported:
  assumes R: "reflink_ok R" and ok: "tree_ok F" and nf: "\<forall>c p. fs_fault F c p = None"
    and own: "pkg_name_plain own" and vs: "plain F vs" and new: "node_at F (vs @ [store]) = None" and imp: "importable F cas"
    and r1: "fs_create_dir_all F (abs_path (vs @ [store, ''node_modules''])) = Inr F1"
    and r2: "create_cas_files R m (abs_path (package_place vs store own)) cas F1 = (F2, Inr ())"
  shows "tree_ok F2 \<and> keeps F F2 \<and> copied (package_place vs store own) cas F F2
    \<and> (\<forall>q nd. node_at F2 q = Some nd \<longrightarrow> node_at F q = Some nd
         \<or> nd = Dir \<and> (strict_prefix q (vs @ [store]) \<or> prefix (vs @ [store]) q)
         \<or> (\<exists>e \<in> fst ` set cas. q = package_place vs store own @ entry_names e))
    \<and> (\<forall>n. pkg_name_plain n \<longrightarrow> n \<noteq> own \<longrightarrow> plain F2 (package_place vs store n)
         \<and> node_at F2 (package_place vs store n) = None)"
proof -
  let ?d = "vs @ [store, ''node_modules'']" and ?save = "package_place vs store own"
  from new_virtual_dir [OF ok vs new r1] have F1: "tree_ok F1" "keeps F F1"
    "\<And>q nd. node_at F1 q = Some nd \<Longrightarrow> node_at F q = Some nd \<or> nd = Dir \<and> prefix q ?d"
    "\<And>n. node_at F1 (package_place vs store n) = None" "\<And>n. plain F1 (package_place vs store n)"
    unfolding package_place_def by blast+
  have nf1: "fs_fault F1 c p = None" for c p using nf keepsD(2) [OF F1(2)] by simp
  from import_beside [OF R F1(1) F1(5,4) nf1 importable_keeps [OF imp F1(2)] r2]
  have F2: "tree_ok F2" "keeps F1 F2" "copied ?save cas F1 F2" "\<And>q. ?save \<parallel> q \<Longrightarrow> node_at F2 q = node_at F1 q"
    "\<And>q nd. node_at F2 q = Some nd \<Longrightarrow> node_at F1 q = Some nd \<or> nd = Dir \<and> (prefix q ?save \<or> prefix ?save q)
         \<or> (\<exists>e \<in> fst ` set cas. \<exists>i. q = ?save @ entry_names e \<and> nd = File i)"
    unfolding copied_def by blast+
  have free: "node_at F2 (package_place vs store n) = None" if "pkg_name_plain n" "n \<noteq> own" for n
  proof -
    have "?save \<parallel> package_place vs store n"
      unfolding package_place_def using pkg_dirs_parallel [OF own that(1)] that(2) by (auto simp: parallel_def)
    from F2(4) [OF this] F1(4) show ?thesis by simp
  qed
  have "plain F2 (package_place vs store n)" for n
    by (rule import_beside_plain [OF _ F1(5)]) (use F2(5) in blast)
  moreover have near: "strict_prefix q (vs @ [store]) \<or> prefix (vs @ [store]) q"
    if "prefix q ?save \<or> prefix ?save q \<or> prefix q ?d" for q
    using that prefix_same_cases [of "vs @ [store]" ?save q] prefix_same_cases [of "vs @ [store]" ?d q]
    by (auto simp: package_place_def strict_prefix_def intro: prefix_order.trans [of "vs @ [store]" "vs @ [store] @ _"])
  have "node_at F q = Some nd \<or> nd = Dir \<and> (strict_prefix q (vs @ [store]) \<or> prefix (vs @ [store]) q)
         \<or> (\<exists>e \<in> fst ` set cas. q = ?save @ entry_names e)" if q: "node_at F2 q = Some nd" for q nd
    using F2(5) [OF q] F1(3) [of q nd] near [of q] by blast
  moreover have "copied ?save cas F F2" by (rule copied_carry [OF ok F2(1) F1(2) keeping.refl imp F2(3)])
  ultimately show ?thesis using F2(1) keeping.trans [OF F1(2) F2(2)] free by blast
qed

text \<open>All steps.\<close>

lemma create_virtual_dir_run:
  assumes R: "reflink_ok R" and ok: "tree_ok F" and nf: "\<forall>c p. fs_fault F c p = None"
    and store: "store = to_virtual_store_name X (dp_package_specifier dp)" "file_name_ok store"
    and own: "own = ns_name (dp_package_specifier dp)" "pkg_name_plain own"
    and vs: "plain F vs" and new: "node_at F (vs @ [store]) = None" and imp: "importable F cas"
    and deps: "plain_dependencies X (iter_opt (sn_dependencies sn))" "own \<notin> fst ` set (iter_opt (sn_dependencies sn))"
    and run: "create_virtual_dir X R (abs_path vs) cas m dp sn F = (F', Inr ())"
  shows "tree_ok F' \<and> keeps F F' \<and> copied (package_place vs store own) cas F F'
    \<and> (\<forall>(n, spec) \<in> set (iter_opt (sn_dependencies sn)). node_at F' (package_place vs store n)
         = Some (Symlink (abs_path (package_place vs (dependency_store_name X n spec) n))))
    \<and> (\<forall>q nd. node_at F' q = Some nd \<longrightarrow> node_at F q = Some nd
         \<or> nd = Dir \<and> (strict_prefix q (vs @ [store]) \<or> prefix (vs @ [store]) q)
         \<or> (\<exists>e \<in> fst ` set cas. q = package_place vs store own @ entry_names e)
         \<or> (\<exists>n \<in> fst ` set (iter_opt (sn_dependencies sn)). q = package_place vs store n))"
proof -
  let ?d = "vs @ [store, ''node_modules'']" and ?dependencies = "iter_opt (sn_dependencies sn)"
  let ?save = "package_place vs store own"
  from virtual_dir_steps [OF store own run] obtain F1 F2 where r1: "fs_create_dir_all F (abs_path ?d) = Inr F1"
    and r2: "create_cas_files R m (abs_path ?save) cas F1 = (F2, Inr ())"
    and r3: "(create_symlink_layout X ?dependencies (abs_path vs) (abs_path ?d) :: (fs, create_virtual_dir_error failure, unit) action) F2 = (F', Inr ())"
    by blast
  from package_imported [OF R ok nf own(2) vs new imp r1 r2]
  have F2: "tree_ok F2" "keeps F F2" "copied ?save cas F F2"
    "\<And>q nd. node_at F2 q = Some nd \<Longrightarrow> node_at F q = Some nd
         \<or> nd = Dir \<and> (strict_prefix q (vs @ [store]) \<or> prefix (vs @ [store]) q)
         \<or> (\<exists>e \<in> fst ` set cas. q = ?save @ entry_names e)"
    "\<And>n. pkg_name_plain n \<Longrightarrow> n \<noteq> own \<Longrightarrow> plain F2 (package_place vs store n) \<and> node_at F2 (package_place vs store n) = None"
    by blast+
  have nf2: "\<forall>c p. fs_fault F2 c p = None" using nf keepsD(2) [OF F2(2)] by simp
  have free: "plain F2 (package_place vs store n) \<and> node_at F2 (package_place vs store n) = None" if "n \<in> fst ` set ?dependencies" for n
    by (rule F2(5)) (use deps that in \<open>auto simp: plain_dependencies_def\<close>)
  have place: "?d @ pkg_dirs n = package_place vs store n" for n by (simp add: package_place_def)
  from layout_run [OF F2(1) nf2 deps(1) _ r3, unfolded place, OF free]
  have F': "tree_ok F'" "keeps F2 F'"
    "\<forall>(n, spec) \<in> set ?dependencies. node_at F' (package_place vs store n)
         = Some (Symlink (abs_path (package_place vs (dependency_store_name X n spec) n)))"
    "\<And>q nd. node_at F' q = Some nd \<Longrightarrow> node_at F2 q = Some nd \<or> (\<exists>n \<in> fst ` set ?dependencies. q = package_place vs store n)
         \<or> nd = Dir \<and> (prefix q ?d \<or> prefix ?d q)" by blast+
  have near: "strict_prefix q (vs @ [store]) \<or> prefix (vs @ [store]) q" if "prefix q ?d \<or> prefix ?d q" for q
    using that prefix_same_cases [of "vs @ [store]" ?d q]
    by (auto simp: strict_prefix_def intro: prefix_order.trans [of "vs @ [store]" "vs @ [store] @ _"])
  have "copied ?save cas F F'" by (rule copied_carry [OF ok F2(1) keeping.refl F'(2) imp F2(3)])
  moreover have "node_at F q = Some nd \<or> nd = Dir \<and> (strict_prefix q (vs @ [store]) \<or> prefix (vs @ [store]) q)
      \<or> (\<exists>e \<in> fst ` set cas. q = ?save @ entry_names e)
      \<or> (\<exists>n \<in> fst ` set ?dependencies. q = package_place vs store n)" if q: "node_at F' q = Some nd" for q nd
    using F'(4) [OF q] F2(4) [of q nd] near [of q] by blast
  ultimately show ?thesis using F'(1,3) keeping.trans [OF F2(2) F'(2)] by blast
qed

lemma create_virtual_dir_below:
  assumes "keeps F F'" and "\<And>q nd. node_at F' q = Some nd \<Longrightarrow> node_at F q = Some nd
         \<or> nd = Dir \<and> (strict_prefix q (vs @ [store]) \<or> prefix (vs @ [store]) q)
         \<or> (\<exists>e \<in> E. q = package_place vs store own @ entry_names e)
         \<or> (\<exists>n \<in> N. q = package_place vs store n)"
  shows "only_below {vs @ [store]} F F'"
  using assms by (fastforce simp: only_below_def package_place_def)


section \<open>Examples\<close>

text \<open>The package \<^verbatim>\<open>p\<close> of the example with one file, which depends on \<^verbatim>\<open>o\<close>, or on another version of \<^verbatim>\<open>p\<close>.\<close>

abbreviation make_example :: "ver3 package_snapshot \<Rightarrow> fs \<times> (create_virtual_dir_error failure + unit)" where
  "make_example sn \<equiv>
     create_virtual_dir lib3 no_reflink (abs_path [''vs'']) package_cas Auto (locked_path ''p'') sn package_fs"

definition newer_self :: "ver3 package_snapshot" where
  "newer_self = (locked_snapshot [])\<lparr>sn_dependencies := Some [(\<lparr> pn_scope = None, pn_bare = ''p'' \<rparr>,
     PkgVerPeer \<lparr> vp_version = (2, 0, 0), vp_peer = [] \<rparr>)]\<rparr>"

lemma make_example_runs:
  "snd (make_example (locked_snapshot [''o''])) = Inr ()"
  "to_virtual_store_name lib3 (dp_package_specifier (locked_path ''p'')) = ''p@1.0.0''"
  "dependency_store_name lib3 \<lparr> pn_scope = None, pn_bare = ''o'' \<rparr> (PkgVerPeer \<lparr> vp_version = (1, 0, 0), vp_peer = [] \<rparr>) = ''o@1.0.0''"
  "iter_opt (sn_dependencies (locked_snapshot [''o''])) =
     [(\<lparr> pn_scope = None, pn_bare = ''o'' \<rparr>, PkgVerPeer \<lparr> vp_version = (1, 0, 0), vp_peer = [] \<rparr>)]"
  by code_simp+

text \<open>A package that depends on another version of itself is replaced by a link to that one.\<close>

lemma self_dependency_replaces_package:
  "(case make_example newer_self of (F', r) \<Rightarrow> (node_at F' [''vs'', ''p@1.0.0'', ''node_modules'', ''p''], r))
     = (Some (Symlink (abs_path [''vs'', ''p@2.0.0'', ''node_modules'', ''p''])), Inr ())"
  by code_simp


end
