(* ===== verification/Store_Sound.thy ===== *)
theory Store_Sound
  imports Virtual_Dirs
begin

text \<open>
  What an installation may rely on in the store: the indexes and the memory of the process name
  files that can be imported, and obtaining a tarball keeps it so, whether it comes from the
  memory, from the store or from the network.
\<close>

section \<open>Files of the store that can be imported\<close>

text \<open>Paths of a package: entries that can be imported together, from content addresses that are files.\<close>

definition sound_files :: "names \<Rightarrow> fs \<Rightarrow> cas_paths \<Rightarrow> bool" where
  "sound_files r F cas \<longleftrightarrow>
     importable F cas \<and> (\<forall>(e, p) \<in> set cas. \<exists>h ex. 2 \<le> length h \<and> p = abs_path (cas_names r h ex))"

lemma sound_files_keeps: "sound_files r F cas \<Longrightarrow> keeps F F' \<Longrightarrow> sound_files r F' cas"
  by (auto simp: sound_files_def importable_keeps)

text \<open>Every content address that is there is a file.\<close>

definition cas_files :: "names \<Rightarrow> fs \<Rightarrow> bool" where
  "cas_files r F \<longleftrightarrow> (\<forall>h ex nd. 2 \<le> length h \<longrightarrow> node_at F (cas_names r h ex) = Some nd \<longrightarrow> (\<exists>i. nd = File i))"

lemma cas_not_above_cas: "\<not> strict_prefix (cas_names r h ex) (cas_names r h' ex')"
  by (auto simp: cas_names_def strict_prefix_def prefix_def)

lemma cas_not_above_index: "\<not> strict_prefix (cas_names r h ex) (index_names r hex)"
  by (auto simp: cas_names_def index_names_def strict_prefix_def prefix_def)

lemma index_not_above_index: "\<not> strict_prefix (index_names r hex) (index_names r hex')"
  by (auto simp: index_names_def strict_prefix_def prefix_def)

lemma cas_files_only_cas:
  assumes "cas_files r F" and "only_cas r F F'"
  shows "cas_files r F'"
  unfolding cas_files_def
proof (intro allI impI)
  fix h ex nd assume "2 \<le> length (h :: string)" and n: "node_at F' (cas_names r h ex) = Some nd"
  then have "node_at F' (cas_names r h ex) = node_at F (cas_names r h ex) \<or> (\<exists>i. nd = File i)"
    using assms(2) unfolding only_cas_def new_on_way_def by (metis cas_not_above_cas option.inject)
  with assms(1) \<open>2 \<le> length h\<close> n show "\<exists>i. nd = File i" unfolding cas_files_def by metis
qed

lemma cas_files_index_added:
  assumes "cas_files r F" and "file_added (index_names r hex) content F F'" and "hex_ok hex"
  shows "cas_files r F'"
  unfolding cas_files_def
proof (intro allI impI)
  fix h ex nd assume "2 \<le> length (h :: string)" and n: "node_at F' (cas_names r h ex) = Some nd"
  with index_not_cas [OF assms(3)] have "cas_names r h ex \<noteq> index_names r hex" by metis
  with assms(2) cas_not_above_index have "node_at F' (cas_names r h ex) = node_at F (cas_names r h ex)"
    unfolding file_added_def by metis
  with assms(1) \<open>2 \<le> length h\<close> n show "\<exists>i. nd = File i" unfolding cas_files_def by metis
qed

section \<open>Tarballs whose entries can be imported\<close>

definition entry_paths :: "(io_kind + tar_entry) list \<Rightarrow> string set" where
  "entry_paths rs = {clean_entry_path ep | entry ep. Inr entry \<in> set rs \<and> \<not> te_is_dir entry \<and> te_path entry = Inr ep}"

definition clean_names :: "string set \<Rightarrow> bool" where
  "clean_names A \<longleftrightarrow>
     (\<forall>a \<in> A. clean_entry a) \<and> (\<forall>a \<in> A. \<forall>b \<in> A. prefix (entry_names a) (entry_names b) \<longrightarrow> a = b)"

definition clean_tarball :: "tarball_lib \<Rightarrow> string \<Rightarrow> bool" where
  "clean_tarball T response \<longleftrightarrow>
     (\<forall>archive rs. decode_gzip T None response = Inr archive \<longrightarrow> archive_entries T archive = Inr rs
        \<longrightarrow> clean_names (entry_paths rs))"

lemma path_names_abs [simp]: "path_names (abs_path ns) = ns"
  by (induction ns) (auto simp: path_names_def abs_path_def map_filter_simps)

lemma unpacked_sound:
  assumes L: "digest_lib L" and files: "cas_files r F" and clean: "clean_names (entry_paths rs)"
    and dist: "distinct (map fst cas)" and st: "\<forall>(nm, p) \<in> set cas. \<exists>h m. stored L r F rs nm p h m"
  shows "sound_files r F cas"
proof -
  have entry: "nm \<in> entry_paths rs \<and> (\<exists>h ex. 2 \<le> length h \<and> p = abs_path (cas_names r h ex)
      \<and> (\<exists>i. node_at F (cas_names r h ex) = Some (File i)))" if "(nm, p) \<in> set cas" for nm p
  proof -
    from st that obtain h m where s: "stored L r F rs nm p h m" by blast
    then have "nm \<in> entry_paths rs" "2 \<le> length h" "p = abs_path (cas_names r h (is_all_exec m))"
      "node_at F (cas_names r h (is_all_exec m)) \<noteq> None"
      using L by (auto simp: stored_def entry_paths_def digest_lib_def)
    with files show ?thesis unfolding cas_files_def by blast
  qed
  have names: "fst ` set cas \<subseteq> entry_paths rs" using entry by auto
  have "inj_on entry_names (fst ` set cas)"
    using clean names unfolding clean_names_def inj_on_def by (metis prefix_order.refl subsetD)
  moreover have "distinct (map entry_names (map fst cas))"
    by (rule distinct_map [THEN iffD2]) (use dist calculation in simp)
  then have "distinct (map (\<lambda>(e, _). entry_names e) cas)" by (simp add: comp_def split_def)
  moreover have "\<not> strict_prefix (entry_names a) (entry_names b)" if "a \<in> fst ` set cas" "b \<in> fst ` set cas" for a b
  proof
    assume p: "strict_prefix (entry_names a) (entry_names b)"
    have "a \<in> entry_paths rs" "b \<in> entry_paths rs" using names that by blast+
    with clean p have "a = b" by (auto simp: clean_names_def strict_prefix_def)
    with p show False by simp
  qed
  moreover have "clean_entry nm \<and> p = abs_path (path_names p) \<and> (\<exists>i. node_at F (path_names p) = Some (File i))"
    if "(nm, p) \<in> set cas" for nm p
    using entry [OF that] clean unfolding clean_names_def by auto
  ultimately have "importable F cas" unfolding importable_def by blast
  with entry show ?thesis unfolding sound_files_def by blast
qed

section \<open>Loading from the store\<close>

abbreviation index_of :: "store_lib \<Rightarrow> names \<Rightarrow> integrity \<Rightarrow> names" where
  "index_of L r i \<equiv> index_names r (snd (integrity_to_hex L i))"

text \<open>What is loaded depends on the node of the index and on the content of its file only.\<close>

lemma read_index_path:
  assumes "sd_root S = abs_path r" and "hex_ok (snd (integrity_to_hex L i))"
  shows "index_file_path L S i = (Inr p :: read_index_file_error failure + path) \<Longrightarrow> p = abs_path (index_of L r i)"
  by (rule index_file_path_names [OF assms])

lemma read_index_Some:
  "read_index_file L S F i = Inr (Some ix) \<longleftrightarrow>
     (\<exists>p content. index_file_path L S i = (Inr p :: read_index_file_error failure + path)
        \<and> fs_read_to_string F p = Inr content \<and> index_from_str L content = Inr ix)"
proof (cases "index_file_path L S i :: read_index_file_error failure + path")
  case (Inr p)
  then show ?thesis by (cases "fs_read_to_string F p") (auto simp: read_index_file_def result_simps)
qed (simp add: read_index_file_def)

lemma read_index_None:
  "read_index_file L S F i = Inr None \<longleftrightarrow>
     (\<exists>p. index_file_path L S i = (Inr p :: read_index_file_error failure + path) \<and> fs_read_to_string F p = Inl NotFound)"
proof (cases "index_file_path L S i :: read_index_file_error failure + path")
  case (Inr p)
  then show ?thesis by (cases "fs_read_to_string F p") (auto simp: read_index_file_def result_simps)
qed (simp add: read_index_file_def)

lemma load_Inr:
  "load_from_store L S i F = Inr None \<Longrightarrow> read_index_file L S F i = Inr None"
  "load_from_store L S i F = Inr (Some cas) \<Longrightarrow> \<exists>ix. read_index_file L S F i = Inr (Some ix)"
  by (cases "read_index_file L S F i"; auto simp: load_from_store_def result_simps split: option.splits)+

lemma load_index_file:
  assumes S: "sd_root S = abs_path r" and hex: "hex_ok (snd (integrity_to_hex L i))"
    and ok: "tree_ok F" and pl: "plain F (index_of L r i)" and load: "load_from_store L S i F = Inr (Some cas)"
  shows "\<exists>k. node_at F (index_of L r i) = Some (File k)"
proof -
  from load_Inr(2) [OF load] obtain p content
    where p: "index_file_path L S i = (Inr p :: read_index_file_error failure + path)"
    and c: "fs_read_to_string F p = Inr content" by (auto simp: read_index_Some)
  from c obtain q k where "lookup F True p = Found q (File k)"
    by (auto simp: fs_read_to_string_def fs_read_def guarded_Inr result_simps split: resolved.splits node.splits)
  with read_index_path [OF S hex p] lookup_Found_iff [OF ok pl] show ?thesis by auto
qed

lemma load_kept:
  assumes S: "sd_root S = abs_path r" and hex: "hex_ok (snd (integrity_to_hex L i))"
    and k: "keeps F F'" "tree_ok F" "tree_ok F'" and n: "node_at F (index_of L r i) = Some (File k)"
  shows "load_from_store L S i F' = load_from_store L S i F"
proof -
  have "read_index_file L S F' i = read_index_file L S F i"
  proof (cases "index_file_path L S i :: read_index_file_error failure + path")
    case (Inr p)
    from read_index_path [OF S hex Inr] keeps_read [OF k n] Inr show ?thesis
      by (simp add: read_index_file_def fs_read_to_string_def)
  qed (simp add: read_index_file_def)
  then show ?thesis by (simp add: load_from_store_def)
qed

lemma load_nothing:
  assumes S: "sd_root S = abs_path r" and hex: "hex_ok (snd (integrity_to_hex L i))"
    and ok: "tree_ok F" and pl: "plain F (index_of L r i)" and nf: "\<forall>c p. fs_fault F c p = None"
    and load: "load_from_store L S i F = Inr None"
  shows "node_at F (index_of L r i) = None"
proof (rule ccontr)
  let ?ns = "index_of L r i"
  assume "node_at F ?ns \<noteq> None"
  then obtain nd where nd: "node_at F ?ns = Some nd" by auto
  then have "lookup F True (abs_path ?ns) = Found ?ns nd" by (simp add: lookup_Found_iff ok pl)
  then have "fs_read_to_string F (abs_path ?ns) \<noteq> Inl NotFound"
    using nf by (cases nd) (auto simp: fs_read_to_string_def fs_read_def guarded_def)
  with load_Inr(1) [OF load] read_index_path [OF S hex] show False by (auto simp: read_index_None)
qed

lemma load_same_index:
  assumes S: "sd_root S = abs_path r" and hex: "hex_ok (snd (integrity_to_hex L i))" "hex_ok (snd (integrity_to_hex L j))"
    and eq: "index_of L r j = index_of L r i"
    and load: "load_from_store L S i F = Inr (Some cas)" "load_from_store L S j F = Inr (Some cas')"
  shows "cas' = cas"
proof -
  from load_Inr(2) [OF load(1)] load_Inr(2) [OF load(2)] obtain p q
    where "index_file_path L S i = (Inr p :: read_index_file_error failure + path)"
      and "index_file_path L S j = (Inr q :: read_index_file_error failure + path)"
    by (auto simp: read_index_Some)
  with read_index_path [OF S hex(1)] read_index_path [OF S hex(2)] eq
  have "read_index_file L S F j = read_index_file L S F i" by (simp add: read_index_file_def)
  then have "load_from_store L S j F = load_from_store L S i F" by (simp add: load_from_store_def)
  with load show ?thesis by simp
qed

section \<open>The store during an installation\<close>

text \<open>The libraries do what they promise, and the tarballs that have one of the integrities are clean.\<close>

definition store_setup :: "store_lib \<Rightarrow> tarball_lib \<Rightarrow> store_dir \<Rightarrow> names \<Rightarrow> integrity set \<Rightarrow> bool" where
  "store_setup L T S r J \<longleftrightarrow>
     digest_lib L \<and> codec_lib L \<and> sd_root S = abs_path r
     \<and> (\<forall>i \<in> J. hex_ok (snd (integrity_to_hex L i))
          \<and> (\<forall>response alg. integrity_check L i response = Inr alg \<longrightarrow> clean_tarball T response))"

lemma store_setupD:
  assumes "store_setup L T S r J"
  shows "digest_lib L" "codec_lib L" "sd_root S = abs_path r"
    "i \<in> J \<Longrightarrow> hex_ok (snd (integrity_to_hex L i))"
    "i \<in> J \<Longrightarrow> integrity_check L i response = Inr alg \<Longrightarrow> clean_tarball T response"
  using assms by (auto simp: store_setup_def)

text \<open>What the indexes of the store name can be imported.\<close>

definition store_sound :: "store_lib \<Rightarrow> store_dir \<Rightarrow> names \<Rightarrow> integrity set \<Rightarrow> fs \<Rightarrow> bool" where
  "store_sound L S r J F \<longleftrightarrow>
     store_inv L r F \<and> cas_files r F \<and> (\<forall>c p. fs_fault F c p = None)
     \<and> (\<forall>i \<in> J. plain F (index_of L r i)
          \<and> (\<forall>cas. load_from_store L S i F = Inr (Some cas) \<longrightarrow> sound_files r F cas))"

lemma store_soundD:
  assumes "store_sound L S r J F"
  shows "tree_ok F" "store_inv L r F" "cas_files r F" "fs_fault F c p = None"
    "i \<in> J \<Longrightarrow> plain F (index_of L r i)"
    "i \<in> J \<Longrightarrow> load_from_store L S i F = Inr (Some cas) \<Longrightarrow> sound_files r F cas"
  using assms by (auto simp: store_sound_def store_inv_def)

text \<open>An index that stayed as it was names what it named.\<close>

lemma sound_index_kept:
  assumes libs: "store_setup L T S r J" and sound: "store_sound L S r J F" and i: "i \<in> J"
    and k: "keeps F F'" "tree_ok F'" "plain F' (index_of L r i)" "node_at F' (index_of L r i) = node_at F (index_of L r i)"
    and load: "load_from_store L S i F' = Inr (Some cas)"
  shows "sound_files r F' cas"
proof -
  note S = store_setupD(3,4) [OF libs] store_soundD(1) [OF sound]
  from load_index_file [OF S(1) S(2) [OF i] k(2,3) load] k(4) obtain n
    where "node_at F (index_of L r i) = Some (File n)" by auto
  from load_kept [OF S(1) S(2) [OF i] k(1) S(3) k(2) this] load have "load_from_store L S i F = Inr (Some cas)" by simp
  from sound_files_keeps [OF store_soundD(6) [OF sound i this] k(1)] show ?thesis .
qed

text \<open>Work beside the store leaves it as it is.\<close>

lemma parallel_below: "d \<parallel> r \<Longrightarrow> d \<parallel> r @ q"
  by (auto simp: parallel_def prefix_append) (metis prefix_append prefix_def prefix_same_cases)

lemma store_sound_beside:
  assumes libs: "store_setup L T S r J" and sound: "store_sound L S r J F"
    and below: "only_below D F F'" and par: "\<And>d. d \<in> D \<Longrightarrow> d \<parallel> r" and ok: "tree_ok F'"
  shows "store_sound L S r J F'"
proof -
  note k = only_below_keeps [OF below]
  have same: "node_at F' (r @ q) = node_at F (r @ q)" for q
    by (rule only_below_same [OF below parallel_below [OF par]])
  have pl: "plain F' (r @ q)" if "plain F (r @ q)" for q
    by (rule only_below_plain [OF below _ that]) (use parallel_below [OF par] in \<open>auto simp: parallel_def\<close>)
  have nodes: "node_at F' (cas_names r h ex) = node_at F (cas_names r h ex)"
    "node_at F' (index_names r hex) = node_at F (index_names r hex)" for h ex hex
    by (simp_all add: cas_names_def index_names_def same)
  have plains: "plain F (cas_names r h ex) \<Longrightarrow> plain F' (cas_names r h ex)"
    "plain F (index_names r hex) \<Longrightarrow> plain F' (index_names r hex)" for h ex hex
    by (simp_all add: cas_names_def index_names_def pl)
  have "cas_ok L r F'"
    using store_soundD(2) [OF sound] keepsD(4) [OF k tree_okD(2) [OF store_soundD(1) [OF sound]]]
    by (auto simp: store_inv_def cas_ok_def nodes)
  then have "store_inv L r F'"
    using store_soundD(2) [OF sound] ok plains(1) keepsD(2) [OF k] by (simp add: store_inv_def)
  moreover have "cas_files r F'" using store_soundD(3) [OF sound] by (simp add: cas_files_def nodes)
  moreover have "plain F' (index_of L r i)" if "i \<in> J" for i
    by (rule plains(2) [OF store_soundD(5) [OF sound that]])
  moreover from this have "sound_files r F' cas" if "i \<in> J" "load_from_store L S i F' = Inr (Some cas)" for i cas
    using sound_index_kept [OF libs sound that(1) k ok _ nodes(2) that(2)] that(1) by blast
  ultimately show ?thesis using store_soundD(4) [OF sound] keepsD(2) [OF k] by (simp add: store_sound_def)
qed

section \<open>A download\<close>

text \<open>Unpacking adds content addresses and one index, all of them below the store.\<close>

lemma unpack_adds:
  assumes libs: "store_setup L T S r J" and sound: "store_sound L S r J F" and i: "i \<in> J"
    and load: "load_from_store L S i F = Inr None"
    and run: "unpack_tarball L T S i None url response F = (F', Inr cas)"
  obtains F1 content where "only_cas r F F1" and "keeps F F1" and "file_added (index_of L r i) content F1 F'"
    and "keeps F1 F'" and "store_inv L r F'"
proof -
  note S = store_setupD [OF libs] and F = store_soundD [OF sound]
  note hex = S(4) [OF i]
  obtain alg archive rs F1 files where "integrity_check L i response = Inr alg"
    "decode_gzip T None response = Inr archive" "archive_entries T archive = Inr rs"
    "unpack_entries L T S rs ([], []) F = (F1, Inr (cas, files))"
    and v: "store_inv L r F1" "keeps F F1" "unpacked_ok L r F1 rs (cas, files)" "only_cas r F F1"
    and w: "write_index_file L S i \<lparr> ix_files = files \<rparr> F1 = (F', Inr ())"
    and pl1: "plain F1 (index_of L r i)"
    by (rule unpack_tarball_run [OF S(1,3) hex F(2) F(5) [OF i] run])
  have "node_at F (index_of L r i) = None"
    by (rule load_nothing [OF S(3) hex F(1) F(5) [OF i] _ load]) (simp add: F(4))
  then have "node_at F1 (index_of L r i) = None"
    using v(4) index_not_prefix_cas [OF hex] new_on_way_prefix unfolding only_cas_def by metis
  with write_index_run [OF S(3) hex S(1) v(1) pl1 w] v that show thesis by blast
qed

lemma unpack_below:
  assumes "only_cas r F F1" and "keeps F F1" and "file_added (index_names r hex) content F1 F'" and "keeps F1 F'"
  shows "only_below {r} F F'"
proof -
  have way: "strict_prefix q r \<or> prefix r q" if "prefix q (r @ ns)" for q ns
    using that prefix_same_cases [of q "r @ ns" r] by (auto simp: strict_prefix_def)
  have "node_at F q = Some nd \<or> nd = Dir \<and> strict_prefix q r \<or> prefix r q" if q: "node_at F' q = Some nd" for q nd
  proof -
    have "node_at F1 q = Some nd \<or> q = index_names r hex \<or> strict_prefix q (index_names r hex) \<and> nd = Dir"
      using assms(3) q unfolding file_added_def by auto
    moreover have "node_at F1 q = node_at F q \<or> (\<exists>h ex. new_on_way (cas_names r h ex) F1 q)"
      using assms(1) unfolding only_cas_def by blast
    ultimately show ?thesis
      using way [of q] by (auto simp: new_on_way_def index_names_def cas_names_def strict_prefix_def)
  qed
  with keeping.trans [OF assms(2,4)] show ?thesis by (simp add: only_below_def)
qed

lemma unpack_sound:
  assumes libs: "store_setup L T S r J" and sound: "store_sound L S r J F" and i: "i \<in> J"
    and load: "load_from_store L S i F = Inr None"
    and run: "unpack_tarball L T S i None url response F = (F', Inr cas)"
  shows "store_sound L S r J F' \<and> sound_files r F' cas \<and> only_below {r} F F'"
proof -
  note S = store_setupD [OF libs] and F = store_soundD [OF sound]
  note hex = S(4) [OF i]
  from unpack_adds [OF assms] obtain F1 content
    where v: "only_cas r F F1" "keeps F F1" "file_added (index_of L r i) content F1 F'" "keeps F1 F'"
      and inv: "store_inv L r F'" by metis
  note below = unpack_below [OF v] note k = only_below_keeps [OF below]
  have ok: "tree_ok F'" using inv by (simp add: store_inv_def)
  have files: "cas_files r F'" by (rule cas_files_index_added [OF cas_files_only_cas [OF F(3) v(1)] v(3) hex])
  have new: "node_at F (index_of L r i) = None"
    by (rule load_nothing [OF S(3) hex F(1) F(5) [OF i] _ load]) (simp add: F(4))
  from unpack_tarball_result [OF S(1,3) hex F(2) F(5) [OF i] run] obtain alg archive rs
    where u: "integrity_check L i response = Inr alg" "decode_gzip T None response = Inr archive"
      "archive_entries T archive = Inr rs" "distinct (map fst cas)"
      "\<forall>(nm, p) \<in> set cas. \<exists>h m. stored L r F' rs nm p h m" by blast
  have "clean_names (entry_paths rs)" using S(5) [OF i u(1)] u(2,3) by (simp add: clean_tarball_def)
  from unpacked_sound [OF S(1) files this u(4,5)] have cas: "sound_files r F' cas" .
  have pl: "plain F' (index_of L r j)" if "j \<in> J" for j
    using file_added_plain [OF v(3)] v(1) F(5) [OF that] unfolding only_cas_def by blast
  have mine: "load_from_store L S i F' = Inr (Some cas)"
    by (rule unpack_load_result [OF S(1,3) hex S(2) F(2) F(4) F(5) [OF i] new run])
  have "sound_files r F' cas'" if j: "j \<in> J" and l: "load_from_store L S j F' = Inr (Some cas')" for j cas'
  proof (cases "index_of L r j = index_of L r i")
    case True
    from load_same_index [OF S(3) hex S(4) [OF j] True mine l] cas show ?thesis by simp
  next
    case False
    then have "node_at F' (index_of L r j) = node_at F1 (index_of L r j)"
      using v(3) index_not_above_index unfolding file_added_def by metis
    also have "\<dots> = node_at F (index_of L r j)"
      using v(1) index_not_prefix_cas [OF S(4) [OF j]] new_on_way_prefix unfolding only_cas_def by metis
    finally show ?thesis by (rule sound_index_kept [OF libs sound j k ok pl [OF j] _ l])
  qed
  then have "store_sound L S r J F'"
    using inv files pl F(4) keepsD(2) [OF k] by (simp add: store_sound_def)
  with cas below show ?thesis by blast
qed

text \<open>The memory of the process names files that can be imported, too, and forgets none of them.\<close>

definition memory_sound :: "names \<Rightarrow> 'v world \<Rightarrow> bool" where
  "memory_sound r w \<longleftrightarrow> (\<forall>url cas. map_of (w_mem_cache w) url = Some (Available cas) \<longrightarrow> sound_files r (w_fs w) cas)"

definition remembers :: "'v world \<Rightarrow> 'v world \<Rightarrow> bool" where
  "remembers w w' \<longleftrightarrow> (\<forall>url cas. map_of (w_mem_cache w) url = Some (Available cas)
     \<longrightarrow> map_of (w_mem_cache w') url = Some (Available cas))"

lemma obtain_sound:
  assumes libs: "store_setup L T S r J" and sound: "store_sound L S r J (w_fs w)" and i: "i \<in> J"
    and run: "obtain_tarball L T N S i None url mode w = (w', Inr cas)"
  shows "store_sound L S r J (w_fs w') \<and> sound_files r (w_fs w') cas \<and> only_below {r} (w_fs w) (w_fs w')
    \<and> w_mem_cache w' = w_mem_cache w"
proof (cases "load_from_store L S i (w_fs w)")
  case (Inr stored)
  show ?thesis
  proof (cases stored)
    case (Some cas')
    with run Inr have "w' = w" "cas' = cas" by (auto simp: obtain_tarball_def result_simps)
    with store_soundD(6) [OF sound i] Inr Some sound show ?thesis by (simp add: below.refl)
  next
    case None
    with run Inr have "run_without_mem_cache L T N S i None url w = (w', Inr cas)"
      by (auto simp: obtain_tarball_def result_simps split: if_splits)
    then obtain response where
      on: "on_fs (unpack_tarball L T S i None url response) (w\<lparr>w_requests := w_requests w @ [url]\<rparr>) = (w', Inr cas)"
      by (auto simp: run_without_mem_cache_def result_simps http_get_def spawn_join_def)
    obtain F' x where "unpack_tarball L T S i None url response (w_fs w) = (F', x)"
      by (cases "unpack_tarball L T S i None url response (w_fs w)")
    with on have "unpack_tarball L T S i None url response (w_fs w) = (F', Inr cas)"
      and w': "w' = w\<lparr>w_requests := w_requests w @ [url], w_fs := F'\<rparr>"
      by (auto simp: on_fs_def act_on_def)
    from unpack_sound [OF libs sound i _ this(1)] Inr None w' show ?thesis by simp
  qed
qed (use run in \<open>simp add: obtain_tarball_def act_simps\<close>)

lemma download_sound:
  assumes libs: "store_setup L T S r J" and sound: "store_sound L S r J (w_fs w)" and i: "i \<in> J"
    and mem: "memory_sound r w" and run: "run_with_mem_cache L T N S i None url mode w = (w', Inr cas)"
  shows "store_sound L S r J (w_fs w') \<and> memory_sound r w' \<and> only_below {r} (w_fs w) (w_fs w') \<and> remembers w w'
    \<and> map_of (w_mem_cache w') url = Some (Available cas)"
proof (cases "map_of (w_mem_cache w) url")
  case (Some v)
  with run have "w' = w" "v = Available cas"
    by (auto simp: run_with_mem_cache_def result_simps act_simps split: cache_value.splits)
  with sound mem Some show ?thesis by (simp add: below.refl remembers_def)
next
  case None
  let ?w = "w\<lparr>w_mem_cache := AList.update url InProgress (w_mem_cache w)\<rparr>"
  from run None obtain w1 where o: "obtain_tarball L T N S i None url mode ?w = (w1, Inr cas)"
    and w': "w' = w1\<lparr>w_mem_cache := AList.update url (Available cas) (w_mem_cache w1)\<rparr>"
    by (auto simp: run_with_mem_cache_def act_simps set_cache_def split: prod.splits sum.splits)
  from obtain_sound [OF libs _ i o] sound have s: "store_sound L S r J (w_fs w1)" "sound_files r (w_fs w1) cas"
    "only_below {r} (w_fs w) (w_fs w1)" "w_mem_cache w1 = AList.update url InProgress (w_mem_cache w)" by simp_all
  have "sound_files r (w_fs w1) cas'" if "map_of (w_mem_cache w) u = Some (Available cas')" for u cas'
    by (rule sound_files_keeps [OF _ only_below_keeps [OF s(3)]]) (use mem that in \<open>auto simp: memory_sound_def\<close>)
  with s None show ?thesis by (auto simp: w' memory_sound_def remembers_def update_conv')
qed

end
