(* ===== verification/Frozen_Install.thy ===== *)
theory Frozen_Install
  imports Store_Sound
begin

text \<open>
  The installation of a lockfile as a whole, \<^verbatim>\<open>InstallFrozenLockfile\<close>: what is in the virtual store
  and in \<^verbatim>\<open>node_modules\<close> when it has succeeded. The packages are installed one after the other; the
  invariant is indexed by the packages that are left.
\<close>

section \<open>One package\<close>

abbreviation store_name :: "('v, 'r) extern \<Rightarrow> 'v dependency_path \<Rightarrow> string" where
  "store_name X dp \<equiv> to_virtual_store_name X (dp_package_specifier dp)"

abbreviation own_name :: "'v dependency_path \<Rightarrow> pkg_name" where
  "own_name dp \<equiv> ns_name (dp_package_specifier dp)"

definition package_plain :: "('v, 'r) extern \<Rightarrow> 'v dependency_path \<times> 'v package_snapshot \<Rightarrow> bool" where
  "package_plain X = (\<lambda>(dp, sn). file_name_ok (store_name X dp) \<and> pkg_name_plain (own_name dp)
     \<and> plain_dependencies X (iter_opt (sn_dependencies sn))
     \<and> own_name dp \<notin> fst ` set (iter_opt (sn_dependencies sn)))"

text \<open>The integrities that a lockfile pins.\<close>

definition lockfile_integrities :: "('v, 'r) installer \<Rightarrow> 'v packages \<Rightarrow> integrity set" where
  "lockfile_integrities I packages =
     {i. \<exists>(dp, sn) \<in> set packages. \<exists>url.
        (tarball_of_snapshot (i_extern I) (i_config I) dp sn :: install_package_by_snapshot_error failure + _) = Inr (url, i)}"

text \<open>The store and the virtual store are beside each other, and the packages have names of their own.\<close>

definition install_setup :: "('v, 'r) installer \<Rightarrow> names \<Rightarrow> names \<Rightarrow> 'v packages \<Rightarrow> bool" where
  "install_setup I r vs packages \<longleftrightarrow>
     store_setup (i_store I) (i_tarball I) (nc_store_dir (i_config I)) r (lockfile_integrities I packages)
     \<and> reflink_ok (i_reflink I) \<and> nc_virtual_store_dir (i_config I) = abs_path vs \<and> r \<parallel> vs
     \<and> distinct (map (\<lambda>(dp, _). store_name (i_extern I) dp) packages)
     \<and> (\<forall>x \<in> set packages. package_plain (i_extern I) x)"

text \<open>Every entry is a file with the content whose digest its address in the store is made from.\<close>

definition verified_files :: "store_lib \<Rightarrow> names \<Rightarrow> names \<Rightarrow> cas_paths \<Rightarrow> fs \<Rightarrow> bool" where
  "verified_files L r dir cas F \<longleftrightarrow>
     (\<forall>(e, p) \<in> set cas. \<exists>h ex j. p = abs_path (cas_names r h ex)
        \<and> node_at F (dir @ entry_names e) = Some (File j) \<and> sha512_digest L (in_data (fs_inodes F j)) = h)"

lemma verified_files_keeps:
  assumes files: "verified_files L r dir cas F" and ok: "tree_ok F" and k: "keeps F F'"
  shows "verified_files L r dir cas F'"
  unfolding verified_files_def
proof clarify
  fix e p assume "(e, p) \<in> set cas"
  with files obtain h ex j where j: "p = abs_path (cas_names r h ex)" "node_at F (dir @ entry_names e) = Some (File j)"
    "sha512_digest L (in_data (fs_inodes F j)) = h" unfolding verified_files_def by blast
  with keepsD(3) [OF k j(2)] keepsD(4) [OF k tree_okD(2) [OF ok j(2)]]
  show "\<exists>h ex j. p = abs_path (cas_names r h ex)
        \<and> node_at F' (dir @ entry_names e) = Some (File j) \<and> sha512_digest L (in_data (fs_inodes F' j)) = h" by auto
qed

lemma copied_verified:
  assumes cas: "cas_ok L r F" and sound: "sound_files r F cas" and copied: "copied dir cas F F'"
  shows "verified_files L r dir cas F'"
  unfolding verified_files_def
proof clarify
  fix e p assume e: "(e, p) \<in> set cas"
  with sound obtain h ex where h: "2 \<le> length h" "p = abs_path (cas_names r h ex)" unfolding sound_files_def by blast
  from copied e obtain i j where "node_at F (path_names p) = Some (File i)" "node_at F' (dir @ entry_names e) = Some (File j)"
    "in_data (fs_inodes F' j) = in_data (fs_inodes F i)" unfolding copied_def by blast
  with cas h show "\<exists>h ex j. p = abs_path (cas_names r h ex)
        \<and> node_at F' (dir @ entry_names e) = Some (File j) \<and> sha512_digest L (in_data (fs_inodes F' j)) = h"
    by (auto simp: cas_ok_def)
qed

text \<open>
  A package is installed: the files of its tarball are in its directory, and every dependency is
  linked beside it.
\<close>

definition dependencies_linked ::
    "('v, 'r) extern \<Rightarrow> names \<Rightarrow> string \<Rightarrow> (pkg_name \<times> 'v package_snapshot_dependency) list \<Rightarrow> fs \<Rightarrow> bool" where
  "dependencies_linked X vs store dependencies F \<longleftrightarrow>
     (\<forall>(n, spec) \<in> set dependencies. node_at F (package_place vs store n)
        = Some (Symlink (abs_path (package_place vs (dependency_store_name X n spec) n))))"

lemma dependencies_linked_keeps:
  "dependencies_linked X vs store deps F \<Longrightarrow> keeps F F' \<Longrightarrow> dependencies_linked X vs store deps F'"
  by (auto simp: dependencies_linked_def dest: keepsD(3))

definition package_installed ::
    "('v, 'r) installer \<Rightarrow> names \<Rightarrow> names \<Rightarrow> 'v world \<Rightarrow> 'v dependency_path \<times> 'v package_snapshot \<Rightarrow> bool" where
  "package_installed I r vs w = (\<lambda>(dp, sn).
     (\<exists>url i cas.
        (tarball_of_snapshot (i_extern I) (i_config I) dp sn :: install_package_by_snapshot_error failure + _) = Inr (url, i)
        \<and> map_of (w_mem_cache w) url = Some (Available cas)
        \<and> verified_files (i_store I) r (package_place vs (store_name (i_extern I) dp) (own_name dp)) cas (w_fs w))
     \<and> dependencies_linked (i_extern I) vs (store_name (i_extern I) dp) (iter_opt (sn_dependencies sn)) (w_fs w))"

text \<open>What an installation does to the world: it adds to the two stores and to the memory.\<close>

definition installs :: "names \<Rightarrow> names \<Rightarrow> 'v world \<Rightarrow> 'v world \<Rightarrow> bool" where
  "installs r vs w w' \<longleftrightarrow> only_below {r, vs} (w_fs w) (w_fs w') \<and> remembers w w'"

interpretation installing: state_order "installs r vs" for r vs
  by unfold_locales (auto simp: installs_def remembers_def intro: below.refl below.trans)

lemma package_installed_keeps:
  assumes inst: "package_installed I r vs w x" and ok: "tree_ok (w_fs w)" and k: "keeps (w_fs w) (w_fs w')"
    and m: "remembers w w'"
  shows "package_installed I r vs w' x"
proof -
  obtain dp sn where x: "x = (dp, sn)" by (cases x)
  show ?thesis
    using inst m verified_files_keeps [OF _ ok k] dependencies_linked_keeps [OF _ k]
    unfolding package_installed_def remembers_def x prod.case by blast
qed

lemma package_installed_stable:
  "package_installed I r vs w x \<Longrightarrow> tree_ok (w_fs w) \<Longrightarrow> installs r vs w w' \<Longrightarrow> package_installed I r vs w' x"
  by (auto simp: installs_def only_below_keeps intro: package_installed_keeps)

text \<open>The steps of one package.\<close>

lemma install_package_steps:
  assumes run: "install_package_by_snapshot I mode dp sn w = (w', Inr ())"
  obtains url i cas w1 F' where
    "(tarball_of_snapshot (i_extern I) (i_config I) dp sn :: install_package_by_snapshot_error failure + _) = Inr (url, i)"
    and "download I i None url mode w = (w1, Inr cas)"
    and "create_virtual_dir (i_extern I) (i_reflink I) (nc_virtual_store_dir (i_config I)) cas
           (nc_package_import_method (i_config I)) dp sn (w_fs w1) = (F', Inr ())"
    and "w' = w1\<lparr>w_fs := F'\<rparr>"
proof -
  from run obtain url i where t: "(tarball_of_snapshot (i_extern I) (i_config I) dp sn
      :: install_package_by_snapshot_error failure + _) = Inr (url, i)"
    by (auto simp: install_package_by_snapshot_def result_simps)
  with run obtain w1 cas where d: "download I i None url mode w = (w1, Inr cas)"
    and v: "on_fs (create_virtual_dir (i_extern I) (i_reflink I) (nc_virtual_store_dir (i_config I)) cas
           (nc_package_import_method (i_config I)) dp sn) w1 = (w', Inr ())"
    by (auto simp: install_package_by_snapshot_def result_simps)
  obtain F' x where "create_virtual_dir (i_extern I) (i_reflink I) (nc_virtual_store_dir (i_config I)) cas
           (nc_package_import_method (i_config I)) dp sn (w_fs w1) = (F', x)"
    by (cases "create_virtual_dir (i_extern I) (i_reflink I) (nc_virtual_store_dir (i_config I)) cas
           (nc_package_import_method (i_config I)) dp sn (w_fs w1)")
  with v t d that show thesis by (auto simp: on_fs_def act_on_def)
qed

text \<open>The state in which the packages \<open>todo\<close> are still to be installed.\<close>

definition ready :: "('v, 'r) installer \<Rightarrow> names \<Rightarrow> names \<Rightarrow> integrity set \<Rightarrow> 'v packages \<Rightarrow> 'v world \<Rightarrow> bool" where
  "ready I r vs J todo w \<longleftrightarrow>
     store_sound (i_store I) (nc_store_dir (i_config I)) r J (w_fs w) \<and> memory_sound r w \<and> plain (w_fs w) vs
     \<and> (\<forall>(dp, sn) \<in> set todo. node_at (w_fs w) (vs @ [store_name (i_extern I) dp]) = None)"

lemma package_run:
  assumes I: "install_setup I r vs packages" and x: "(dp, sn) \<in> set packages"
    and rdy: "ready I r vs (lockfile_integrities I packages) ((dp, sn) # todo) w"
    and run: "install_package_by_snapshot I mode dp sn w = (w', Inr ())"
  shows "store_sound (i_store I) (nc_store_dir (i_config I)) r (lockfile_integrities I packages) (w_fs w')
    \<and> memory_sound r w' \<and> only_below {r, vs @ [store_name (i_extern I) dp]} (w_fs w) (w_fs w') \<and> remembers w w'
    \<and> package_installed I r vs w' (dp, sn)"
proof -
  let ?J = "lockfile_integrities I packages" and ?s = "store_name (i_extern I) dp"
  have libs: "store_setup (i_store I) (i_tarball I) (nc_store_dir (i_config I)) r ?J" and R: "reflink_ok (i_reflink I)"
    and dir: "nc_virtual_store_dir (i_config I) = abs_path vs" and par: "r \<parallel> vs"
    and names: "package_plain (i_extern I) (dp, sn)" using I x by (auto simp: install_setup_def)
  obtain url i cas w1 F' where
    t: "(tarball_of_snapshot (i_extern I) (i_config I) dp sn :: install_package_by_snapshot_error failure + _) = Inr (url, i)"
    and d: "download I i None url mode w = (w1, Inr cas)"
    and v: "create_virtual_dir (i_extern I) (i_reflink I) (nc_virtual_store_dir (i_config I)) cas
           (nc_package_import_method (i_config I)) dp sn (w_fs w1) = (F', Inr ())"
    and w': "w' = w1\<lparr>w_fs := F'\<rparr>" by (rule install_package_steps [OF run])
  have i: "i \<in> ?J" using x t by (auto simp: lockfile_integrities_def)
  from rdy have w: "store_sound (i_store I) (nc_store_dir (i_config I)) r ?J (w_fs w)" "memory_sound r w"
    "plain (w_fs w) vs" "node_at (w_fs w) (vs @ [?s]) = None" by (auto simp: ready_def)
  from download_sound [OF libs w(1) i w(2) d]
  have w1: "store_sound (i_store I) (nc_store_dir (i_config I)) r ?J (w_fs w1)" "memory_sound r w1"
    "only_below {r} (w_fs w) (w_fs w1)" "remembers w w1" "map_of (w_mem_cache w1) url = Some (Available cas)" by blast+
  have cas: "sound_files r (w_fs w1) cas" using w1(2,5) by (simp add: memory_sound_def)
  have vs1: "plain (w_fs w1) vs" by (rule only_below_plain [OF w1(3) _ w(3)]) (use par in \<open>auto simp: parallel_def\<close>)
  have new1: "node_at (w_fs w1) (vs @ [?s]) = None"
    using only_below_same [OF w1(3), of "vs @ [?s]"] parallel_below [OF par] w(4) by simp
  have nf1: "\<forall>c p. fs_fault (w_fs w1) c p = None" using store_soundD(4) [OF w1(1)] by blast
  from create_virtual_dir_run [OF R store_soundD(1) [OF w1(1)] nf1 HOL.refl _ HOL.refl _ vs1 new1 _ _ _ v [unfolded dir]] names cas
  have F': "tree_ok F'" "keeps (w_fs w1) F'" "copied (package_place vs ?s (own_name dp)) cas (w_fs w1) F'"
    "dependencies_linked (i_extern I) vs ?s (iter_opt (sn_dependencies sn)) F'"
    and news: "\<And>q nd. node_at F' q = Some nd \<Longrightarrow> node_at (w_fs w1) q = Some nd
         \<or> nd = Dir \<and> (strict_prefix q (vs @ [?s]) \<or> prefix (vs @ [?s]) q)
         \<or> (\<exists>e \<in> fst ` set cas. q = package_place vs ?s (own_name dp) @ entry_names e)
         \<or> (\<exists>n \<in> fst ` set (iter_opt (sn_dependencies sn)). q = package_place vs ?s n)"
    by (simp_all add: package_plain_def sound_files_def dependencies_linked_def)
  have below: "only_below {vs @ [?s]} (w_fs w1) F'" by (rule create_virtual_dir_below [OF F'(2) news])
  have "vs @ [?s] \<parallel> r" using parallel_below [OF par] by (auto simp: parallel_def)
  then have sound: "store_sound (i_store I) (nc_store_dir (i_config I)) r ?J F'"
    by (intro store_sound_beside [OF libs w1(1) below _ F'(1)]) simp
  have "memory_sound r w'"
    using w1(2) sound_files_keeps [OF _ F'(2)] by (simp add: memory_sound_def w')
  moreover have "only_below {r, vs @ [?s]} (w_fs w) F'"
    by (rule below.trans [OF only_below_mono [OF w1(3)] only_below_mono [OF below]]) auto
  moreover have "cas_ok (i_store I) r (w_fs w1)" using store_soundD(2) [OF w1(1)] by (simp add: store_inv_def)
  from copied_verified [OF this cas F'(3)] t w1(5) F'(4) have "package_installed I r vs w' (dp, sn)"
    unfolding package_installed_def w' by auto
  ultimately show ?thesis using sound w1(4) by (simp add: w' remembers_def)
qed

section \<open>All packages\<close>

text \<open>Tasks that turn their errors into panics have no errors to collect.\<close>

lemma join_expect_Inr:
  assumes "(act_join (\<lambda>x. act_expect msg (g x) :: ('s, unit failure, 'b) action) xs :: ('s, 'e failure, (unit + 'b) list) action) s
    = (s', Inr rs)"
  shows "\<exists>ys. act_each g xs s = (s', Inr ys)"
  using assms
proof (induction xs arbitrary: s rs)
  case Nil
  then show ?case by (simp add: act_join_def result_simps)
next
  case (Cons x xs)
  from Cons.prems obtain s1 r rs1
    where one: "(act_settle (act_expect msg (g x) :: ('s, unit failure, 'b) action) :: ('s, 'e failure, unit + 'b) action) s = (s1, Inr r)"
    and rest: "(act_join (\<lambda>x. act_expect msg (g x) :: ('s, unit failure, 'b) action) xs :: ('s, 'e failure, (unit + 'b) list) action) s1
      = (s', Inr rs1)"
    by (auto simp: act_join_def act_bind_Inr act_return_eq)
  from one obtain y where "g x s = (s1, Inr y)"
    by (auto simp: act_settle_Inr act_expect_def act_map_err_def map_err_def split: prod.splits sum.splits failure.splits)
  moreover from Cons.IH [OF rest] obtain ys where "act_each g xs s1 = (s', Inr ys)" ..
  ultimately show ?case by (auto simp: result_simps)
qed

lemma ready_next:
  assumes I: "install_setup I r vs packages" and sub: "set (x # xs) \<subseteq> set packages"
    and dist: "distinct (map (\<lambda>(dp, _). store_name (i_extern I) dp) (x # xs))"
    and rdy: "ready I r vs (lockfile_integrities I packages) (x # xs) w"
    and run: "install_package_by_snapshot I mode (fst x) (snd x) w = (w', Inr ())"
  shows "ready I r vs (lockfile_integrities I packages) xs w' \<and> installs r vs w w' \<and> package_installed I r vs w' x"
proof -
  obtain dp sn where x: "x = (dp, sn)" by (cases x)
  let ?s = "store_name (i_extern I) dp"
  have par: "r \<parallel> vs" using I by (simp add: install_setup_def)
  from package_run [OF I _ rdy [unfolded x]] sub run
  have p: "store_sound (i_store I) (nc_store_dir (i_config I)) r (lockfile_integrities I packages) (w_fs w')"
    "memory_sound r w'" "only_below {r, vs @ [?s]} (w_fs w) (w_fs w')" "remembers w w'"
    "package_installed I r vs w' x" by (simp_all add: x)
  have vs: "plain (w_fs w) vs" and free: "\<And>d' sn'. (d', sn') \<in> set xs \<Longrightarrow> node_at (w_fs w) (vs @ [store_name (i_extern I) d']) = None"
    using rdy by (auto simp: ready_def)
  have "plain (w_fs w') vs" by (rule only_below_plain [OF p(3) _ vs]) (use par in \<open>auto simp: parallel_def\<close>)
  moreover have "node_at (w_fs w') (vs @ [store_name (i_extern I) d']) = None" if m: "(d', sn') \<in> set xs" for d' sn'
  proof -
    have "?s \<noteq> store_name (i_extern I) d'" using dist m by (force simp: x)
    then have "d \<parallel> vs @ [store_name (i_extern I) d']" if "d \<in> {r, vs @ [?s]}" for d
      using that parallel_below [OF par] by (auto simp: parallel_def)
    from only_below_same [OF p(3) this] free [OF m] show ?thesis by simp
  qed
  moreover have "only_below {r, vs} (w_fs w) (w_fs w')" by (rule only_below_mono [OF p(3)]) auto
  then have "installs r vs w w'" using p(4) by (simp add: installs_def)
  ultimately show ?thesis using p by (auto simp: ready_def)
qed

lemma tasks_run:
  assumes I: "install_setup I r vs packages" and sub: "set tasks \<subseteq> set packages"
    and dist: "distinct (map (\<lambda>(dp, _). store_name (i_extern I) dp) tasks)"
    and rdy: "ready I r vs (lockfile_integrities I packages) tasks w"
    and run: "act_each (\<lambda>x. install_package_by_snapshot I mode (fst x) (snd x)) tasks w = (w', Inr ys)"
  shows "ready I r vs (lockfile_integrities I packages) [] w' \<and> installs r vs w w'
    \<and> (\<forall>x \<in> set tasks. package_installed I r vs w' x)"
proof -
  define inv where "inv xs w \<longleftrightarrow> set xs \<subseteq> set packages \<and> distinct (map (\<lambda>(dp, _). store_name (i_extern I) dp) xs)
      \<and> ready I r vs (lockfile_integrities I packages) xs w" for xs w
  have "inv [] w' \<and> installs r vs w w' \<and> (\<forall>x \<in> set tasks. package_installed I r vs w' x)"
  proof (rule installing.each_run_todo [where I = inv and Q = "\<lambda>x w. package_installed I r vs w x", OF _ _ run])
    show "inv tasks w" using sub dist rdy by (simp add: inv_def)
  next
    fix x xs w w' y assume "inv (x # xs) w" and "install_package_by_snapshot I mode (fst x) (snd x) w = (w', Inr y)"
    then show "inv xs w' \<and> installs r vs w w' \<and> package_installed I r vs w' x"
      using ready_next [OF I, of x xs w mode w'] by (simp add: inv_def)
  next
    fix x xs w w' assume "package_installed I r vs w x" "inv xs w" "installs r vs w w'"
    then show "package_installed I r vs w' x"
      by (auto intro: package_installed_stable simp: inv_def ready_def dest: store_soundD(1))
  qed
  then show ?thesis by (simp add: inv_def)
qed

lemma virtual_store_run:
  assumes I: "install_setup I r vs packages" and rdy: "ready I r vs (lockfile_integrities I packages) packages w"
    and run: "(create_virtual_store I (Some packages) mode :: ('v world, 'e failure, unit) action) w = (w', Inr ())"
  shows "ready I r vs (lockfile_integrities I packages) [] w' \<and> installs r vs w w'
    \<and> (\<forall>x \<in> set packages. package_installed I r vs w' x)"
proof -
  let ?f = "\<lambda>x. install_package_by_snapshot I mode (fst x) (snd x)"
  from run obtain rs where "(act_join (\<lambda>x. act_expect ''called Result::unwrap() on an Err value'' (?f x)
      :: ('v world, unit failure, unit) action) packages :: ('v world, 'e failure, (unit + unit) list) action) w = (w', Inr rs)"
    by (auto simp: create_virtual_store_def result_simps split_def)
  from join_expect_Inr [OF this] obtain ys where "act_each ?f packages w = (w', Inr ys)" ..
  from tasks_run [OF I order.refl _ rdy this] I show ?thesis by (simp add: install_setup_def)
qed

section \<open>The dependencies of the project\<close>

text \<open>A modules directory with nothing but hidden entries has nothing to remove.\<close>

lemma sync_nothing:
  assumes ok: "tree_ok F" and nf: "\<forall>c p. fs_fault F c p = None" and pl: "plain F m"
    and dir: "node_at F m = None \<or> node_at F m = Some Dir"
    and hidden: "\<And>n. node_at F (m @ [n]) \<noteq> None \<Longrightarrow> starts_with_char (CHR ''.'') n"
  shows "sync_direct_dependency_links (abs_path m) desired F = (F, Inr ())"
proof (cases "node_at F m")
  case None
  then show ?thesis
    by (simp add: sync_direct_dependency_links_def act_simps exists_iff [OF ok pl] nf)
next
  case (Some nd)
  with dir have d: "node_at F m = Some Dir" by simp
  have "traverse (direct_dependency_entries F (abs_path m)) ns = Inr (map (\<lambda>_. []) ns)" if "set ns \<subseteq> set (dir_names F m)" for ns
    using that by (induction ns) (auto simp: direct_dependency_entries_def set_dir_names hidden)
  then have "current_direct_dependency_paths F (abs_path m) = Inr []"
    using read_dir_node [OF ok d] nf by (simp add: current_direct_dependency_paths_def)
  then show ?thesis
    using d by (simp add: sync_direct_dependency_links_def act_simps exists_iff [OF ok pl] nf act_for_def)
qed

text \<open>The modules directory: beside the virtual store, or above it with a hidden directory between.\<close>

definition modules_place :: "names \<Rightarrow> names \<Rightarrow> bool" where
  "modules_place m vs \<longleftrightarrow> m \<parallel> vs \<or> (\<exists>c ns. vs = m @ c # ns \<and> starts_with_char (CHR ''.'') c)"

lemma modules_after_packages:
  assumes ok: "tree_ok F" "tree_ok F1" and m: "plain F m" "node_at F m = None" and place: "modules_place m vs" and par: "r \<parallel> m"
    and below: "only_below {r, vs} F F1"
  shows "plain F1 m \<and> (node_at F1 m = None \<or> node_at F1 m = Some Dir)
    \<and> (\<forall>n. node_at F1 (m @ [n]) \<noteq> None \<longrightarrow> starts_with_char (CHR ''.'') n)"
proof -
  note absent = absent_below [OF ok(1) m]
  have away: "\<not> prefix vs m" "\<not> prefix r m" "\<not> strict_prefix m r" "\<not> prefix r (m @ [n])" "\<not> strict_prefix (m @ [n]) r" for n
    using place par by (auto simp: modules_place_def parallel_def strict_prefix_def prefix_order.trans [of m "m @ [n]" r] dest: prefix_snoc [THEN iffD1])
  have "plain F1 m" by (rule only_below_plain [OF below _ m(1)]) (use away(1,2) in auto)
  moreover have "node_at F1 m = None \<or> node_at F1 m = Some Dir"
  proof (cases "node_at F1 m")
    case (Some nd)
    with below m(2) away(1,2) show ?thesis unfolding only_below_def by (auto dest!: spec [of _ m])
  qed simp
  moreover have "starts_with_char (CHR ''.'') n" if n: "node_at F1 (m @ [n]) \<noteq> None" for n
  proof -
    from n below absent(1) [of "[n]"] away have "strict_prefix (m @ [n]) vs \<or> prefix vs (m @ [n])"
      unfolding only_below_def by fastforce
    with away(1) have "prefix (m @ [n]) vs" by (auto simp: strict_prefix_def)
    with place show ?thesis by (auto simp: modules_place_def parallel_def prefix_def)
  qed
  ultimately show ?thesis by blast
qed

text \<open>The links to the dependencies of the project.\<close>

definition project_links :: "('v, 'r) extern \<Rightarrow> names \<Rightarrow> (pkg_name \<times> 'v resolved_dependency_spec) list \<Rightarrow> (names \<times> path) list" where
  "project_links X vs direct =
     map (\<lambda>(n, spec). (pkg_dirs n, abs_path (package_place vs (to_virtual_store_name_from_parts X n (rd_version spec)) n))) direct"

definition plain_project :: "('v, 'r) extern \<Rightarrow> names \<Rightarrow> names \<Rightarrow> (pkg_name \<times> 'v resolved_dependency_spec) list \<Rightarrow> bool" where
  "plain_project X m vs direct \<longleftrightarrow> distinct (map fst direct)
     \<and> (\<forall>(n, spec) \<in> set direct. pkg_name_plain n \<and> file_name_ok (to_virtual_store_name_from_parts X n (rd_version spec))
          \<and> m @ pkg_dirs n \<parallel> vs)"

lemma symlink_direct_links:
  assumes dirs: "nc_modules_dir config = abs_path m" "nc_virtual_store_dir config = abs_path vs"
    and plain: "plain_project X m vs (dependencies_by_groups project groups)"
    and sync: "\<And>desired. sync_direct_dependency_links (abs_path m) desired F = (F, Inr ())"
    and run: "(symlink_direct_dependencies X config (Single project) groups :: (fs, 'e failure, unit) action) F = (F', Inr ())"
  shows "(act_for (\<lambda>(ns, t). link_at ''symlink pkg'' m ns t) (project_links X vs (dependencies_by_groups project groups))
     :: (fs, 'e failure, unit) action) F = (F', Inr ())"
proof -
  let ?direct = "dependencies_by_groups project groups"
  have "(act_for (\<lambda>(nm, spec).
       let virtual_store_name = to_virtual_store_name_from_parts X nm (rd_version spec);
           name_str = pkg_name_to_string nm
       in act_expect ''symlink pkg'' (act_err (symlink_package
               (join_str (join_str (join_str (abs_path vs) virtual_store_name) ''node_modules'') name_str)
               (join_str (abs_path m) name_str)))) ?direct :: (fs, 'e failure, unit) action)
    = act_for (\<lambda>(ns, t). link_at ''symlink pkg'' m ns t) (project_links X vs ?direct)"
    unfolding project_links_def act_for_map Let_def
    by (rule act_for_cong)
      (use plain in \<open>auto simp: plain_project_def join_place join_pkg_name simp del: join_name path_of_file_name\<close>)
  with run show ?thesis
    by (simp add: symlink_direct_dependencies_def dirs Let_def act_bind_Inr act_expect_Inr act_map_err_eq_Inr sync)
qed

lemma project_links_parallel:
  "plain_project X m vs direct \<Longrightarrow> sorted_wrt (\<lambda>x y. fst x \<parallel> fst y) (project_links X vs direct)"
proof (induction direct)
  case (Cons x direct)
  then show ?case by (force simp: project_links_def plain_project_def intro: pkg_dirs_parallel)
qed (simp add: project_links_def)

lemma project_run:
  assumes dirs: "nc_modules_dir config = abs_path m" "nc_virtual_store_dir config = abs_path vs"
    and plain: "plain_project X m vs (dependencies_by_groups project groups)"
    and ok: "tree_ok F" "tree_ok F1" and nf: "\<forall>c p. fs_fault F1 c p = None"
    and m: "plain F m" "node_at F m = None" and place: "modules_place m vs" and par: "r \<parallel> m"
    and below: "only_below {r, vs} F F1"
    and run: "(symlink_direct_dependencies X config (Single project) groups :: (fs, 'e failure, unit) action) F1 = (F', Inr ())"
  shows "tree_ok F' \<and> only_below {m} F1 F'
    \<and> (\<forall>(n, spec) \<in> set (dependencies_by_groups project groups). node_at F' (m @ pkg_dirs n)
         = Some (Symlink (abs_path (package_place vs (to_virtual_store_name_from_parts X n (rd_version spec)) n))))"
proof -
  let ?direct = "dependencies_by_groups project groups" and ?links = "project_links X vs (dependencies_by_groups project groups)"
  from modules_after_packages [OF ok m place par below]
  have m1: "plain F1 m" "node_at F1 m = None \<or> node_at F1 m = Some Dir"
    "\<And>n. node_at F1 (m @ [n]) \<noteq> None \<Longrightarrow> starts_with_char (CHR ''.'') n" by blast+
  note links = symlink_direct_links [OF dirs plain sync_nothing [OF ok(2) nf m1] run]
  have free: "node_at F1 (m @ pkg_dirs n) = None \<and> plain F1 (m @ pkg_dirs n)" if n: "n \<in> fst ` set ?direct" for n
  proof -
    have d: "d \<parallel> m @ pkg_dirs n" if "d \<in> {r, vs}" for d
      using plain n parallel_below [OF par] that by (auto simp: plain_project_def parallel_def)
    have "plain F1 (m @ pkg_dirs n)"
      by (rule only_below_plain [OF below _ absent_below(2) [OF ok(1) m]]) (use d in \<open>auto simp: parallel_def\<close>)
    with only_below_same [OF below d] absent_below(1) [OF ok(1) m] show ?thesis by simp
  qed
  have "\<forall>(ns, t) \<in> set ?links. ns \<noteq> [] \<and> plain F1 (m @ ns) \<and> node_at F1 (m @ ns) = None"
    using free by (force simp: project_links_def)
  from link_all [OF links ok(2) nf this project_links_parallel [OF plain]]
  have l: "tree_ok F'" "keeps F1 F'" "\<And>ns t. (ns, t) \<in> set ?links \<Longrightarrow> node_at F' (m @ ns) = Some (Symlink t)"
    "\<And>q. \<forall>ns \<in> fst ` set ?links. q \<noteq> m @ ns \<Longrightarrow> node_at F' q = node_at F1 q
       \<or> (\<exists>ns \<in> fst ` set ?links. strict_prefix q (m @ ns)) \<and> node_at F1 q = None \<and> node_at F' q = Some Dir" by blast+
  have "node_at F1 q = Some nd \<or> nd = Dir \<and> strict_prefix q m \<or> prefix m q" if q: "node_at F' q = Some nd" for q nd
  proof (cases "\<forall>ns \<in> fst ` set ?links. q \<noteq> m @ ns")
    case True
    have "strict_prefix q m \<or> prefix m q" if "strict_prefix q (m @ ns)" for ns
      using that prefix_same_cases [of q "m @ ns" m] by (auto simp: strict_prefix_def)
    with l(4) [OF True] q show ?thesis by auto
  qed auto
  with l(2) have "only_below {m} F1 F'" by (simp add: only_below_def)
  moreover have "node_at F' (m @ pkg_dirs n) = Some (Symlink (abs_path (package_place vs (to_virtual_store_name_from_parts X n (rd_version spec)) n)))"
    if "(n, spec) \<in> set ?direct" for n spec
    by (rule l(3)) (use that in \<open>force simp: project_links_def\<close>)
  ultimately show ?thesis using l(1) by blast
qed

section \<open>A frozen installation\<close>


section \<open>Example\<close>

text \<open>
  A store with one package in it, and a workspace next to it in directories with short names.
\<close>

definition filled_inodes :: "nat \<Rightarrow> inode" where
  "filled_inodes i = \<lparr>in_data = (if i = 0 then ''ab'' else if i = 1 then ''index'' else []), in_mode = 0x1A4\<rparr>"

definition filled_store :: "(names \<times> node) list \<Rightarrow> fs" where
  "filled_store nodes =
    \<lparr> fs_nodes = [([''store''], Dir), ([''store'', ''v3''], Dir), ([''store'', ''v3'', ''files''], Dir),
        ([''store'', ''v3'', ''files'', ''61''], Dir), ([''store'', ''v3'', ''files'', ''61'', ''62''], File 0),
        ([''store'', ''v3'', ''files'', ''7a''], Dir), ([''store'', ''v3'', ''files'', ''7a'', ''7a-index.json''], File 1)] @ nodes,
      fs_inodes = filled_inodes, fs_next = 2, fs_cwd = [], fs_umask = 0x12, fs_fault = (\<lambda>_ _. None) \<rparr>"

definition filled_cas :: cas_paths where
  "filled_cas = [(''a.js'', abs_path [''store'', ''v3'', ''files'', ''61'', ''62''])]"

definition short_installer :: "(ver3, range3) installer" where
  "short_installer =
     example_installer\<lparr>i_config := example_config\<lparr>nc_modules_dir := abs_path [''m''], nc_virtual_store_dir := abs_path [''v'']\<rparr>\<rparr>"

definition short_workspace :: "(ver3, range3) workspace" where
  "short_workspace = example_workspace\<lparr>ws_installer := short_installer\<rparr>"

abbreviation example_packages :: "ver3 packages" where
  "example_packages \<equiv> [(locked_path ''p'', locked_snapshot [''o'']), (locked_path ''o'', locked_snapshot [])]"

lemma filled_frame:
  "fs_next (filled_store ns) = 2" "fs_fault (filled_store ns) c p = None" "fs_inodes (filled_store ns) = filled_inodes"
  by (simp_all add: filled_store_def)

lemma node_at_filled: "node_at (filled_store []) q =
    (if q \<in> {[], [''store''], [''store'', ''v3''], [''store'', ''v3'', ''files''], [''store'', ''v3'', ''files'', ''61''],
             [''store'', ''v3'', ''files'', ''7a'']} then Some Dir
     else if q = [''store'', ''v3'', ''files'', ''61'', ''62''] then Some (File 0)
     else if q = [''store'', ''v3'', ''files'', ''7a'', ''7a-index.json''] then Some (File 1) else None)"
  by (simp add: node_at_def filled_store_def)

lemma tree_ok_filled: "tree_ok (filled_store [])"
  by (auto simp: tree_ok_def node_at_filled filled_frame split: if_splits)

lemma plain_filled: "plain (filled_store []) q"
  by (auto simp: plain_def node_at_filled)

lemma filled_names:
  "cas_names [''store''] ''ab'' False = [''store'', ''v3'', ''files'', ''61'', ''62'']"
  "index_names [''store''] ''7a7a'' = [''store'', ''v3'', ''files'', ''7a'', ''7a-index.json'']"
  "hex_ok ''7a7a''"
  by code_simp+

lemma filled_cas_node:
  assumes "2 \<le> length h" and "node_at (filled_store []) (cas_names [''store''] h ex) = Some nd"
  shows "h = ''ab'' \<and> nd = File 0"
proof -
  have "length (cas_names [''store''] h ex) = 5" by (simp add: cas_names_def)
  then have "cas_names [''store''] h ex = cas_names [''store''] ''ab'' False \<and> nd = File 0
      \<or> cas_names [''store''] h ex = index_names [''store''] ''7a7a''"
    using assms(2) unfolding node_at_filled filled_names by (auto split: if_splits)
  moreover have "cas_names [''store''] h ex \<noteq> index_names [''store''] ''7a7a''"
    using index_not_cas [OF filled_names(3) assms(1)] by metis
  ultimately show ?thesis using cas_names_inject [OF assms(1), of "''ab''" "[''store'']" ex False] by simp
qed

lemma store_inv_filled: "store_inv tarball_store_lib [''store''] (filled_store [])"
proof -
  have "sha512_digest tarball_store_lib (in_data (filled_inodes 0)) = ''ab''" by (simp add: tarball_store_lib_def filled_inodes_def)
  then have "cas_ok tarball_store_lib [''store''] (filled_store [])"
    using filled_cas_node by (auto simp: cas_ok_def filled_frame)
  then show ?thesis by (simp add: store_inv_def tree_ok_filled plain_filled filled_frame)
qed

lemma filled_load:
  "load_from_store tarball_store_lib store_root tarball_integrity (filled_store []) = Inr (Some filled_cas)"
  by code_simp

lemma filled_cas_sound: "sound_files [''store''] (filled_store []) filled_cas"
proof -
  have "clean_entry ''a.js''" by code_simp
  moreover have "node_at (filled_store []) [''store'', ''v3'', ''files'', ''61'', ''62''] = Some (File 0)" by (simp add: node_at_filled)
  ultimately show ?thesis
    unfolding sound_files_def importable_def filled_cas_def filled_names(1) [symmetric]
    by (auto intro!: exI [of _ "''ab''"])
qed

lemma example_integrities: "lockfile_integrities short_installer example_packages \<subseteq> {tarball_integrity}"
  by (auto simp: lockfile_integrities_def tarball_of_snapshot_def locked_snapshot_def placeholder_snapshot_def)

lemma clean_one_file: "clean_tarball one_file_tarball response"
proof -
  have "entry_names (clean_entry_path ''package/a.js'') = [''a.js'']"
    "clean_entry (clean_entry_path ''package/a.js'')" by code_simp+
  then show ?thesis
    by (auto simp: clean_tarball_def clean_names_def entry_paths_def one_file_tarball_def)
qed

lemma example_store_setup: "store_setup tarball_store_lib one_file_tarball store_root [''store''] J"
  by (simp add: store_setup_def digest_tarball_store codec_tarball_store store_root_path hex_tarball_store clean_one_file)

lemma store_sound_filled:
  "store_sound tarball_store_lib store_root [''store''] (lockfile_integrities short_installer example_packages) (filled_store [])"
  using store_inv_filled filled_cas_node filled_load filled_cas_sound example_integrities
  by (fastforce simp: store_sound_def cas_files_def filled_frame plain_filled)

text \<open>The names of the example.\<close>

lemma frozen_names:
  "store_name lib3 (locked_path ''p'') = ''p@1.0.0''" "store_name lib3 (locked_path ''o'') = ''o@1.0.0''"
  "dependency_store_name lib3 \<lparr> pn_scope = None, pn_bare = ''o'' \<rparr> (PkgVerPeer \<lparr> vp_version = (1, 0, 0), vp_peer = [] \<rparr>) = ''o@1.0.0''"
  "to_virtual_store_name_from_parts lib3 \<lparr> pn_scope = None, pn_bare = ''p'' \<rparr> \<lparr> vp_version = (1, 0, 0), vp_peer = [] \<rparr> = ''p@1.0.0''"
  by code_simp+

lemma example_own: "own_name (locked_path nm) = \<lparr> pn_scope = None, pn_bare = nm \<rparr>"
  by (simp add: locked_path_def)

lemma example_dependencies:
  "iter_opt (sn_dependencies (locked_snapshot [])) = []"
  "iter_opt (sn_dependencies (locked_snapshot [''o''])) =
     [(\<lparr> pn_scope = None, pn_bare = ''o'' \<rparr>, PkgVerPeer \<lparr> vp_version = (1, 0, 0), vp_peer = [] \<rparr>)]"
  by (simp_all add: locked_snapshot_def iter_opt_def)

lemma example_plain:
  "file_name_ok ''p@1.0.0''" "file_name_ok ''o@1.0.0''"
  "pkg_name_plain \<lparr> pn_scope = None, pn_bare = ''p'' \<rparr>" "pkg_name_plain \<lparr> pn_scope = None, pn_bare = ''o'' \<rparr>"
  by (simp_all add: file_name_ok_def pkg_name_plain_def starts_with_char_def)

lemma example_install_setup: "install_setup short_installer [''store''] [''v''] example_packages"
  using example_plain
  by (simp add: install_setup_def short_installer_def example_installer_def example_config_def example_store_setup
      reflink_ok_no_reflink parallel_def frozen_names package_plain_def plain_dependencies_def example_own
      example_dependencies del: One_nat_def)

text \<open>A package whose files the store has is installed without the network.\<close>

lemma install_loaded:
  assumes t: "(tarball_of_snapshot (i_extern I) (i_config I) dp sn :: install_package_by_snapshot_error failure + _) = Inr (url, i)"
    and new: "map_of (w_mem_cache w) url = None"
    and load: "load_from_store (i_store I) (nc_store_dir (i_config I)) i (w_fs w) = Inr (Some cas)"
    and dir: "create_virtual_dir (i_extern I) (i_reflink I) (nc_virtual_store_dir (i_config I)) cas
                (nc_package_import_method (i_config I)) dp sn (w_fs w) = (F', Inr ())"
  shows "install_package_by_snapshot I mode dp sn w =
     (w\<lparr>w_fs := F', w_mem_cache := AList.update url (Available cas) (AList.update url InProgress (w_mem_cache w))\<rparr>, Inr ())"
  using assms
  by (simp add: install_package_by_snapshot_def run_with_mem_cache_def obtain_tarball_def act_simps set_cache_def
      on_fs_def act_on_def)

definition nodes_p :: "(names \<times> node) list" where
  "nodes_p = [([''v''], Dir), ([''v'', ''p@1.0.0''], Dir), ([''v'', ''p@1.0.0'', ''node_modules''], Dir),
     ([''v'', ''p@1.0.0'', ''node_modules'', ''p''], Dir), ([''v'', ''p@1.0.0'', ''node_modules'', ''p'', ''a.js''], File 0),
     ([''v'', ''p@1.0.0'', ''node_modules'', ''o''], Symlink (abs_path [''v'', ''o@1.0.0'', ''node_modules'', ''o'']))]"

definition nodes_o :: "(names \<times> node) list" where
  "nodes_o = [([''v'', ''o@1.0.0''], Dir), ([''v'', ''o@1.0.0'', ''node_modules''], Dir),
     ([''v'', ''o@1.0.0'', ''node_modules'', ''o''], Dir), ([''v'', ''o@1.0.0'', ''node_modules'', ''o'', ''a.js''], File 0)]"

text \<open>The steps of the run; the file systems are compared under a predicate, as they hold functions.\<close>

lemma example_dir_p:
  "P (create_virtual_dir lib3 no_reflink (abs_path [''v'']) filled_cas Auto (locked_path ''p'') (locked_snapshot [''o'']) (filled_store []))
     \<longleftrightarrow> P (filled_store nodes_p, Inr ())"
  by code_simp

lemma example_dir_o:
  "P (create_virtual_dir lib3 no_reflink (abs_path [''v'']) filled_cas Auto (locked_path ''o'') (locked_snapshot []) (filled_store nodes_p))
     \<longleftrightarrow> P (filled_store (nodes_p @ nodes_o), Inr ())"
  by code_simp

lemma example_direct:
  "snd (symlink_direct_dependencies lib3 (i_config short_installer) (lf_project_snapshot locked_project) [Prod]
     (filled_store (nodes_p @ nodes_o)) :: fs \<times> (unit failure + unit)) = Inr ()"
  by code_simp

lemma example_tarballs:
  "(tarball_of_snapshot lib3 (i_config short_installer) (locked_path ''p'') (locked_snapshot [''o'']) :: install_package_by_snapshot_error failure + _)
     = Inr (''http://r/p/-/p-1.0.0.tgz'', tarball_integrity)"
  "(tarball_of_snapshot lib3 (i_config short_installer) (locked_path ''o'') (locked_snapshot []) :: install_package_by_snapshot_error failure + _)
     = Inr (''http://r/o/-/o-1.0.0.tgz'', tarball_integrity)"
  "load_from_store tarball_store_lib store_root tarball_integrity (filled_store nodes_p) = Inr (Some filled_cas)"
  by code_simp+

lemma short_installer_parts:
  "i_extern short_installer = lib3" "i_store short_installer = tarball_store_lib" "i_reflink short_installer = no_reflink"
  "nc_store_dir (i_config short_installer) = store_root" "nc_virtual_store_dir (i_config short_installer) = abs_path [''v'']"
  "nc_modules_dir (i_config short_installer) = abs_path [''m'']" "nc_package_import_method (i_config short_installer) = Auto"
  by (simp_all add: short_installer_def example_installer_def example_config_def)

text \<open>The two packages, in either mode.\<close>

lemma example_packages_run:
  "\<exists>w1 w2. install_package_by_snapshot short_installer mode (locked_path ''p'') (locked_snapshot [''o'']) (world3 (filled_store [])) = (w1, Inr ())
     \<and> install_package_by_snapshot short_installer mode (locked_path ''o'') (locked_snapshot []) w1 = (w2, Inr ())
     \<and> w_fs w2 = filled_store (nodes_p @ nodes_o)"
proof -
  let ?p = "''http://r/p/-/p-1.0.0.tgz''" and ?o = "''http://r/o/-/o-1.0.0.tgz''"
  let ?w = "(world3 (filled_store []))\<lparr>w_fs := filled_store nodes_p, w_mem_cache := [(?p, Available filled_cas)]\<rparr>"
  have "install_package_by_snapshot short_installer mode (locked_path ''p'') (locked_snapshot [''o'']) (world3 (filled_store []))
      = (?w, Inr ())"
    using install_loaded [of short_installer "locked_path ''p''" "locked_snapshot [''o'']" ?p tarball_integrity "world3 (filled_store [])"
        filled_cas "filled_store nodes_p" mode] example_dir_p [of "\<lambda>x. x = (filled_store nodes_p, Inr ())"]
    by (simp add: short_installer_parts example_tarballs filled_load world3_def)
  moreover obtain w2 where "install_package_by_snapshot short_installer mode (locked_path ''o'') (locked_snapshot []) ?w = (w2, Inr ())"
    and "w_fs w2 = filled_store (nodes_p @ nodes_o)"
    using install_loaded [of short_installer "locked_path ''o''" "locked_snapshot []" ?o tarball_integrity ?w
        filled_cas "filled_store (nodes_p @ nodes_o)" mode] example_dir_o [of "\<lambda>x. x = (filled_store (nodes_p @ nodes_o), Inr ())"]
    by (simp add: short_installer_parts example_tarballs)
  ultimately show ?thesis by blast
qed

lemma example_run:
  "\<exists>w'. (install_from_lockfile short_workspace locked_project [Prod] NetworkOffline (world3 (filled_store []))
      :: ver3 world \<times> (unit failure + unit)) = (w', Inr ())"
proof -
  from example_packages_run [of NetworkOffline] obtain w1 w2 where
    p: "install_package_by_snapshot short_installer NetworkOffline (locked_path ''p'') (locked_snapshot [''o'']) (world3 (filled_store [])) = (w1, Inr ())"
    and o: "install_package_by_snapshot short_installer NetworkOffline (locked_path ''o'') (locked_snapshot []) w1 = (w2, Inr ())"
    and w2: "w_fs w2 = filled_store (nodes_p @ nodes_o)" by blast
  from ex_state [OF example_direct] obtain F' where d: "(symlink_direct_dependencies lib3 (i_config short_installer)
      (lf_project_snapshot locked_project) [Prod] (filled_store (nodes_p @ nodes_o)) :: fs \<times> (unit failure + unit)) = (F', Inr ())" ..
  have "(create_virtual_store short_installer (Some example_packages) NetworkOffline :: (ver3 world, unit failure, unit) action)
      (world3 (filled_store [])) = (w2, Inr ())"
    by (simp add: create_virtual_store_def act_join_def act_settle_def act_expect_def act_simps p o)
  then have "(install_from_lockfile short_workspace locked_project [Prod] NetworkOffline (world3 (filled_store []))
      :: ver3 world \<times> (unit failure + unit)) = (w2\<lparr>w_fs := F'\<rparr>, Inr ())"
    using d by (simp add: install_from_lockfile_def install_frozen_lockfile_def short_workspace_def locked_project_def
        act_simps on_fs_def act_on_def w2 short_installer_parts)
  then show ?thesis by (rule exI)
qed

text \<open>Where the example starts.\<close>

lemma example_ready:
  "ready short_installer [''store''] [''v''] (lockfile_integrities short_installer example_packages) example_packages
     (world3 (filled_store []))"
  by (simp add: ready_def world3_def store_sound_filled memory_sound_def plain_filled node_at_filled short_installer_parts)


end
