(* ===== verification/Fetch_Install.thy ===== *)
theory Fetch_Install
  imports Frozen_Install
begin

text \<open>
  \<^verbatim>\<open>Fetch::run\<close>: the selection from a lockfile and the installation of what was selected, together.
\<close>

section \<open>Tasks that keep their errors\<close>

lemma join_all_Inr:
  assumes "(act_join f xs :: ('s, 'e failure, ('d + 'b) list) action) s = (s', Inr rs)" and "\<forall>x \<in> set rs. \<exists>y. x = Inr y"
  shows "\<exists>ys. act_each f xs s = (s', Inr ys)"
proof -
  from assms(2) have "rs = map Inr (map projr rs)" by (induction rs) auto
  with assms(1) show ?thesis using act_join_Inr by metis
qed

lemma for_results_Inr:
  "act_for (\<lambda>result. act_read (\<lambda>_. map_err g result)) rs s = (s', Inr ()) \<Longrightarrow> s' = s \<and> (\<forall>x \<in> set rs. \<exists>y. x = Inr y)"
  by (induction rs) (auto simp: act_for_def act_bind_Inr act_return_eq act_read_def map_err_eq_Inr)

section \<open>The steps of a fetch\<close>

lemma traverse_lookup_Inr:
  assumes "traverse (\<lambda>p. map_ok (\<lambda>sn. (p, sn)) (ok_or e (map_of packages p))) selected = Inr tasks"
  shows "map fst tasks = selected \<and> set tasks \<subseteq> {(p, sn). map_of packages p = Some sn}"
proof -
  have "list_all2 (\<lambda>p x. fst x = p \<and> map_of packages p = Some (snd x)) selected tasks"
    using assms by (auto simp: traverse_eq_Inr map_ok_eq_Inr ok_or_eq_Inr elim!: list_all2_mono)
  then show ?thesis by (induction selected tasks rule: list_all2_induct) auto
qed

lemma fetch_steps:
  assumes packages: "lf_packages lf = Some packages" and run: "fetch_run I lf groups w = (w', Inr ())"
  shows "\<exists>selected tasks ys.
    collect_selected_packages (i_extern I) (lf_project_snapshot lf) packages (index_new (i_extern I) packages) groups = Inr selected
    \<and> map fst tasks = selected \<and> set tasks \<subseteq> {(p, sn). map_of packages p = Some sn}
    \<and> act_each (\<lambda>x. install_package_by_snapshot I NetworkOnline (fst x) (snd x)) tasks w = (w', Inr ys)"
proof -
  from run obtain selected tasks w1 and rs :: "(install_package_by_snapshot_error + unit) list" where
    s: "collect_selected_packages (i_extern I) (lf_project_snapshot lf) packages (index_new (i_extern I) packages) groups = Inr selected"
    and t: "traverse (\<lambda>p. map_ok (\<lambda>sn. (p, sn)) (ok_or (Panic ''selected package snapshot exists'' :: fetch_run_error failure)
              (map_of packages p))) selected = Inr tasks"
    and j: "(act_join (\<lambda>x. install_package_by_snapshot I NetworkOnline (fst x) (snd x)) tasks
              :: (_, fetch_run_error failure, _) action) w = (w1, Inr rs)"
    and f: "act_for (\<lambda>result. act_read (\<lambda>_. map_err (\<lambda>e. Err (InstallPackage e)) result)) rs w1 = (w', Inr ())"
    by (auto simp: fetch_run_def packages act_bind_Inr act_read_eq Let_def split_def map_err_eq_Inr)
  from for_results_Inr [OF f] have "w' = w1" "\<forall>x \<in> set rs. \<exists>y. x = Inr y" by simp_all
  with join_all_Inr [OF j] obtain ys
    where "act_each (\<lambda>x. install_package_by_snapshot I NetworkOnline (fst x) (snd x)) tasks w = (w', Inr ys)" by blast
  with s traverse_lookup_Inr [OF t] show ?thesis by blast
qed

section \<open>What a fetch installs\<close>


text \<open>The workspace of the installation above, with its filled store.\<close>

lemma example_selected:
  "collect_selected_packages lib3 (lf_project_snapshot locked_project) example_packages (index_new lib3 example_packages) [Prod]
     = Inr [locked_path ''p'', locked_path ''o'']"
  by code_simp


end
