(* ===== verification/Dependency_Sync.thy ===== *)
theory Dependency_Sync
  imports Package_Links
begin

text \<open>
  What \<^verbatim>\<open>sync_direct_dependency_links\<close> leaves in \<^verbatim>\<open>node_modules\<close>: the packages that are asked for,
  as they were, and no other.
\<close>

section \<open>The packages of a modules directory\<close>

text \<open>A scope directory, and the name and place of a package: directly or in a scope.\<close>

definition scope_dir :: "fs \<Rightarrow> names \<Rightarrow> string \<Rightarrow> bool" where
  "scope_dir F md nm \<longleftrightarrow> starts_with_char (CHR ''@'') nm \<and> node_at F (md @ [nm]) = Some Dir"

definition installed_package :: "fs \<Rightarrow> names \<Rightarrow> string \<Rightarrow> names \<Rightarrow> bool" where
  "installed_package F md pkg q \<longleftrightarrow>
     node_at F q \<noteq> None
     \<and> ((\<exists>nm. q = md @ [nm] \<and> pkg = nm \<and> \<not> starts_with_char (CHR ''.'') nm \<and> \<not> scope_dir F md nm)
        \<or> (\<exists>nm sn. q = md @ [nm, sn] \<and> pkg = nm @ ''/'' @ sn \<and> scope_dir F md nm))"

definition linked_scopes :: "fs \<Rightarrow> names \<Rightarrow> bool" where
  "linked_scopes F md \<longleftrightarrow>
     (\<exists>nm t. starts_with_char (CHR ''@'') nm \<and> node_at F (md @ [nm]) = Some (Symlink t))"

lemma installed_prefix_free:
  "installed_package F md a p \<Longrightarrow> installed_package F md b q \<Longrightarrow> prefix p q \<Longrightarrow> p = q \<and> a = b"
  by (auto simp: installed_package_def)

lemma starts_dot_at: "starts_with_char (CHR ''.'') nm \<Longrightarrow> \<not> starts_with_char (CHR ''@'') nm"
  by (cases nm) (auto simp: starts_with_char_def)

section \<open>Listing them\<close>

text \<open>A modules directory that scopes are real directories of, and no call on it fails.\<close>

definition modules_ok :: "fs \<Rightarrow> names \<Rightarrow> bool" where
  "modules_ok F md \<longleftrightarrow>
     tree_ok F \<and> node_at F md = Some Dir \<and> (\<forall>c p. fs_fault F c p = None) \<and> \<not> linked_scopes F md"

lemma modules_okD:
  assumes "modules_ok F md"
  shows "tree_ok F" "node_at F md = Some Dir" "fs_fault F c p = None" "\<not> linked_scopes F md"
  using assms by (simp_all add: modules_ok_def)

lemma is_dir_scope:
  assumes m: "modules_ok F md" and at: "starts_with_char (CHR ''@'') nm"
  shows "fs_is_dir F (abs_path (md @ [nm])) \<longleftrightarrow> scope_dir F md nm"
proof -
  have "plain F (md @ [nm])"
    using tree_ok_plain [OF modules_okD(1,2) [OF m]] modules_okD(4) [OF m] at
    by (auto simp: plain_snoc linked_scopes_def)
  from lookup_Found_iff [OF modules_okD(1) [OF m] this, of True] show ?thesis
    by (cases "lookup F True (abs_path (md @ [nm]))")
      (auto simp: fs_is_dir_def fs_metadata_def guarded_def modules_okD(3) [OF m] scope_dir_def at split: node.splits)
qed

lemma entries:
  assumes m: "modules_ok F md"
  shows "direct_dependency_entries F (abs_path md) nm =
     Inr (if starts_with_char (CHR ''.'') nm then []
          else if scope_dir F md nm then map (\<lambda>sn. (nm @ ''/'' @ sn, abs_path (md @ [nm, sn]))) (dir_names F (md @ [nm]))
          else [(nm, abs_path (md @ [nm]))])"
proof (cases "starts_with_char (CHR ''@'') nm")
  case True
  then show ?thesis
    using is_dir_scope [OF m True] read_dir_node [OF modules_okD(1) [OF m], of "md @ [nm]"] starts_dot_at [of nm] modules_okD(3) [OF m]
    by (auto simp: direct_dependency_entries_def Let_def scope_dir_def)
qed (simp add: direct_dependency_entries_def Let_def scope_dir_def)

lemma listed:
  assumes m: "modules_ok F md" and dn: "distinct (map fst (fs_nodes F))"
  shows "\<exists>xs. current_direct_dependency_paths F (abs_path md) = Inr (map (\<lambda>(pkg, q). (pkg, abs_path q)) xs)
    \<and> distinct (map snd xs) \<and> (\<forall>pkg q. (pkg, q) \<in> set xs \<longleftrightarrow> installed_package F md pkg q)"
proof -
  define g where "g = (\<lambda>nm. if starts_with_char (CHR ''.'') nm then []
          else if scope_dir F md nm then map (\<lambda>sn. (nm @ ''/'' @ sn, md @ [nm, sn])) (dir_names F (md @ [nm]))
          else [(nm, md @ [nm])])"
  have e: "direct_dependency_entries F (abs_path md) nm = Inr (map (\<lambda>(pkg, q). (pkg, abs_path q)) (g nm))" for nm
    by (simp add: entries [OF m] g_def)
  have tr: "traverse (direct_dependency_entries F (abs_path md)) ns = Inr (map (\<lambda>nm. map (\<lambda>(pkg, q). (pkg, abs_path q)) (g nm)) ns)" for ns
    by (induction ns) (simp_all add: e)
  have "current_direct_dependency_paths F (abs_path md)
      = Inr (map (\<lambda>(pkg, q). (pkg, abs_path q)) (concat (map g (dir_names F md))))"
    by (simp add: current_direct_dependency_paths_def read_dir_node [OF modules_okD(1,2,3) [OF m]] tr map_concat comp_def)
  moreover have "distinct (map snd (concat (map g ns)))" if "distinct ns" for ns
    using that
  proof (induction ns)
    case (Cons n ns)
    have "distinct (map snd (g n))"
      using distinct_dir_names [OF dn, of "md @ [n]"] by (auto simp: g_def comp_def distinct_map inj_on_def)
    with Cons show ?case by (auto simp: g_def split: if_splits)
  qed simp
  moreover have "(pkg, q) \<in> set (concat (map g (dir_names F md))) \<longleftrightarrow> installed_package F md pkg q" for pkg q
  proof
    assume "(pkg, q) \<in> set (concat (map g (dir_names F md)))"
    then show "installed_package F md pkg q"
      by (auto simp: set_dir_names g_def installed_package_def split: if_splits)
  next
    assume i: "installed_package F md pkg q"
    then have "\<exists>nm. node_at F (md @ [nm]) \<noteq> None \<and> (pkg, q) \<in> set (g nm)"
    proof (cases "\<exists>nm sn. q = md @ [nm, sn]")
      case True
      then obtain nm sn where q: "q = md @ [nm, sn]" by blast
      with i have "scope_dir F md nm" "pkg = nm @ ''/'' @ sn" "node_at F (md @ [nm, sn]) \<noteq> None"
        by (auto simp: installed_package_def)
      with starts_dot_at [of nm] show ?thesis
        by (intro exI [of _ nm]) (auto simp: g_def q set_dir_names scope_dir_def)
    next
      case False
      with i show ?thesis by (intro exI [of _ pkg]) (auto simp: installed_package_def g_def)
    qed
    then show "(pkg, q) \<in> set (concat (map g (dir_names F md)))" by (auto simp: set_dir_names)
  qed
  ultimately show ?thesis using distinct_dir_names [OF dn, of md] by blast
qed

section \<open>Removing them\<close>

lemma remove_any_total:
  assumes "tree_ok G" and "node_at G q = Some nd" and "q \<noteq> []" and "\<And>c p. fs_fault G c p = None"
  shows "\<exists>G'. remove_any G (abs_path q) = Inr G'"
  using lookup_node [OF assms(1,2), of False] assms(2-)
  by (cases nd) (auto simp: remove_any_def fs_symlink_metadata_def guarded_def fs_remove_dir_all_def fs_remove_file_def)

text \<open>The state of the loop: \<open>D\<close> is what has been removed.\<close>

definition pruned :: "names \<Rightarrow> names set \<Rightarrow> fs \<Rightarrow> fs \<Rightarrow> bool" where
  "pruned md D F G \<longleftrightarrow>
     (\<forall>q \<in> D. \<forall>r. prefix q r \<longrightarrow> node_at G r = None)
     \<and> (\<forall>r. (\<nexists>q. q \<in> D \<and> prefix q r) \<longrightarrow> node_at G r = node_at F r
          \<or> (\<exists>nm. r = md @ [nm] \<and> scope_dir F md nm \<and> node_at G r = None))
     \<and> (\<forall>nm. scope_dir G md nm \<longrightarrow> (\<forall>sn. node_at G (md @ [nm, sn]) = None)
          \<longrightarrow> (\<forall>sn. node_at F (md @ [nm, sn]) = None))"

lemma prunedD:
  "pruned md D F G \<Longrightarrow> q \<in> D \<Longrightarrow> node_at G q = None"
  "pruned md D F G \<Longrightarrow> (\<nexists>q. q \<in> D \<and> prefix q r) \<Longrightarrow> \<nexists>nm. r = md @ [nm] \<Longrightarrow> node_at G r = node_at F r"
  by (auto simp: pruned_def)

lemma pruned_start: "pruned md {} F F"
  by (simp add: pruned_def)

text \<open>\<open>cut md q F G H\<close>: \<open>H\<close> is \<open>G\<close> without \<open>q\<close> and what is below it, and possibly without a scope of \<open>F\<close>.\<close>

definition cut :: "names \<Rightarrow> names \<Rightarrow> fs \<Rightarrow> fs \<Rightarrow> fs \<Rightarrow> bool" where
  "cut md q F G H \<longleftrightarrow> (\<forall>r. node_at H r = (if prefix q r then None else node_at G r)
     \<or> (\<exists>nm. r = md @ [nm] \<and> scope_dir F md nm \<and> node_at H r = None))"

lemma pruned_cut:
  assumes G: "pruned md D F G" and H: "cut md q F G H"
    and scopes: "\<And>nm sn. scope_dir H md nm \<Longrightarrow> \<forall>sn. node_at H (md @ [nm, sn]) = None \<Longrightarrow> node_at F (md @ [nm, sn]) = None"
  shows "pruned md (insert q D) F H"
  unfolding pruned_def
proof (intro conjI)
  show "\<forall>q' \<in> insert q D. \<forall>r. prefix q' r \<longrightarrow> node_at H r = None"
  proof (intro ballI allI impI)
    fix q' r assume "q' \<in> insert q D" "prefix q' r"
    with G have "prefix q r \<or> node_at G r = None" by (auto simp: pruned_def)
    with H [unfolded cut_def, rule_format, of r] show "node_at H r = None" by auto
  qed
  show "\<forall>r. (\<nexists>q'. q' \<in> insert q D \<and> prefix q' r) \<longrightarrow> node_at H r = node_at F r
        \<or> (\<exists>nm. r = md @ [nm] \<and> scope_dir F md nm \<and> node_at H r = None)"
  proof (intro allI impI)
    fix r assume r: "\<nexists>q'. q' \<in> insert q D \<and> prefix q' r"
    with G have "node_at G r = node_at F r \<or> (\<exists>nm. r = md @ [nm] \<and> scope_dir F md nm \<and> node_at G r = None)"
      by (auto simp: pruned_def)
    with H [unfolded cut_def, rule_format, of r] r
    show "node_at H r = node_at F r \<or> (\<exists>nm. r = md @ [nm] \<and> scope_dir F md nm \<and> node_at H r = None)" by auto
  qed
qed (use scopes in blast)

text \<open>The scope of a removed package goes with it exactly when nothing else is in it.\<close>

lemma empty_scope_run:
  assumes q: "q = md @ [nm, sn]"
    and G: "tree_ok G" "\<And>c p. fs_fault G c p = None" "node_at G (md @ [nm]) = Some Dir"
  shows "\<exists>H. remove_empty_scope (abs_path md) (abs_path q) G = (H, Inr ()) \<and> tree_ok H \<and> fs_fault H = fs_fault G
    \<and> (\<forall>r. node_at H r = node_at G r \<or> r = md @ [nm] \<and> node_at H r = None)
    \<and> (node_at H (md @ [nm]) = None \<or> (\<exists>sn. node_at H (md @ [nm, sn]) \<noteq> None))"
proof -
  have rd: "fs_read_dir G (abs_path (md @ [nm])) = Inr (dir_names G (md @ [nm]))"
    by (rule read_dir_node [OF G(1,3)]) (simp add: G(2))
  have par: "path_parent (abs_path q) = Some (abs_path (md @ [nm]))"
    using abs_path_parent [of "md @ [nm]" sn] by (simp add: q)
  show ?thesis
  proof (cases "dir_names G (md @ [nm]) = []")
    case emp: True
    let ?H = "del_nodes (\<lambda>x. x = md @ [nm]) G"
    have rmd: "fs_remove_dir G (abs_path (md @ [nm])) = Inr ?H"
      using lookup_node [OF G(1,3), of False] emp by (simp add: fs_remove_dir_def guarded_def G(2))
    have "remove_empty_scope (abs_path md) (abs_path q) G = (?H, Inr ())"
      by (simp add: remove_empty_scope_def par act_simps rd emp rmd)
    moreover have "tree_ok ?H"
      by (rule tree_ok_del_nodes [OF G(1)]) (use emp in \<open>auto simp: dir_names_empty\<close>)
    ultimately show ?thesis by (intro exI [of _ ?H]) (auto simp: node_at_del_nodes)
  next
    case full: False
    have "remove_empty_scope (abs_path md) (abs_path q) G = (G, Inr ())"
      by (simp add: remove_empty_scope_def par act_simps rd full)
    then show ?thesis using full G(1) by (auto simp: dir_names_empty)
  qed
qed

lemma remove_one:
  assumes m: "modules_ok F md" and i: "installed_package F md pkg q"
    and G: "tree_ok G" "\<And>c p. fs_fault G c p = None" "pruned md D F G" "node_at G q \<noteq> None"
    and root: "node_at G md = Some Dir"
  shows "\<exists>H. act_then (remove_path (abs_path q)) (remove_empty_scope (abs_path md) (abs_path q)) G = (H, Inr ())
    \<and> tree_ok H \<and> (\<forall>c p. fs_fault H c p = None) \<and> pruned md (insert q D) F H \<and> node_at H md = Some Dir
    \<and> cut md q F G H"
proof -
  from G(4) obtain nd where nd: "node_at G q = Some nd" by auto
  have ne: "q \<noteq> []" using i by (auto simp: installed_package_def)
  from remove_any_total [OF G(1) nd ne G(2)] obtain G1 where rm: "remove_any G (abs_path q) = Inr G1" ..
  from remove_any_node [OF G(1) nd rm] have G1: "tree_ok G1" "fs_fault G1 = fs_fault G"
    "\<And>x. node_at G1 x = (if prefix q x then None else node_at G x)" by auto
  have run: "act_then (remove_path (abs_path q)) (remove_empty_scope (abs_path md) (abs_path q)) G
      = remove_empty_scope (abs_path md) (abs_path q) G1"
    by (simp add: remove_path_def act_simps rm)
  have root1: "node_at G1 md = Some Dir" using i root by (auto simp: G1(3) installed_package_def)
  have scopes: "node_at F (md @ [nm, sn]) = None" if "scope_dir G md nm" "\<forall>sn. node_at G (md @ [nm, sn]) = None" for nm sn
    using G(3) that unfolding pruned_def by blast
  show ?thesis
  proof (cases "\<exists>nm. q = md @ [nm]")
    case True
    then obtain nm where q: "q = md @ [nm]" ..
    have rest: "remove_empty_scope (abs_path md) (abs_path q) G1 = (G1, Inr ())"
      by (simp add: remove_empty_scope_def q act_simps)
    have c: "cut md q F G G1" by (simp add: cut_def G1(3))
    have "pruned md (insert q D) F G1"
      by (rule pruned_cut [OF G(3) c], rule scopes) (auto simp: scope_dir_def G1(3) q split: if_splits)
    with rest G1 root1 G(2) c show ?thesis by (auto simp: run)
  next
    case False
    with i obtain nm sn where q: "q = md @ [nm, sn]" and sc: "scope_dir F md nm" by (auto simp: installed_package_def)
    have "node_at G (md @ [nm]) = Some Dir" using tree_okD(1) [OF G(1), of "md @ [nm]" sn nd] nd q by simp
    then have s1: "node_at G1 (md @ [nm]) = Some Dir" by (simp add: G1(3) q)
    have f1: "fs_fault G1 c p = None" for c p by (simp add: G1(2) G(2))
    from empty_scope_run [OF q G1(1) f1 s1] obtain H where
      rest: "remove_empty_scope (abs_path md) (abs_path q) G1 = (H, Inr ())" and H: "tree_ok H" "fs_fault H = fs_fault G1"
      and n: "\<And>r. node_at H r = node_at G1 r \<or> r = md @ [nm] \<and> node_at H r = None"
      and left: "node_at H (md @ [nm]) = None \<or> (\<exists>sn. node_at H (md @ [nm, sn]) \<noteq> None)" by blast
    have c: "cut md q F G H" unfolding cut_def using n sc by (metis G1(3))
    have "pruned md (insert q D) F H"
    proof (rule pruned_cut [OF G(3) c])
      fix nm' sn' assume a: "scope_dir H md nm'" "\<forall>sn. node_at H (md @ [nm', sn]) = None"
      then have "nm' \<noteq> nm" using left by (auto simp: scope_dir_def)
      with a n [of "md @ [nm']"] have "scope_dir G md nm'" by (auto simp: scope_dir_def G1(3) split: if_splits)
      moreover have "\<forall>sn. node_at G (md @ [nm', sn]) = None"
      proof
        fix x
        from a(2) n [of "md @ [nm', x]"] \<open>nm' \<noteq> nm\<close> show "node_at G (md @ [nm', x]) = None" by (auto simp: G1(3) q split: if_splits)
      qed
      ultimately show "node_at F (md @ [nm', sn']) = None" by (rule scopes)
    qed
    moreover have "node_at H md = Some Dir" using n [of md] root1 by simp
    ultimately show ?thesis using rest H c by (auto simp: run f1)
  qed
qed

lemma remove_all:
  assumes m: "modules_ok F md"
    and G: "tree_ok G" "\<And>c p. fs_fault G c p = None" "pruned md D F G" "node_at G md = Some Dir"
    and xs: "distinct (map snd xs)" "\<And>pkg q. (pkg, q) \<in> set xs \<Longrightarrow> installed_package F md pkg q \<and> node_at G q \<noteq> None"
  shows "\<exists>G'. act_for (\<lambda>(package_name, path). if package_name \<in> set desired then act_return ()
           else act_then (remove_path path) (remove_empty_scope (abs_path md) path))
         (map (\<lambda>(pkg, q). (pkg, abs_path q)) xs) G = (G', Inr ())
    \<and> tree_ok G' \<and> pruned md (D \<union> {q. \<exists>pkg. (pkg, q) \<in> set xs \<and> pkg \<notin> set desired}) F G'"
  using G xs
proof (induction xs arbitrary: G D)
  case Nil
  then show ?case by (auto simp: result_simps)
next
  case (Cons x xs)
  obtain pkg q where x: "x = (pkg, q)" by (cases x)
  let ?f = "\<lambda>(package_name, path). if package_name \<in> set desired then act_return ()
           else act_then (remove_path path) (remove_empty_scope (abs_path md) path)"
  let ?ys = "map (\<lambda>(pkg, q). (pkg, abs_path q)) xs"
  let ?U = "\<lambda>xs. {q. \<exists>pkg. (pkg, q) \<in> set xs \<and> pkg \<notin> set desired}"
  have i: "installed_package F md pkg q" "node_at G q \<noteq> None" using Cons.prems(6) [of pkg q] x by auto
  show ?case
  proof (cases "pkg \<in> set desired")
    case True
    have "?U (x # xs) = ?U xs" using True x by auto
    moreover have "act_for ?f (map (\<lambda>(pkg, q). (pkg, abs_path q)) (x # xs)) G = (G', Inr ())
        \<longleftrightarrow> act_for ?f ?ys G = (G', Inr ())" for G'
      by (simp add: x act_for_Cons_Inr True act_return_eq)
    moreover have "\<exists>G'. act_for ?f ?ys G = (G', Inr ()) \<and> tree_ok G' \<and> pruned md (D \<union> ?U xs) F G'"
    proof (rule Cons.IH [OF Cons.prems(1-4)])
      show "distinct (map snd xs)" using Cons.prems(5) by simp
      show "installed_package F md pkg q \<and> node_at G q \<noteq> None" if "(pkg, q) \<in> set xs" for pkg q
        by (rule Cons.prems(6)) (simp add: that)
    qed
    ultimately show ?thesis by simp
  next
    case False
    from remove_one [OF m i(1) Cons.prems(1,2,3) i(2) Cons.prems(4)] obtain G1 where
      one: "act_then (remove_path (abs_path q)) (remove_empty_scope (abs_path md) (abs_path q)) G = (G1, Inr ())"
      and G1: "tree_ok G1" "\<And>c p. fs_fault G1 c p = None" "pruned md (insert q D) F G1" "node_at G1 md = Some Dir"
      and n1: "cut md q F G G1" by blast
    have later: "installed_package F md pkg' q' \<and> node_at G1 q' \<noteq> None" if mem: "(pkg', q') \<in> set xs" for pkg' q'
    proof -
      have i': "installed_package F md pkg' q'" "node_at G q' \<noteq> None" using Cons.prems(6) [of pkg' q'] mem by auto
      from Cons.prems(5) mem x have "q' \<noteq> q" by (auto simp: image_iff)
      then have "\<not> prefix q q'" using installed_prefix_free [OF i(1) i'(1)] by blast
      moreover have "\<not> (\<exists>nm. q' = md @ [nm] \<and> scope_dir F md nm)" using i'(1) by (auto simp: installed_package_def)
      ultimately show ?thesis using n1 [unfolded cut_def, rule_format, of q'] i' by auto
    qed
    have "?U (x # xs) = insert q (?U xs)" using False x by auto
    moreover have "act_for ?f (map (\<lambda>(pkg, q). (pkg, abs_path q)) (x # xs)) G = (G', Inr ())
        \<longleftrightarrow> act_for ?f ?ys G1 = (G', Inr ())" for G'
      using one by (simp add: x act_for_Cons_Inr False)
    moreover have "\<exists>G'. act_for ?f ?ys G1 = (G', Inr ()) \<and> tree_ok G' \<and> pruned md (insert q D \<union> ?U xs) F G'"
      by (rule Cons.IH [OF G1 _ later]) (use Cons.prems(5) in auto)
    ultimately show ?thesis by simp
  qed
qed

text \<open>C36: Synchronising \<^verbatim>\<open>node_modules\<close> succeeds and leaves just what is asked for: every installed
  package whose name is not desired is gone with all below it, every other node is as it was, and
  a scope directory is gone only if nothing is left in it; no scope is emptied and kept.\<close>

theorem sync_removes_stale_packages:
  assumes m: "modules_ok F md" and dn: "distinct (map fst (fs_nodes F))"
  shows "\<exists>F'. sync_direct_dependency_links (abs_path md) desired F = (F', Inr ()) \<and> tree_ok F'
    \<and> pruned md {q. \<exists>pkg. installed_package F md pkg q \<and> pkg \<notin> set desired} F F'"
proof -
  from listed [OF m dn] obtain xs where
    xs: "current_direct_dependency_paths F (abs_path md) = Inr (map (\<lambda>(pkg, q). (pkg, abs_path q)) xs)"
    "distinct (map snd xs)" "\<And>pkg q. (pkg, q) \<in> set xs \<longleftrightarrow> installed_package F md pkg q" by blast
  have "fs_exists F (abs_path md)"
    using lookup_node [OF modules_okD(1,2) [OF m], of True]
    by (simp add: fs_exists_def fs_metadata_def guarded_def modules_okD(3) [OF m])
  moreover have "\<exists>G'. act_for (\<lambda>(package_name, path). if package_name \<in> set desired then act_return ()
           else act_then (remove_path path) (remove_empty_scope (abs_path md) path))
         (map (\<lambda>(pkg, q). (pkg, abs_path q)) xs) F = (G', Inr ())
    \<and> tree_ok G' \<and> pruned md ({} \<union> {q. \<exists>pkg. (pkg, q) \<in> set xs \<and> pkg \<notin> set desired}) F G'"
    by (rule remove_all [OF m modules_okD(1) [OF m] modules_okD(3) [OF m] pruned_start modules_okD(2) [OF m] xs(2)])
      (simp add: xs(3) installed_package_def)
  ultimately show ?thesis by (simp add: sync_direct_dependency_links_def act_simps xs(1,3))
qed

text \<open>A scope with a desired package and a stale one, beside a stale package.\<close>

definition modules_fs :: fs where
  "modules_fs =
     empty_fs\<lparr>fs_nodes := [([''m''], Dir), ([''m'', ''a''], Symlink (abs_path [''x''])),
              ([''m'', ''@s''], Dir), ([''m'', ''@s'', ''b''], Symlink (abs_path [''y''])),
              ([''m'', ''@s'', ''c''], Symlink (abs_path [''z'']))]\<rparr>"

theorem sync_removes_stale_packages_witness:
  "\<exists>F'. sync_direct_dependency_links (abs_path [''m'']) [''@s/b''] modules_fs = (F', Inr ())
     \<and> node_at F' [''m'', ''a''] = None \<and> node_at F' [''m'', ''@s'', ''c''] = None
     \<and> node_at F' [''m'', ''@s'', ''b''] = Some (Symlink (abs_path [''y'']))"
proof -
  have n: "node_at modules_fs q = (if q = [] \<or> q = [''m''] \<or> q = [''m'', ''@s''] then Some Dir
      else if q = [''m'', ''a''] then Some (Symlink (abs_path [''x'']))
      else if q = [''m'', ''@s'', ''b''] then Some (Symlink (abs_path [''y'']))
      else if q = [''m'', ''@s'', ''c''] then Some (Symlink (abs_path [''z''])) else None)" for q
    by (auto simp: node_at_def modules_fs_def)
  have "tree_ok modules_fs" by (auto simp: tree_ok_def n split: if_splits)
  moreover have "\<not> linked_scopes modules_fs [''m'']"
    by (auto simp: linked_scopes_def n starts_with_char_def split: if_splits)
  ultimately have m: "modules_ok modules_fs [''m'']" by (simp add: modules_ok_def n) (simp add: modules_fs_def empty_fs_def)
  have dn: "distinct (map fst (fs_nodes modules_fs))" by (simp add: modules_fs_def)
  from sync_removes_stale_packages [OF m dn, of "[''@s/b'']"] obtain F' where
    run: "sync_direct_dependency_links (abs_path [''m'']) [''@s/b''] modules_fs = (F', Inr ())"
    and p: "pruned [''m''] {q. \<exists>pkg. installed_package modules_fs [''m''] pkg q \<and> pkg \<notin> set [''@s/b'']} modules_fs F'"
    by blast
  have sc: "scope_dir modules_fs [''m''] nm \<longleftrightarrow> nm = ''@s''" for nm
    by (cases "nm = ''@s''") (simp_all add: scope_dir_def n starts_with_char_def)
  have "installed_package modules_fs [''m''] ''a'' [''m'', ''a'']" "installed_package modules_fs [''m''] ''@s/c'' [''m'', ''@s'', ''c'']"
    by (simp_all add: installed_package_def n sc starts_with_char_def)
  then have "node_at F' [''m'', ''a''] = None \<and> node_at F' [''m'', ''@s'', ''c''] = None"
    by (intro conjI prunedD(1) [OF p] CollectI) (rule exI, erule conjI, simp)+
  moreover have "node_at F' [''m'', ''@s'', ''b''] = node_at modules_fs [''m'', ''@s'', ''b'']"
  proof -
    have "\<nexists>q. q \<in> {q. \<exists>pkg. installed_package modules_fs [''m''] pkg q \<and> pkg \<notin> set [''@s/b'']} \<and> prefix q [''m'', ''@s'', ''b'']"
      by (auto simp: installed_package_def sc)
    then show ?thesis by (rule prunedD(2) [OF p]) simp
  qed
  ultimately show ?thesis using run by (auto simp: n)
qed

end
