(* ===== verification/Store_Maintenance.thy ===== *)
theory Store_Maintenance
  imports Store_Dir
begin

text \<open>
  The upkeep of the store: \<^verbatim>\<open>prune.rs\<close> and \<^verbatim>\<open>status.rs\<close> of \<^verbatim>\<open>crates/store-dir\<close>. A directory is read
  at once; the parallel check of \<^verbatim>\<open>status\<close> runs in the order of the files.
\<close>

section \<open>Index files\<close>

definition is_index_path :: "path \<Rightarrow> bool" where
  "is_index_path p = (case path_file_name p of None \<Rightarrow> False | Some nm \<Rightarrow> ends_with ''-index.json'' nm)"

definition entry_paths :: "(path \<Rightarrow> io_kind \<Rightarrow> 'e) \<Rightarrow> fs \<Rightarrow> path \<Rightarrow> 'e failure + path list" where
  "entry_paths read_dir_error F dir =
     map_err (\<lambda>e. Err (read_dir_error dir e)) (map_ok (map (\<lambda>nm. path_join dir [Normal nm])) (fs_read_dir F dir))"

text \<open>The two files each have this function, up to the error of a directory that cannot be read.\<close>

definition find_index_files :: "(path \<Rightarrow> io_kind \<Rightarrow> 'e) \<Rightarrow> store_dir \<Rightarrow> fs \<Rightarrow> 'e failure + path list" where
  "find_index_files read_dir_error S F =
     (let files_dir = store_files S
      in if \<not> fs_exists F files_dir then Inr []
         else
           rbind (entry_paths read_dir_error F files_dir) (\<lambda>heads.
           map_ok concat (traverse (\<lambda>head_path.
             if \<not> fs_is_dir F head_path then Inr []
             else map_ok (filter (\<lambda>path. fs_is_file F path \<and> is_index_path path))
                    (entry_paths read_dir_error F head_path)) heads)))"

section \<open>prune\<close>

datatype prune_error =
    PruneReadDir path io_kind
  | PruneParseIndexFile path string
  | PruneParseIntegrity path string
  | PruneRemovePath path io_kind

definition prune_index_file_paths :: "store_dir \<Rightarrow> fs \<Rightarrow> prune_error failure + path list" where
  "prune_index_file_paths = find_index_files PruneReadDir"

definition index_references ::
    "store_lib \<Rightarrow> store_dir \<Rightarrow> path \<Rightarrow> package_files_index \<Rightarrow> prune_error failure + path list" where
  "index_references L S index_path index =
     traverse (\<lambda>(_, file_info).
       rbind (map_err (\<lambda>e. Err (PruneParseIntegrity index_path e)) (integrity_from_str L (fi_integrity file_info)))
         (\<lambda>i. let is_executable = (fi_mode file_info AND 0x49 = 0x49)
              in cas_file_path_by_integrity L S i is_executable))
       (ix_files index)"

definition referenced_store_files :: "store_lib \<Rightarrow> store_dir \<Rightarrow> fs \<Rightarrow> prune_error failure + path list" where
  "referenced_store_files L S F =
     rbind (prune_index_file_paths S F) (\<lambda>index_paths.
     map_ok concat (traverse (\<lambda>index_path.
       rbind (map_err (\<lambda>e. Err (PruneReadDir index_path e)) (fs_read_to_string F index_path)) (\<lambda>contents.
       rbind (map_err (\<lambda>e. Err (PruneParseIndexFile index_path e)) (index_from_str L contents)) (\<lambda>index.
       index_references L S index_path index))) index_paths))"

definition prune_entry :: "path list \<Rightarrow> path \<Rightarrow> (fs, prune_error failure, unit) action" where
  "prune_entry referenced_files path =
     act_bind (act_read (\<lambda>F. Inr (\<not> fs_is_file F path))) (\<lambda>no_file.
     if no_file \<or> is_index_path path \<or> path \<in> set referenced_files then act_return ()
     else act_map_err (\<lambda>e. Err (PruneRemovePath path e)) (act_call (\<lambda>F. fs_remove_file F path)))"

definition prune_head :: "path list \<Rightarrow> path \<Rightarrow> (fs, prune_error failure, unit) action" where
  "prune_head referenced_files head_path =
     act_bind (act_read (\<lambda>F. Inr (fs_is_dir F head_path))) (\<lambda>dir.
     if \<not> dir then act_return ()
     else act_bind (act_read (\<lambda>F. entry_paths PruneReadDir F head_path)) (\<lambda>paths.
          act_for (prune_entry referenced_files) paths))"

definition remove_orphan_cas_files :: "store_dir \<Rightarrow> path list \<Rightarrow> (fs, prune_error failure, unit) action" where
  "remove_orphan_cas_files S referenced_files =
     (let files_dir = store_files S
      in act_bind (act_read (\<lambda>F. Inr (fs_exists F files_dir))) (\<lambda>there.
         if \<not> there then act_return ()
         else act_bind (act_read (\<lambda>F. entry_paths PruneReadDir F files_dir)) (\<lambda>heads.
              act_for (prune_head referenced_files) heads)))"

definition clear_tmp_entry :: "path \<Rightarrow> (fs, prune_error failure, unit) action" where
  "clear_tmp_entry path =
     act_map_err (\<lambda>e. Err (PruneRemovePath path e))
       (act_call (\<lambda>F. if fs_is_dir F path then fs_remove_dir_all F path else fs_remove_file F path))"

definition clear_tmp_dir :: "store_dir \<Rightarrow> (fs, prune_error failure, unit) action" where
  "clear_tmp_dir S =
     (let tmp_dir = store_tmp S
      in act_bind (act_read (\<lambda>F. Inr (fs_exists F tmp_dir))) (\<lambda>there.
         if \<not> there then act_return ()
         else act_bind (act_read (\<lambda>F. entry_paths PruneReadDir F tmp_dir)) (\<lambda>paths.
              act_for clear_tmp_entry paths)))"

definition prune :: "store_lib \<Rightarrow> store_dir \<Rightarrow> (fs, prune_error failure, unit) action" where
  "prune L S =
     act_bind (act_read (referenced_store_files L S)) (\<lambda>referenced_files.
     act_then (remove_orphan_cas_files S referenced_files) (clear_tmp_dir S))"

section \<open>status\<close>

record store_status =
  ss_checked_packages :: nat
  ss_checked_files :: nat

datatype store_status_error =
    StatusReadDir path io_kind
  | StatusParseIndexFile path string
  | StatusParseIntegrity path string
  | StatusReadStoreFile path io_kind
  | StatusVerifyStoreFile path string

definition index_file_paths :: "store_dir \<Rightarrow> fs \<Rightarrow> store_status_error failure + path list" where
  "index_file_paths = find_index_files StatusReadDir"

text \<open>\<^verbatim>\<open>entry(..).or_insert(..)\<close> for the files of an index, in their order.\<close>

fun add_unique_files ::
    "store_lib \<Rightarrow> store_dir \<Rightarrow> path \<Rightarrow> (string \<times> package_file_info) list \<Rightarrow> (path \<times> integrity) list
     \<Rightarrow> store_status_error failure + (path \<times> integrity) list" where
  "add_unique_files L S index_path [] unique_files = Inr unique_files"
| "add_unique_files L S index_path ((_, file_info) # rest) unique_files =
     rbind (map_err (\<lambda>e. Err (StatusParseIntegrity index_path e)) (integrity_from_str L (fi_integrity file_info)))
       (\<lambda>i. let is_executable = (fi_mode file_info AND 0x49 = 0x49)
            in rbind (cas_file_path_by_integrity L S i is_executable) (\<lambda>store_path.
               add_unique_files L S index_path rest
                 (if map_of unique_files store_path = None then unique_files @ [(store_path, i)] else unique_files)))"

fun collect_unique_files ::
    "store_lib \<Rightarrow> store_dir \<Rightarrow> fs \<Rightarrow> path list \<Rightarrow> (path \<times> integrity) list
     \<Rightarrow> store_status_error failure + (path \<times> integrity) list" where
  "collect_unique_files L S F [] unique_files = Inr unique_files"
| "collect_unique_files L S F (index_path # rest) unique_files =
     rbind (map_err (\<lambda>e. Err (StatusReadDir index_path e)) (fs_read_to_string F index_path)) (\<lambda>contents.
     rbind (map_err (\<lambda>e. Err (StatusParseIndexFile index_path e)) (index_from_str L contents)) (\<lambda>index.
     rbind (add_unique_files L S index_path (ix_files index) unique_files) (\<lambda>unique_files.
     collect_unique_files L S F rest unique_files)))"

definition verify_store_file :: "store_lib \<Rightarrow> fs \<Rightarrow> path \<times> integrity \<Rightarrow> store_status_error failure + unit" where
  "verify_store_file L F = (\<lambda>(path, i).
     rbind (map_err (\<lambda>e. Err (StatusReadStoreFile path e)) (fs_read F path)) (\<lambda>contents.
     map_err (\<lambda>e. Err (StatusVerifyStoreFile path e)) (map_ok (\<lambda>_. ()) (integrity_check L i contents))))"

definition status :: "store_lib \<Rightarrow> store_dir \<Rightarrow> fs \<Rightarrow> store_status_error failure + store_status" where
  "status L S F =
     rbind (index_file_paths S F) (\<lambda>index_paths.
     rbind (collect_unique_files L S F index_paths []) (\<lambda>unique_files.
     rbind (traverse (verify_store_file L F) unique_files) (\<lambda>_.
     Inr \<lparr> ss_checked_packages = length index_paths, ss_checked_files = length unique_files \<rparr>)))"

end
