(* ===== verification/Store_Upkeep.thy ===== *)
theory Store_Upkeep
  imports Store_Maintenance
begin

text \<open>
  What \<^verbatim>\<open>prune\<close> removes, and what \<^verbatim>\<open>status\<close> promises. Both are proved for a store whose
  directories are real ones and whose calls do not fail.
\<close>

section \<open>Removing nodes\<close>

lemma del_nodes_del_nodes: "del_nodes P (del_nodes Q F) = del_nodes (\<lambda>x. P x \<or> Q x) F"
  by (simp add: del_nodes_def conj_commute)

lemma del_nodes_cong:
  "(\<And>q. node_at F q \<noteq> None \<Longrightarrow> P q = Q q) \<Longrightarrow> del_nodes P F = del_nodes Q F"
proof -
  assume *: "\<And>q. node_at F q \<noteq> None \<Longrightarrow> P q = Q q"
  have "P (fst e) = Q (fst e)" if "e \<in> set (fs_nodes F)" for e
  proof (rule *)
    show "node_at F (fst e) \<noteq> None" using that by (cases "fst e = []") (simp_all add: node_at_def map_of_eq_None_iff)
  qed
  then have "filter (\<lambda>e. \<not> P (fst e)) (fs_nodes F) = filter (\<lambda>e. \<not> Q (fst e)) (fs_nodes F)"
    by (intro filter_cong) simp_all
  then show ?thesis by (simp add: del_nodes_def)
qed

lemma dir_names_del_nodes: "dir_names (del_nodes P F) d = filter (\<lambda>n. \<not> P (d @ [n])) (dir_names F d)"
proof -
  have "filter (\<lambda>e. fst e \<noteq> [] \<and> butlast (fst e) = d) (filter (\<lambda>e. \<not> P (fst e)) xs)
      = filter (\<lambda>e. \<not> P (d @ [last (fst e)])) (filter (\<lambda>e. fst e \<noteq> [] \<and> butlast (fst e) = d) xs)"
    for xs :: "(names \<times> node) list"
    by (induction xs) (auto simp: append_butlast_last_id)
  then show ?thesis by (simp add: dir_names_def del_nodes_def filter_map comp_def)
qed

section \<open>Stores\<close>

definition store_ok :: "fs \<Rightarrow> names \<Rightarrow> bool" where
  "store_ok F r \<longleftrightarrow>
     tree_ok F \<and> (\<forall>c p. fs_fault F c p = None) \<and> plain F r
     \<and> (\<forall>q t. node_at F (r @ q) \<noteq> Some (Symlink t)) \<and> distinct (map fst (fs_nodes F))"

text \<open>A set of nodes that can go: with a directory all that is in it.\<close>

definition closed_below :: "fs \<Rightarrow> (names \<Rightarrow> bool) \<Rightarrow> bool" where
  "closed_below F P \<longleftrightarrow> \<not> P [] \<and> (\<forall>q n. P q \<longrightarrow> node_at F (q @ [n]) \<noteq> None \<longrightarrow> P (q @ [n]))"

lemma store_okD:
  assumes "store_ok F r"
  shows "tree_ok F" "fs_fault F c p = None" "plain F (r @ q)" "distinct (map fst (fs_nodes F))"
proof -
  show "plain F (r @ q)"
  proof (induction q rule: rev_induct)
    case Nil
    then show ?case using assms by (simp add: store_ok_def)
  next
    case (snoc n q)
    then show ?case using assms plain_snoc [of F "r @ q" n] by (simp add: store_ok_def)
  qed
qed (use assms in \<open>simp_all add: store_ok_def\<close>)

lemma store_ok_del_nodes:
  assumes "store_ok F r" and "closed_below F P"
  shows "store_ok (del_nodes P F) r"
proof -
  have "tree_ok (del_nodes P F)"
    using assms by (intro tree_ok_del_nodes) (auto simp: closed_below_def store_ok_def)
  moreover have "plain (del_nodes P F) r" using assms(1)
    by (auto simp: plain_def store_ok_def node_at_del_nodes split: if_splits)
  moreover have "distinct (map fst (fs_nodes (del_nodes P F)))"
    using assms(1) by (simp add: del_nodes_def store_ok_def distinct_map_filter)
  ultimately show ?thesis using assms(1) by (auto simp: store_ok_def node_at_del_nodes split: if_splits)
qed

lemma store_calls:
  assumes "store_ok F r"
  shows "fs_exists F (abs_path (r @ q)) \<longleftrightarrow> node_at F (r @ q) \<noteq> None"
    and "fs_is_dir F (abs_path (r @ q)) \<longleftrightarrow> node_at F (r @ q) = Some Dir"
    and "fs_is_file F (abs_path (r @ q)) \<longleftrightarrow> (\<exists>i. node_at F (r @ q) = Some (File i))"
proof -
  note ok = store_okD [OF assms]
  show "fs_exists F (abs_path (r @ q)) \<longleftrightarrow> node_at F (r @ q) \<noteq> None"
    by (rule exists_iff [OF ok(1,3,2)])
  have l: "lookup F True (abs_path (r @ q)) = Found p nd \<longleftrightarrow> p = r @ q \<and> node_at F (r @ q) = Some nd" for p nd
    by (rule lookup_Found_iff [OF ok(1,3)])
  have some: "fs_metadata F (abs_path (r @ q)) = Inr (r @ q, nd)" if "node_at F (r @ q) = Some nd" for nd
    using l [of "r @ q" nd] that by (simp add: fs_metadata_def guarded_def ok(2))
  have none: "\<exists>e. fs_metadata F (abs_path (r @ q)) = Inl e" if "node_at F (r @ q) = None"
    using exists_iff [OF ok(1,3,2), of q] that
    by (cases "fs_metadata F (abs_path (r @ q))") (auto simp: fs_exists_def is_ok_def)
  have "(fs_is_dir F (abs_path (r @ q)) \<longleftrightarrow> node_at F (r @ q) = Some Dir)
    \<and> (fs_is_file F (abs_path (r @ q)) \<longleftrightarrow> (\<exists>i. node_at F (r @ q) = Some (File i)))"
  proof (cases "node_at F (r @ q)")
    case None
    from none [OF this] show ?thesis by (auto simp: fs_is_dir_def fs_is_file_def None)
  next
    case (Some nd)
    show ?thesis by (cases nd) (simp_all add: fs_is_dir_def fs_is_file_def some [OF Some] Some)
  qed
  then show "fs_is_dir F (abs_path (r @ q)) \<longleftrightarrow> node_at F (r @ q) = Some Dir"
    and "fs_is_file F (abs_path (r @ q)) \<longleftrightarrow> (\<exists>i. node_at F (r @ q) = Some (File i))" by simp_all
qed

lemma entry_paths_dir:
  assumes "store_ok F r" and "node_at F (r @ q) = Some Dir"
  shows "entry_paths err F (abs_path (r @ q)) = Inr (map (\<lambda>n. abs_path (r @ q @ [n])) (dir_names F (r @ q)))"
  using read_dir_node [OF store_okD(1) [OF assms(1)] assms(2)] store_okD(2) [OF assms(1)]
  by (simp add: entry_paths_def)

lemma entry_paths_Inr:
  assumes "store_ok F r" and "entry_paths err F (abs_path (r @ q)) = Inr ps"
  shows "node_at F (r @ q) = Some Dir"
proof -
  from assms(2) obtain p where "lookup F True (abs_path (r @ q)) = Found p Dir"
    by (auto simp: entry_paths_def fs_read_dir_def guarded_Inr result_simps split: resolved.splits node.splits)
  then show ?thesis using lookup_Found_iff [OF store_okD(1,3) [OF assms(1)], of True] by simp
qed

lemma is_index_path_abs: "is_index_path (abs_path (d @ [n])) \<longleftrightarrow> ends_with ''-index.json'' n"
proof -
  have "abs_path (d @ [n]) = abs_path d @ [Normal n]" by (simp add: abs_path_def)
  then show ?thesis by (simp only: is_index_path_def path_file_name_snoc option.case)
qed

section \<open>The files of the store\<close>

definition files_names :: "names \<Rightarrow> names" where "files_names r = r @ [''v3'', ''files'']"
definition tmp_names :: "names \<Rightarrow> names" where "tmp_names r = r @ [''v3'', ''tmp'']"

lemma store_abs:
  "sd_root S = abs_path r \<Longrightarrow> store_files S = abs_path (files_names r)"
  "sd_root S = abs_path r \<Longrightarrow> store_tmp S = abs_path (tmp_names r)"
  by (simp_all add: store_dirs files_names_def tmp_names_def abs_path_def)

text \<open>A file that no index names.\<close>

definition orphan :: "fs \<Rightarrow> names \<Rightarrow> path list \<Rightarrow> names \<Rightarrow> bool" where
  "orphan F r refs q \<longleftrightarrow>
     (\<exists>h n i. q = files_names r @ [h, n] \<and> node_at F q = Some (File i)
        \<and> \<not> ends_with ''-index.json'' n \<and> abs_path q \<notin> set refs)"

lemma orphan_closed: "tree_ok F \<Longrightarrow> (\<And>q. P q \<Longrightarrow> orphan F r refs q) \<Longrightarrow> closed_below F P"
  unfolding closed_below_def orphan_def using tree_okD(1) [of F] by fastforce

lemma prune_entry_run:
  assumes ok: "store_ok F r" and P: "\<And>q. P q \<Longrightarrow> orphan F r refs q"
    and q: "q = files_names r @ [h, n]" "\<not> P q"
  shows "prune_entry refs (abs_path q) (del_nodes P F)
    = (del_nodes (\<lambda>x. x = q \<and> orphan F r refs x \<or> P x) F, Inr ())"
proof -
  let ?G = "del_nodes P F"
  have G: "store_ok ?G r" by (rule store_ok_del_nodes [OF ok orphan_closed [OF store_okD(1) [OF ok] P]])
  have qr: "q = r @ [''v3'', ''files'', h, n]" by (simp add: q files_names_def)
  have n: "node_at ?G q = node_at F q" using q by (simp add: node_at_del_nodes)
  have idx: "is_index_path (abs_path q) \<longleftrightarrow> ends_with ''-index.json'' n"
    using is_index_path_abs [of "files_names r @ [h]" n] by (simp add: q)
  have isf: "fs_is_file ?G (abs_path q) \<longleftrightarrow> (\<exists>i. node_at F q = Some (File i))"
    using store_calls(3) [OF G, of "[''v3'', ''files'', h, n]"] n by (simp add: qr)
  show ?thesis
  proof (cases "orphan F r refs q")
    case True
    then obtain i where i: "node_at F q = Some (File i)" "\<not> ends_with ''-index.json'' n" "abs_path q \<notin> set refs"
      using q by (auto simp: orphan_def)
    have "fs_remove_file ?G (abs_path q) = Inr (del_nodes (\<lambda>x. x = q) ?G)"
      using lookup_node [OF store_okD(1) [OF G], of q "File i" False] i n
      by (simp add: fs_remove_file_def guarded_def store_okD(2) [OF ok])
    moreover have "del_nodes (\<lambda>x. x = q) ?G = del_nodes (\<lambda>x. x = q \<and> orphan F r refs x \<or> P x) F"
      unfolding del_nodes_del_nodes using True by (intro del_nodes_cong) auto
    ultimately show ?thesis using i idx isf by (simp add: prune_entry_def act_simps)
  next
    case False
    then have "\<not> fs_is_file ?G (abs_path q) \<or> is_index_path (abs_path q) \<or> abs_path q \<in> set refs"
      using isf idx q by (auto simp: orphan_def)
    moreover have "?G = del_nodes (\<lambda>x. x = q \<and> orphan F r refs x \<or> P x) F"
      using False by (intro del_nodes_cong) auto
    ultimately show ?thesis by (auto simp: prune_entry_def act_simps)
  qed
qed

lemma prune_entries_run:
  assumes ok: "store_ok F r" and P: "\<And>q. P q \<Longrightarrow> orphan F r refs q"
    and ns: "distinct ns" "\<And>n. n \<in> set ns \<Longrightarrow> \<not> P (files_names r @ [h, n])"
  shows "act_for (prune_entry refs) (map (\<lambda>n. abs_path (files_names r @ [h, n])) ns) (del_nodes P F)
    = (del_nodes (\<lambda>x. (\<exists>n \<in> set ns. x = files_names r @ [h, n] \<and> orphan F r refs x) \<or> P x) F, Inr ())"
  using P ns
proof (induction ns arbitrary: P)
  case Nil
  then show ?case by (simp add: act_return_def)
next
  case (Cons n ns)
  let ?q = "files_names r @ [h, n]"
  let ?P = "\<lambda>x. x = ?q \<and> orphan F r refs x \<or> P x"
  have one: "prune_entry refs (abs_path ?q) (del_nodes P F) = (del_nodes ?P F, Inr ())"
    using Cons.prems by (intro prune_entry_run [OF ok]) auto
  have "act_for (prune_entry refs) (map (\<lambda>n. abs_path (files_names r @ [h, n])) ns) (del_nodes ?P F)
    = (del_nodes (\<lambda>x. (\<exists>n \<in> set ns. x = files_names r @ [h, n] \<and> orphan F r refs x) \<or> ?P x) F, Inr ())"
    using Cons.prems by (intro Cons.IH) auto
  also have "del_nodes (\<lambda>x. (\<exists>n \<in> set ns. x = files_names r @ [h, n] \<and> orphan F r refs x) \<or> ?P x) F
    = del_nodes (\<lambda>x. (\<exists>n' \<in> set (n # ns). x = files_names r @ [h, n'] \<and> orphan F r refs x) \<or> P x) F"
    by (intro del_nodes_cong) auto
  finally show ?case using one by (auto simp: act_for_Cons_Inr)
qed

lemma prune_head_run:
  assumes ok: "store_ok F r" and P: "\<And>q. P q \<Longrightarrow> orphan F r refs q"
    and h: "\<And>n. \<not> P (files_names r @ [h, n])"
  shows "prune_head refs (abs_path (files_names r @ [h])) (del_nodes P F)
    = (del_nodes (\<lambda>x. (\<exists>n. x = files_names r @ [h, n] \<and> orphan F r refs x) \<or> P x) F, Inr ())"
proof -
  let ?G = "del_nodes P F" and ?d = "files_names r @ [h]"
  have G: "store_ok ?G r" by (rule store_ok_del_nodes [OF ok orphan_closed [OF store_okD(1) [OF ok] P]])
  have d: "?d = r @ [''v3'', ''files'', h]" by (simp add: files_names_def)
  have notP: "\<not> P ?d" using P by (auto simp: orphan_def)
  then have nd: "node_at ?G ?d = node_at F ?d" by (simp add: node_at_del_nodes)
  have dir: "fs_is_dir ?G (abs_path ?d) \<longleftrightarrow> node_at F ?d = Some Dir"
    using store_calls(2) [OF G, of "[''v3'', ''files'', h]"] nd by (simp add: d)
  show ?thesis
  proof (cases "node_at F ?d = Some Dir")
    case True
    let ?ns = "dir_names F ?d"
    have names: "dir_names ?G ?d = ?ns" using h by (simp add: dir_names_del_nodes filter_id_conv)
    have "entry_paths PruneReadDir ?G (abs_path ?d) = Inr (map (\<lambda>n. abs_path (files_names r @ [h, n])) ?ns)"
      using entry_paths_dir [OF G, of "[''v3'', ''files'', h]" PruneReadDir] nd True names by (simp add: d)
    moreover have "act_for (prune_entry refs) (map (\<lambda>n. abs_path (files_names r @ [h, n])) ?ns) ?G
      = (del_nodes (\<lambda>x. (\<exists>n \<in> set ?ns. x = files_names r @ [h, n] \<and> orphan F r refs x) \<or> P x) F, Inr ())"
      using distinct_dir_names [OF store_okD(4) [OF ok]] h by (intro prune_entries_run [OF ok P]) auto
    moreover have "del_nodes (\<lambda>x. (\<exists>n \<in> set ?ns. x = files_names r @ [h, n] \<and> orphan F r refs x) \<or> P x) F
      = del_nodes (\<lambda>x. (\<exists>n. x = files_names r @ [h, n] \<and> orphan F r refs x) \<or> P x) F"
      by (intro del_nodes_cong) (auto simp: set_dir_names)
    ultimately show ?thesis using True dir by (simp add: prune_head_def act_simps)
  next
    case False
    have "?G = del_nodes (\<lambda>x. (\<exists>n. x = files_names r @ [h, n] \<and> orphan F r refs x) \<or> P x) F"
    proof (intro del_nodes_cong)
      fix q assume "node_at F q \<noteq> None"
      then show "P q = ((\<exists>n. q = files_names r @ [h, n] \<and> orphan F r refs q) \<or> P q)"
        using False tree_okD(1) [OF store_okD(1) [OF ok], of ?d] by auto
    qed
    with False dir show ?thesis by (simp add: prune_head_def act_simps)
  qed
qed

lemma prune_heads_run:
  assumes ok: "store_ok F r" and P: "\<And>q. P q \<Longrightarrow> orphan F r refs q"
    and hs: "distinct hs" "\<And>h n. h \<in> set hs \<Longrightarrow> \<not> P (files_names r @ [h, n])"
  shows "act_for (prune_head refs) (map (\<lambda>h. abs_path (files_names r @ [h])) hs) (del_nodes P F)
    = (del_nodes (\<lambda>x. (\<exists>h \<in> set hs. \<exists>n. x = files_names r @ [h, n] \<and> orphan F r refs x) \<or> P x) F, Inr ())"
  using P hs
proof (induction hs arbitrary: P)
  case Nil
  then show ?case by (simp add: act_return_def)
next
  case (Cons h hs)
  let ?P = "\<lambda>x. (\<exists>n. x = files_names r @ [h, n] \<and> orphan F r refs x) \<or> P x"
  have one: "prune_head refs (abs_path (files_names r @ [h])) (del_nodes P F) = (del_nodes ?P F, Inr ())"
    using Cons.prems by (intro prune_head_run [OF ok]) auto
  have "act_for (prune_head refs) (map (\<lambda>h. abs_path (files_names r @ [h])) hs) (del_nodes ?P F)
    = (del_nodes (\<lambda>x. (\<exists>h \<in> set hs. \<exists>n. x = files_names r @ [h, n] \<and> orphan F r refs x) \<or> ?P x) F, Inr ())"
    using Cons.prems by (intro Cons.IH) auto
  also have "del_nodes (\<lambda>x. (\<exists>h \<in> set hs. \<exists>n. x = files_names r @ [h, n] \<and> orphan F r refs x) \<or> ?P x) F
    = del_nodes (\<lambda>x. (\<exists>h \<in> set (h # hs). \<exists>n. x = files_names r @ [h, n] \<and> orphan F r refs x) \<or> P x) F"
    by (intro del_nodes_cong) auto
  finally show ?case using one by (auto simp: act_for_Cons_Inr)
qed

lemma remove_orphans_run:
  assumes ok: "store_ok F r" and S: "sd_root S = abs_path r"
    and dir: "\<forall>i. node_at F (files_names r) \<noteq> Some (File i)"
  shows "remove_orphan_cas_files S refs F = (del_nodes (orphan F r refs) F, Inr ())"
proof (cases "node_at F (files_names r)")
  case None
  have "del_nodes (orphan F r refs) F = del_nodes (\<lambda>_. False) F"
  proof (intro del_nodes_cong)
    fix q assume q: "node_at F q \<noteq> None"
    show "orphan F r refs q = False"
    proof
      assume "orphan F r refs q"
      then obtain h n i where "node_at F (files_names r @ [h, n]) = Some (File i)" by (auto simp: orphan_def)
      from tree_ok_prefix [OF store_okD(1) [OF ok] this] None show False by simp
    qed simp
  qed
  moreover have "del_nodes (\<lambda>_. False) F = F" by (simp add: del_nodes_def)
  moreover have "\<not> fs_exists F (abs_path (files_names r))"
    using store_calls(1) [OF ok, of "[''v3'', ''files'']"] None by (simp add: files_names_def)
  ultimately show ?thesis by (simp add: remove_orphan_cas_files_def store_abs [OF S] act_simps Let_def)
next
  case (Some nd)
  have "nd = Dir"
    using Some dir ok by (cases nd) (auto simp: store_ok_def files_names_def)
  with Some have f: "node_at F (files_names r) = Some Dir" by simp
  let ?hs = "dir_names F (files_names r)"
  have "entry_paths PruneReadDir F (abs_path (files_names r)) = Inr (map (\<lambda>h. abs_path (files_names r @ [h])) ?hs)"
    using entry_paths_dir [OF ok, of "[''v3'', ''files'']" PruneReadDir] f by (simp add: files_names_def)
  moreover have "act_for (prune_head refs) (map (\<lambda>h. abs_path (files_names r @ [h])) ?hs) (del_nodes (\<lambda>_. False) F)
    = (del_nodes (\<lambda>x. (\<exists>h \<in> set ?hs. \<exists>n. x = files_names r @ [h, n] \<and> orphan F r refs x) \<or> False) F, Inr ())"
    by (rule prune_heads_run [OF ok _ distinct_dir_names [OF store_okD(4) [OF ok]]]) simp_all
  moreover have "del_nodes (\<lambda>x. (\<exists>h \<in> set ?hs. \<exists>n. x = files_names r @ [h, n] \<and> orphan F r refs x) \<or> False) F
      = del_nodes (orphan F r refs) F"
  proof (intro del_nodes_cong)
    fix q assume q: "node_at F q \<noteq> None"
    show "((\<exists>h \<in> set ?hs. \<exists>n. q = files_names r @ [h, n] \<and> orphan F r refs q) \<or> False) = orphan F r refs q"
    proof
      assume o: "orphan F r refs q"
      then obtain h n i where hn: "q = files_names r @ [h, n]" "node_at F q = Some (File i)" by (auto simp: orphan_def)
      with tree_okD(1) [OF store_okD(1) [OF ok], of "files_names r @ [h]" n] have "h \<in> set ?hs"
        by (simp add: set_dir_names)
      with hn o show "(\<exists>h \<in> set ?hs. \<exists>n. q = files_names r @ [h, n] \<and> orphan F r refs q) \<or> False" by blast
    qed auto
  qed
  moreover have "del_nodes (\<lambda>_. False) F = F" by (simp add: del_nodes_def)
  moreover have "fs_exists F (abs_path (files_names r))"
    using store_calls(1) [OF ok, of "[''v3'', ''files'']"] f by (simp add: files_names_def)
  ultimately show ?thesis by (simp add: remove_orphan_cas_files_def store_abs [OF S] act_simps Let_def)
qed

section \<open>The temporary files\<close>

lemma tmp_below: "store_ok F r \<Longrightarrow> \<not> P [] \<Longrightarrow> (\<And>q n. P q \<Longrightarrow> P (q @ [n])) \<Longrightarrow> store_ok (del_nodes P F) r"
  by (rule store_ok_del_nodes) (auto simp: closed_below_def)

lemma clear_tmp_entry_run:
  assumes ok: "store_ok F r" and nd: "node_at F (tmp_names r @ [n]) = Some nd"
  shows "clear_tmp_entry (abs_path (tmp_names r @ [n])) F = (del_nodes (prefix (tmp_names r @ [n])) F, Inr ())"
proof -
  let ?q = "tmp_names r @ [n]"
  have q: "?q = r @ [''v3'', ''tmp'', n]" by (simp add: tmp_names_def)
  have l: "lookup F False (abs_path ?q) = Found ?q nd" by (rule lookup_node [OF store_okD(1) [OF ok] nd]) simp
  have dir: "fs_is_dir F (abs_path ?q) \<longleftrightarrow> nd = Dir" using store_calls(2) [OF ok, of "[''v3'', ''tmp'', n]"] nd by (simp add: q)
  show ?thesis
  proof (cases "nd = Dir")
    case True
    then show ?thesis
      using l dir by (simp add: clear_tmp_entry_def act_simps fs_remove_dir_all_def guarded_def store_okD(2) [OF ok])
  next
    case False
    have "del_nodes (\<lambda>x. x = ?q) F = del_nodes (prefix ?q) F"
    proof (intro del_nodes_cong)
      fix x assume x: "node_at F x \<noteq> None"
      show "(x = ?q) = prefix ?q x"
      proof
        assume "prefix ?q x"
        then obtain b where b: "x = ?q @ b" by (auto simp: prefix_def)
        with x tree_ok_prefix [OF store_okD(1) [OF ok], of ?q b] nd False show "x = ?q" by (cases "b = []") auto
      qed simp
    qed
    moreover obtain i where "nd = File i" using False nd ok by (cases nd) (auto simp: store_ok_def q)
    ultimately show ?thesis
      using l dir False by (simp add: clear_tmp_entry_def act_simps fs_remove_file_def guarded_def store_okD(2) [OF ok])
  qed
qed

lemma clear_tmp_entries_run:
  assumes "store_ok F r" and "distinct ns" and "\<And>n. n \<in> set ns \<Longrightarrow> node_at F (tmp_names r @ [n]) \<noteq> None"
  shows "act_for clear_tmp_entry (map (\<lambda>n. abs_path (tmp_names r @ [n])) ns) F
    = (del_nodes (\<lambda>x. \<exists>n \<in> set ns. prefix (tmp_names r @ [n]) x) F, Inr ())"
  using assms
proof (induction ns arbitrary: F)
  case Nil
  then show ?case by (simp add: act_return_def) (simp add: del_nodes_def)
next
  case (Cons n ns)
  let ?q = "tmp_names r @ [n]"
  let ?G = "del_nodes (prefix ?q) F"
  from Cons.prems(3) [of n] obtain nd where nd: "node_at F ?q = Some nd" by auto
  have G: "store_ok ?G r" by (rule tmp_below [OF Cons.prems(1)]) auto
  have "act_for clear_tmp_entry (map (\<lambda>n. abs_path (tmp_names r @ [n])) ns) ?G
    = (del_nodes (\<lambda>x. \<exists>n \<in> set ns. prefix (tmp_names r @ [n]) x) ?G, Inr ())"
    using Cons.prems by (intro Cons.IH [OF G]) (auto simp: node_at_del_nodes)
  moreover have "del_nodes (\<lambda>x. \<exists>n \<in> set ns. prefix (tmp_names r @ [n]) x) ?G
      = del_nodes (\<lambda>x. \<exists>n' \<in> set (n # ns). prefix (tmp_names r @ [n']) x) F"
    unfolding del_nodes_del_nodes by (intro del_nodes_cong) auto
  ultimately show ?case using clear_tmp_entry_run [OF Cons.prems(1) nd] by (auto simp: act_for_Cons_Inr)
qed

lemma clear_tmp_run:
  assumes ok: "store_ok F r" and S: "sd_root S = abs_path r"
    and dir: "\<forall>i. node_at F (tmp_names r) \<noteq> Some (File i)"
  shows "clear_tmp_dir S F = (del_nodes (strict_prefix (tmp_names r)) F, Inr ())"
proof -
  let ?ns = "dir_names F (tmp_names r)"
  have "del_nodes (\<lambda>x. \<exists>n \<in> set ?ns. prefix (tmp_names r @ [n]) x) F = del_nodes (strict_prefix (tmp_names r)) F"
  proof (intro del_nodes_cong)
    fix x assume x: "node_at F x \<noteq> None"
    show "(\<exists>n \<in> set ?ns. prefix (tmp_names r @ [n]) x) = strict_prefix (tmp_names r) x"
    proof
      assume "strict_prefix (tmp_names r) x"
      then obtain zs where zs: "x = tmp_names r @ zs" "zs \<noteq> []" by (auto simp: strict_prefix_def prefix_def)
      then obtain n b where b: "x = tmp_names r @ n # b" by (cases zs) auto
      then have "node_at F (tmp_names r @ [n]) \<noteq> None"
        using x tree_ok_prefix [OF store_okD(1) [OF ok], of "tmp_names r @ [n]" b] by (cases "b = []") auto
      then show "\<exists>n \<in> set ?ns. prefix (tmp_names r @ [n]) x" by (auto simp: set_dir_names b intro!: bexI [of _ n])
    qed (auto simp: strict_prefix_def prefix_def)
  qed
  note del = this
  show ?thesis
  proof (cases "node_at F (tmp_names r)")
    case None
    have "?ns = []"
    proof (rule ccontr)
      assume "?ns \<noteq> []"
      then obtain n nd where "node_at F (tmp_names r @ [n]) = Some nd" by (auto simp: dir_names_empty)
      from tree_okD(1) [OF store_okD(1) [OF ok] this] None show False by simp
    qed
    with del have "del_nodes (strict_prefix (tmp_names r)) F = F" by simp (simp add: del_nodes_def)
    moreover have "\<not> fs_exists F (abs_path (tmp_names r))"
      using store_calls(1) [OF ok, of "[''v3'', ''tmp'']"] None by (simp add: tmp_names_def)
    ultimately show ?thesis by (simp add: clear_tmp_dir_def store_abs [OF S] act_simps Let_def)
  next
    case (Some nd)
    then have t: "node_at F (tmp_names r) = Some Dir"
      using dir ok by (cases nd) (auto simp: store_ok_def tmp_names_def)
    have "entry_paths PruneReadDir F (abs_path (tmp_names r)) = Inr (map (\<lambda>n. abs_path (tmp_names r @ [n])) ?ns)"
      using entry_paths_dir [OF ok, of "[''v3'', ''tmp'']" PruneReadDir] t by (simp add: tmp_names_def)
    moreover have "fs_exists F (abs_path (tmp_names r))"
      using store_calls(1) [OF ok, of "[''v3'', ''tmp'']"] t by (simp add: tmp_names_def)
    moreover have "act_for clear_tmp_entry (map (\<lambda>n. abs_path (tmp_names r @ [n])) ?ns) F
      = (del_nodes (\<lambda>x. \<exists>n \<in> set ?ns. prefix (tmp_names r @ [n]) x) F, Inr ())"
      by (rule clear_tmp_entries_run [OF ok distinct_dir_names [OF store_okD(4) [OF ok]]]) (simp add: set_dir_names)
    ultimately show ?thesis by (simp add: clear_tmp_dir_def store_abs [OF S] act_simps Let_def del)
  qed
qed

section \<open>prune\<close>

lemma index_files_dir:
  assumes ok: "store_ok F r" and S: "sd_root S = abs_path r" and "find_index_files err S F = Inr ps"
  shows "\<forall>i. node_at F (files_names r) \<noteq> Some (File i)"
proof (cases "node_at F (files_names r)")
  case (Some nd)
  then have "fs_exists F (abs_path (files_names r))"
    using store_calls(1) [OF ok, of "[''v3'', ''files'']"] by (simp add: files_names_def)
  with assms(3) obtain hs where "entry_paths err F (abs_path (files_names r)) = Inr hs"
    by (auto simp: find_index_files_def store_abs [OF S] Let_def result_simps)
  with entry_paths_Inr [OF ok, of err "[''v3'', ''files'']"] show ?thesis by (simp add: files_names_def)
qed simp

lemma prune_outcome:
  assumes ok: "store_ok F r" and S: "sd_root S = abs_path r"
    and dir: "\<forall>i. node_at F (tmp_names r) \<noteq> Some (File i)"
  shows "prune L S F = (case referenced_store_files L S F of
      Inl e \<Rightarrow> (F, Inl e)
    | Inr refs \<Rightarrow> (del_nodes (\<lambda>q. orphan F r refs q \<or> strict_prefix (tmp_names r) q) F, Inr ()))"
proof (cases "referenced_store_files L S F")
  case (Inr refs)
  then obtain ps where "find_index_files PruneReadDir S F = Inr ps"
    by (auto simp: referenced_store_files_def prune_index_file_paths_def result_simps)
  from index_files_dir [OF ok S this] have f: "\<forall>i. node_at F (files_names r) \<noteq> Some (File i)" .
  let ?G = "del_nodes (orphan F r refs) F"
  have G: "store_ok ?G r" by (rule store_ok_del_nodes [OF ok orphan_closed [OF store_okD(1) [OF ok]]])
  have "\<not> orphan F r refs (tmp_names r)" by (auto simp: orphan_def files_names_def tmp_names_def)
  with dir have "\<forall>i. node_at ?G (tmp_names r) \<noteq> Some (File i)" by (simp add: node_at_del_nodes)
  from clear_tmp_run [OF G S this]
  have "clear_tmp_dir S ?G = (del_nodes (\<lambda>q. strict_prefix (tmp_names r) q \<or> orphan F r refs q) F, Inr ())"
    by (simp add: del_nodes_del_nodes)
  then show ?thesis
    using remove_orphans_run [OF ok S f, of refs] Inr by (simp add: prune_def act_simps disj_commute)
qed (simp add: prune_def act_simps)

section \<open>status\<close>

lemma resolve_same_way:
  assumes "\<forall>k t. node_at F (cur @ take k ns) \<noteq> Some (Symlink t)"
    and "\<forall>k. node_at F' (cur @ take k ns) = node_at F (cur @ take k ns)"
  shows "resolve F' f b cur (map Normal ns) = resolve F f b cur (map Normal ns)"
  using assms
proof (induction ns arbitrary: cur)
  case (Cons n ns)
  have one: "node_at F' (cur @ [n]) = node_at F (cur @ [n])" "\<And>t. node_at F (cur @ [n]) \<noteq> Some (Symlink t)"
    using Cons.prems(2) [rule_format, of 1] Cons.prems(1) [rule_format, of 1] by auto
  have "resolve F' f b (cur @ [n]) (map Normal ns) = resolve F f b (cur @ [n]) (map Normal ns)"
  proof (rule Cons.IH)
    show "\<forall>k t. node_at F ((cur @ [n]) @ take k ns) \<noteq> Some (Symlink t)"
      using Cons.prems(1) [rule_format, of "Suc k" for k] by simp
    show "\<forall>k. node_at F' ((cur @ [n]) @ take k ns) = node_at F ((cur @ [n]) @ take k ns)"
      using Cons.prems(2) [rule_format, of "Suc k" for k] by simp
  qed
  with one show ?case by (auto split: option.split node.split)
qed simp

lemma read_same_way:
  assumes "plain F ns" and "\<forall>k. node_at F' (take k ns) = node_at F (take k ns)"
    and "fs_inodes F' = fs_inodes F" and "fs_fault F' = fs_fault F"
  shows "fs_read F' (abs_path ns) = fs_read F (abs_path ns)"
proof -
  have "lookup F' True (abs_path ns) = lookup F True (abs_path ns)"
    unfolding lookup_abs using assms(1,2) by (intro resolve_same_way) (auto simp: plain_def)
  then show ?thesis by (simp only: fs_read_def guarded_def assms(3,4))
qed


text \<open>What \<^verbatim>\<open>ssri\<close> promises: a digest in hexadecimal.\<close>

definition hex_lib :: "store_lib \<Rightarrow> bool" where
  "hex_lib L \<longleftrightarrow> (\<forall>i. hex_ok (snd (integrity_to_hex L i)))"

lemma cas_path_names:
  assumes "hex_lib L" and "sd_root S = abs_path r" and "cas_file_path_by_integrity L S i ex = Inr p"
  shows "\<exists>h n. p = abs_path (files_names r @ [h, n])"
proof -
  have "hex_ok (snd (integrity_to_hex L i))" using assms(1) by (simp add: hex_lib_def)
  with assms(2,3) show ?thesis
    by (auto simp: cas_file_path_by_integrity_def file_path_by_hex_str_ok files_names_def abs_path_def
        split: prod.splits if_splits)
qed

lemma traverse_member: "traverse f xs = Inr ys \<Longrightarrow> y \<in> set ys \<Longrightarrow> \<exists>x \<in> set xs. f x = Inr y"
  by (induction xs arbitrary: ys) (auto simp: rbind_eq_Inr map_ok_eq_Inr)

lemma index_reference_paths:
  assumes "index_references L S p ix = Inr refs" and "hex_lib L" and "sd_root S = abs_path r" and "x \<in> set refs"
  shows "\<exists>h n. x = abs_path (files_names r @ [h, n])"
proof -
  from traverse_member [OF assms(1) [unfolded index_references_def] assms(4)]
  obtain e where e: "(\<lambda>(_ :: string, file_info :: package_file_info). rbind (map_err (\<lambda>e. Err (PruneParseIntegrity p e)) (integrity_from_str L (fi_integrity file_info)))
         (\<lambda>i. let is_executable = (fi_mode file_info AND 0x49 = 0x49) in cas_file_path_by_integrity L S i is_executable)) e = Inr x"
    by blast
  obtain nm fi where "e = (nm, fi)" by (cases e)
  with e obtain i where "cas_file_path_by_integrity L S i (fi_mode fi AND 0x49 = 0x49) = (Inr x :: prune_error failure + path)"
    by (auto simp: result_simps Let_def)
  then show ?thesis by (rule cas_path_names [OF assms(2,3)])
qed

lemma cas_path_err:
  "(cas_file_path_by_integrity L S i ex :: 'e failure + path) = Inr p
     \<Longrightarrow> (cas_file_path_by_integrity L S i ex :: 'f failure + path) = Inr p"
  by (auto simp: cas_file_path_by_integrity_def file_path_by_hex_str_def Let_def split: prod.splits if_splits)

text \<open>The files a \<^verbatim>\<open>status\<close> looks at are among those \<^verbatim>\<open>prune\<close> takes for referenced.\<close>

lemma unique_files_referenced:
  assumes "add_unique_files L S p fs uf = Inr uf'"
    and "\<And>refs. index_references L S q \<lparr> ix_files = fs \<rparr> = Inr refs \<Longrightarrow> set refs \<subseteq> R"
    and "\<exists>refs. index_references L S q \<lparr> ix_files = fs \<rparr> = Inr refs" and "fst ` set uf \<subseteq> R"
  shows "fst ` set uf' \<subseteq> R"
  using assms
proof (induction L S p fs uf rule: add_unique_files.induct)
  case (2 L S p nm file_info rest uf)
  from "2.prems"(1) obtain i sp where i: "integrity_from_str L (fi_integrity file_info) = Inr i"
    and sp: "cas_file_path_by_integrity L S i (fi_mode file_info AND 0x49 = 0x49) = (Inr sp :: store_status_error failure + path)"
    and rest: "add_unique_files L S p rest (if map_of uf sp = None then uf @ [(sp, i)] else uf) = Inr uf'"
    by (auto simp: result_simps Let_def)
  have sp': "cas_file_path_by_integrity L S i (fi_mode file_info AND 0x49 = 0x49) = (Inr sp :: prune_error failure + path)"
    by (rule cas_path_err [OF sp])
  have step: "index_references L S q \<lparr> ix_files = (nm, file_info) # rest \<rparr>
      = map_ok (\<lambda>r. sp # r) (index_references L S q \<lparr> ix_files = rest \<rparr>)"
    by (simp add: index_references_def i sp' Let_def)
  show ?case
  proof (rule "2.IH" [OF _ refl sp rest])
    show "\<exists>refs. index_references L S q \<lparr> ix_files = rest \<rparr> = Inr refs" using "2.prems"(3) by (auto simp: step result_simps)
    show "set refs \<subseteq> R" if "index_references L S q \<lparr> ix_files = rest \<rparr> = Inr refs" for refs
      using "2.prems"(2) [of "sp # refs"] that by (simp add: step)
    have "sp \<in> R" using "2.prems"(2,3) by (auto simp: step result_simps)
    with "2.prems"(4) show "fst ` set (if map_of uf sp = None then uf @ [(sp, i)] else uf) \<subseteq> R" by auto
  qed (simp add: i)
qed auto

text \<open>What \<^verbatim>\<open>prune\<close> removes is no index file and no directory of the store.\<close>

definition prunable :: "fs \<Rightarrow> names \<Rightarrow> path list \<Rightarrow> names \<Rightarrow> bool" where
  "prunable F r refs q \<longleftrightarrow> orphan F r refs q \<or> strict_prefix (tmp_names r) q"

lemma not_prunable:
  "\<not> prunable F r refs (files_names r)" "\<not> prunable F r refs (files_names r @ [h])"
  "ends_with ''-index.json'' n \<Longrightarrow> \<not> prunable F r refs (files_names r @ [h, n])"
  "abs_path (files_names r @ [h, n]) \<in> set refs \<Longrightarrow> \<not> prunable F r refs (files_names r @ [h, n])"
  by (auto simp: prunable_def orphan_def files_names_def tmp_names_def strict_prefix_def prefix_def)

lemma strict_prefix_snoc: "strict_prefix a q \<Longrightarrow> strict_prefix a (q @ [n])"
  by (auto simp: strict_prefix_def)

lemma prunable_closed: "store_ok F r \<Longrightarrow> closed_below F (prunable F r refs)"
  using orphan_closed [OF store_okD(1), where P = "orphan F r refs" and refs = refs and r = r and F = F]
  by (auto simp: closed_below_def prunable_def intro: strict_prefix_snoc)

text \<open>The calls of \<^verbatim>\<open>find_index_files\<close> on the content directory and on the directories in it.\<close>

lemma files_calls:
  assumes ok: "store_ok H r"
  shows "fs_exists H (abs_path (files_names r)) \<longleftrightarrow> node_at H (files_names r) \<noteq> None"
    and "fs_is_dir H (abs_path (files_names r @ [h])) \<longleftrightarrow> node_at H (files_names r @ [h]) = Some Dir"
    and "fs_is_file H (abs_path (files_names r @ [h, n])) \<longleftrightarrow> (\<exists>i. node_at H (files_names r @ [h, n]) = Some (File i))"
    and "node_at H (files_names r) = Some Dir \<Longrightarrow> entry_paths err H (abs_path (files_names r))
      = Inr (map (\<lambda>h. abs_path (files_names r @ [h])) (dir_names H (files_names r)))"
    and "node_at H (files_names r @ [h]) = Some Dir \<Longrightarrow> entry_paths err H (abs_path (files_names r @ [h]))
      = Inr (map (\<lambda>n. abs_path (files_names r @ [h, n])) (dir_names H (files_names r @ [h])))"
    and "node_at H (files_names r) = Some (File i) \<Longrightarrow> entry_paths err H (abs_path (files_names r))
      = Inl (Err (err (abs_path (files_names r)) NotADirectory))"
proof -
  have c: "files_names r = r @ [''v3'', ''files'']" by (simp add: files_names_def)
  show "fs_exists H (abs_path (files_names r)) \<longleftrightarrow> node_at H (files_names r) \<noteq> None"
    unfolding c by (rule store_calls(1) [OF ok])
  show "fs_is_dir H (abs_path (files_names r @ [h])) \<longleftrightarrow> node_at H (files_names r @ [h]) = Some Dir"
    using store_calls(2) [OF ok, of "[''v3'', ''files'', h]"] by (simp add: c)
  show "fs_is_file H (abs_path (files_names r @ [h, n])) \<longleftrightarrow> (\<exists>i. node_at H (files_names r @ [h, n]) = Some (File i))"
    using store_calls(3) [OF ok, of "[''v3'', ''files'', h, n]"] by (simp add: c)
  show "entry_paths err H (abs_path (files_names r))
      = Inr (map (\<lambda>h. abs_path (files_names r @ [h])) (dir_names H (files_names r)))"
    if "node_at H (files_names r) = Some Dir"
    using entry_paths_dir [OF ok, of "[''v3'', ''files'']" err] that by (simp add: c)
  show "entry_paths err H (abs_path (files_names r @ [h]))
      = Inr (map (\<lambda>n. abs_path (files_names r @ [h, n])) (dir_names H (files_names r @ [h])))"
    if "node_at H (files_names r @ [h]) = Some Dir"
    using entry_paths_dir [OF ok, of "[''v3'', ''files'', h]" err] that by (simp add: c)
  show "entry_paths err H (abs_path (files_names r)) = Inl (Err (err (abs_path (files_names r)) NotADirectory))"
    if "node_at H (files_names r) = Some (File i)"
    using lookup_node [OF store_okD(1) [OF ok] that, of True]
    by (simp add: entry_paths_def fs_read_dir_def guarded_def store_okD(2) [OF ok])
qed

text \<open>The index files in one of those directories.\<close>

abbreviation head_index_files ::
    "(path \<Rightarrow> io_kind \<Rightarrow> 'e) \<Rightarrow> fs \<Rightarrow> path \<Rightarrow> 'e failure + path list" where
  "head_index_files err F p \<equiv>
     (if \<not> fs_is_dir F p then Inr []
      else map_ok (filter (\<lambda>path. fs_is_file F path \<and> is_index_path path)) (entry_paths err F p))"

lemma head_index_files_same:
  assumes ok: "store_ok F r"
  shows "head_index_files err (del_nodes (prunable F r refs) F) (abs_path (files_names r @ [h]))
    = head_index_files err F (abs_path (files_names r @ [h]))"
proof -
  let ?P = "prunable F r refs"
  let ?G = "del_nodes ?P F"
  have G: "store_ok ?G r" by (rule store_ok_del_nodes [OF ok prunable_closed [OF ok]])
  have same: "node_at ?G (files_names r @ [h]) = node_at F (files_names r @ [h])"
    using not_prunable(2) by (simp add: node_at_del_nodes)
  note calls = files_calls(2,3,5) [OF ok] files_calls(2,3,5) [OF G]
  show ?thesis
  proof (cases "node_at F (files_names r @ [h]) = Some Dir")
    case True
    have "filter (\<lambda>n. \<not> ?P (files_names r @ [h, n]) \<and> fs_is_file ?G (abs_path (files_names r @ [h, n])) \<and> ends_with ''-index.json'' n)
          (dir_names F (files_names r @ [h]))
        = filter (\<lambda>n. fs_is_file F (abs_path (files_names r @ [h, n])) \<and> ends_with ''-index.json'' n) (dir_names F (files_names r @ [h]))"
      by (intro filter_cong refl) (auto simp: calls(2,5) node_at_del_nodes dest: not_prunable(3))
    moreover have "is_index_path (abs_path (files_names r @ [h, n])) \<longleftrightarrow> ends_with ''-index.json'' n" for n
      using is_index_path_abs [of "files_names r @ [h]" n] by simp
    ultimately show ?thesis
      using True by (simp add: calls(1,3,4,6) same dir_names_del_nodes filter_map comp_def conj_ac)
  next
    case False
    then show ?thesis by (simp add: calls(1,4) same)
  qed
qed

lemma find_index_same:
  assumes ok: "store_ok F r" and S: "sd_root S = abs_path r"
  shows "find_index_files err S (del_nodes (prunable F r refs) F) = find_index_files err S F"
proof -
  let ?G = "del_nodes (prunable F r refs) F"
  have G: "store_ok ?G r" by (rule store_ok_del_nodes [OF ok prunable_closed [OF ok]])
  have same: "node_at ?G (files_names r) = node_at F (files_names r)" using not_prunable(1) by (simp add: node_at_del_nodes)
  note ex = files_calls(1) [OF ok] files_calls(1) [OF G]
  show ?thesis
  proof (cases "node_at F (files_names r)")
    case None
    then show ?thesis by (simp add: find_index_files_def store_abs [OF S] Let_def ex same)
  next
    case (Some nd)
    show ?thesis
    proof (cases "nd = Dir")
      case True
      with Some have d: "node_at F (files_names r) = Some Dir" by simp
      have names: "dir_names ?G (files_names r) = dir_names F (files_names r)"
        by (simp add: dir_names_del_nodes not_prunable(2))
      have t: "traverse (head_index_files err ?G) (map (\<lambda>h. abs_path (files_names r @ [h])) hs)
        = traverse (head_index_files err F) (map (\<lambda>h. abs_path (files_names r @ [h])) hs)" for hs
        by (rule traverse_cong [OF refl]) (auto simp only: set_map imageE head_index_files_same [OF ok])
      show ?thesis
        by (simp only: find_index_files_def store_abs [OF S] Let_def ex same d files_calls(4) [OF ok d]
            files_calls(4) [OF G same [THEN trans, OF d]] names rbind_simps t)
    next
      case False
      then obtain i where i: "node_at F (files_names r) = Some (File i)"
        using Some ok by (cases nd) (auto simp: store_ok_def files_names_def)
      with same files_calls(6) [OF ok i, of err] files_calls(6) [OF G, of i err] show ?thesis
        by (simp add: find_index_files_def store_abs [OF S] Let_def ex)
    qed
  qed
qed

lemma index_file_read:
  assumes ok: "store_ok F r" and S: "sd_root S = abs_path r"
    and ps: "find_index_files err S F = Inr ps" "p \<in> set ps"
  shows "\<exists>h n. p = abs_path (files_names r @ [h, n]) \<and> ends_with ''-index.json'' n"
proof -
  have c: "files_names r = r @ [''v3'', ''files'']" by (simp add: files_names_def)
  from ps obtain hs pss where hs: "entry_paths err F (abs_path (files_names r)) = Inr hs"
    and pss: "traverse (\<lambda>head_path. if \<not> fs_is_dir F head_path then Inr []
             else map_ok (filter (\<lambda>path. fs_is_file F path \<and> is_index_path path)) (entry_paths err F head_path)) hs = Inr pss"
    and mem: "p \<in> set (concat pss)"
    by (auto simp: find_index_files_def store_abs [OF S] Let_def rbind_eq_Inr map_ok_eq_Inr split: if_splits)
  have d: "node_at F (files_names r) = Some Dir" using entry_paths_Inr [OF ok, of err "[''v3'', ''files'']"] hs by (simp add: c)
  from mem obtain ys where ys: "ys \<in> set pss" "p \<in> set ys" by auto
  from traverse_member [OF pss ys(1)] obtain hp qs where hp: "hp \<in> set hs" "fs_is_dir F hp"
    and q: "entry_paths err F hp = Inr qs" "p \<in> set qs" "is_index_path p"
    using ys(2) by (auto simp: result_simps split: if_splits)
  from hp(1) hs entry_paths_dir [OF ok, of "[''v3'', ''files'']" err] d obtain h where h: "hp = abs_path (files_names r @ [h])"
    by (auto simp: c)
  have "node_at F (files_names r @ [h]) = Some Dir"
    using entry_paths_Inr [OF ok, of err "[''v3'', ''files'', h]"] q(1) by (simp add: h c)
  with q(1,2) entry_paths_dir [OF ok, of "[''v3'', ''files'', h]" err] obtain n where n: "p = abs_path (files_names r @ [h, n])"
    by (auto simp: h c)
  with q(3) is_index_path_abs [of "files_names r @ [h]" n] show ?thesis by auto
qed

lemma node_at_kept: "\<not> P q \<Longrightarrow> node_at (del_nodes P F) q = node_at F q"
  by (cases q) (simp_all add: node_at_del_nodes)

lemma kept_read:
  assumes ok: "store_ok F r" and "\<not> prunable F r refs (files_names r @ [h, n])"
  shows "fs_read (del_nodes (prunable F r refs) F) (abs_path (files_names r @ [h, n])) = fs_read F (abs_path (files_names r @ [h, n]))"
proof (rule read_same_way)
  show "plain F (files_names r @ [h, n])"
    using store_okD(3) [OF ok, of "[''v3'', ''files'', h, n]"] by (simp add: files_names_def)
  have "\<not> prunable F r refs q" if p: "prefix q (files_names r @ [h, n])" for q
  proof
    assume pr: "prunable F r refs q"
    then have "orphan F r refs q \<or> strict_prefix (tmp_names r) (files_names r @ [h, n])"
      using p by (auto simp: prunable_def dest: prefix_order.less_le_trans)
    then have "orphan F r refs q" by (auto simp: tmp_names_def files_names_def strict_prefix_def prefix_def)
    then obtain h' n' where "q = files_names r @ [h', n']" by (auto simp: orphan_def)
    with p have "q = files_names r @ [h, n]" by simp
    with pr assms(2) show False by simp
  qed
  then have "\<not> prunable F r refs (take k (files_names r @ [h, n]))" for k by (simp add: take_is_prefix del: take_append)
  then show "\<forall>k. node_at (del_nodes (prunable F r refs) F) (take k (files_names r @ [h, n])) = node_at F (take k (files_names r @ [h, n]))"
    by (intro allI node_at_kept)
qed simp_all

lemma collect_unique_files_same:
  assumes "\<And>p. p \<in> set ps \<Longrightarrow> fs_read F' p = fs_read F p"
  shows "collect_unique_files L S F' ps uf = collect_unique_files L S F ps uf"
  using assms
proof (induction ps arbitrary: uf)
  case (Cons p ps)
  have "fs_read_to_string F' p = fs_read_to_string F p" using Cons.prems [of p] by (simp add: fs_read_to_string_def)
  moreover have "collect_unique_files L S F' ps = collect_unique_files L S F ps"
    using Cons by (intro ext) simp
  ultimately show ?case by (simp only: collect_unique_files.simps)
qed simp

lemma collect_unique_files_referenced:
  assumes "collect_unique_files L S F ps uf = Inr uf'"
    and "traverse (\<lambda>index_path.
       rbind (map_err (\<lambda>e. Err (PruneReadDir index_path e)) (fs_read_to_string F index_path)) (\<lambda>contents.
       rbind (map_err (\<lambda>e. Err (PruneParseIndexFile index_path e)) (index_from_str L contents)) (\<lambda>index.
       index_references L S index_path index))) ps = Inr refss"
    and "fst ` set uf \<subseteq> R" and "set (concat refss) \<subseteq> R"
  shows "fst ` set uf' \<subseteq> R"
  using assms
proof (induction ps arbitrary: uf refss)
  case (Cons p ps)
  from Cons.prems(1) obtain contents ix uf1 where c: "fs_read_to_string F p = Inr contents" "index_from_str L contents = Inr ix"
    "add_unique_files L S p (ix_files ix) uf = Inr uf1" "collect_unique_files L S F ps uf1 = Inr uf'"
    by (auto simp: rbind_eq_Inr map_err_eq_Inr)
  from Cons.prems(2) c obtain refs refss' where refs: "index_references L S p ix = Inr refs" "refss = refs # refss'"
    and rest: "traverse (\<lambda>index_path.
       rbind (map_err (\<lambda>e. Err (PruneReadDir index_path e)) (fs_read_to_string F index_path)) (\<lambda>contents.
       rbind (map_err (\<lambda>e. Err (PruneParseIndexFile index_path e)) (index_from_str L contents)) (\<lambda>index.
       index_references L S index_path index))) ps = Inr refss'"
    by (auto simp: rbind_eq_Inr map_ok_eq_Inr)
  have ix: "\<lparr> ix_files = ix_files ix \<rparr> = ix" by simp
  have "fst ` set uf1 \<subseteq> R"
    by (rule unique_files_referenced [OF c(3), of p]) (use refs Cons.prems(3,4) in \<open>auto simp: ix\<close>)
  then show ?case using Cons.IH [OF c(4) rest] Cons.prems(4) refs by simp
qed auto

lemma find_index_files_err:
  assumes "find_index_files e1 S F = Inr ps"
  shows "find_index_files e2 S F = Inr ps"
proof -
  have e: "entry_paths e1 F d = Inr x \<longleftrightarrow> entry_paths e2 F d = Inr x" for d x
    by (simp add: entry_paths_def map_err_eq_Inr)
  have t: "traverse (\<lambda>hp. if \<not> fs_is_dir F hp then Inr [] else map_ok (filter (\<lambda>p. fs_is_file F p \<and> is_index_path p)) (entry_paths e2 F hp)) hs = Inr pss"
    if "traverse (\<lambda>hp. if \<not> fs_is_dir F hp then Inr [] else map_ok (filter (\<lambda>p. fs_is_file F p \<and> is_index_path p)) (entry_paths e1 F hp)) hs = Inr pss"
    for hs pss
    using that unfolding traverse_eq_Inr by (rule list_all2_mono) (auto simp: map_ok_eq_Inr e split: if_splits)
  show ?thesis
  proof (cases "fs_exists F (store_files S)")
    case True
    with assms t show ?thesis by (auto simp: find_index_files_def Let_def rbind_eq_Inr map_ok_eq_Inr e)
  next
    case False
    with assms show ?thesis by (simp add: find_index_files_def)
  qed
qed

text \<open>\<^verbatim>\<open>prune\<close> does no harm: a check of the store gives the same result after a successful
  \<^verbatim>\<open>prune\<close> as before it, the error it reports included.\<close>

theorem prune_keeps_status:
  assumes ok: "store_ok F r" and S: "sd_root S = abs_path r" and hex: "hex_lib L"
    and dir: "\<forall>i. node_at F (tmp_names r) \<noteq> Some (File i)"
    and run: "prune L S F = (F', Inr ())"
  shows "status L S F' = status L S F"
proof -
  from prune_outcome [OF ok S dir, of L] run obtain refs where refs: "referenced_store_files L S F = Inr refs"
    and F': "F' = del_nodes (prunable F r refs) F"
    by (auto simp: prunable_def [abs_def] split: sum.splits)
  from refs obtain ps refss where ps: "find_index_files PruneReadDir S F = Inr ps"
    and refss: "traverse (\<lambda>index_path.
       rbind (map_err (\<lambda>e. Err (PruneReadDir index_path e)) (fs_read_to_string F index_path)) (\<lambda>contents.
       rbind (map_err (\<lambda>e. Err (PruneParseIndexFile index_path e)) (index_from_str L contents)) (\<lambda>index.
       index_references L S index_path index))) ps = Inr refss" "refs = concat refss"
    by (auto simp: referenced_store_files_def prune_index_file_paths_def rbind_eq_Inr map_ok_eq_Inr)
  have same: "index_file_paths S F' = index_file_paths S F"
    unfolding index_file_paths_def F' by (rule find_index_same [OF ok S])
  have idx: "index_file_paths S F = Inr ps"
    unfolding index_file_paths_def by (rule find_index_files_err [OF ps])
  have "fs_read F' p = fs_read F p" if "p \<in> set ps" for p
    using index_file_read [OF ok S ps that] kept_read [OF ok not_prunable(3)] by (auto simp: F')
  then have col: "collect_unique_files L S F' ps [] = collect_unique_files L S F ps []"
    by (rule collect_unique_files_same)
  have kept: "fs_read F' p = fs_read F p" if p: "p \<in> set refs" for p
  proof -
    from p refss(2) obtain rs where rs: "rs \<in> set refss" "p \<in> set rs" by auto
    from traverse_member [OF refss(1) rs(1)] obtain ip ix where "index_references L S ip ix = Inr rs"
      by (auto simp: rbind_eq_Inr)
    from index_reference_paths [OF this hex S rs(2)] obtain h n where "p = abs_path (files_names r @ [h, n])" by blast
    with p kept_read [OF ok not_prunable(4)] show ?thesis by (simp add: F')
  qed
  have "verify_store_file L F' x = verify_store_file L F x"
    if "collect_unique_files L S F ps [] = Inr uf" "x \<in> set uf" for uf x
  proof -
    have "fst ` set uf \<subseteq> set refs"
      by (rule collect_unique_files_referenced [OF that(1) refss(1)]) (simp_all add: refss(2))
    with that(2) have "fs_read F' (fst x) = fs_read F (fst x)" by (intro kept) auto
    then show ?thesis by (simp add: verify_store_file_def split_beta)
  qed
  then have "traverse (verify_store_file L F') uf = traverse (verify_store_file L F) uf"
    if "collect_unique_files L S F ps [] = Inr uf" for uf
    by (rule traverse_cong [OF refl]) (use that in auto)
  then show ?thesis
    by (cases "collect_unique_files L S F ps []") (simp_all add: status_def same idx col)
qed

text \<open>The address that an index gives a file.\<close>

definition indexed_at :: "store_lib \<Rightarrow> store_dir \<Rightarrow> package_file_info \<Rightarrow> path \<Rightarrow> bool" where
  "indexed_at L S fi path \<longleftrightarrow>
     (\<exists>i. integrity_from_str L (fi_integrity fi) = Inr i
        \<and> (cas_file_path_by_integrity L S i (is_all_exec (fi_mode fi)) :: unit failure + path) = Inr path)"

lemma add_unique_files_spec:
  assumes "add_unique_files L S p fs uf = Inr uf'" and "distinct (map fst uf)"
  shows "distinct (map fst uf') \<and> set uf \<subseteq> set uf'
    \<and> (\<forall>(nm, fi) \<in> set fs. \<exists>path \<in> fst ` set uf'. indexed_at L S fi path)"
  using assms
proof (induction L S p fs uf rule: add_unique_files.induct)
  case (2 L S p nm fi rest uf)
  from "2.prems"(1) obtain i sp where i: "integrity_from_str L (fi_integrity fi) = Inr i"
    and sp: "cas_file_path_by_integrity L S i (fi_mode fi AND 0x49 = 0x49) = (Inr sp :: store_status_error failure + path)"
    and rest: "add_unique_files L S p rest (if map_of uf sp = None then uf @ [(sp, i)] else uf) = Inr uf'"
    by (auto simp: result_simps Let_def)
  let ?uf = "if map_of uf sp = None then uf @ [(sp, i)] else uf"
  have at: "indexed_at L S fi sp"
    using i cas_path_err [OF sp] by (auto simp: indexed_at_def is_all_exec_def EXEC_MASK_def)
  have "distinct (map fst ?uf)" using "2.prems"(2) by (auto simp: map_of_eq_None_iff)
  from "2.IH" [OF _ refl sp rest this] i have ih: "distinct (map fst uf')" "set ?uf \<subseteq> set uf'"
    "\<forall>(nm, fi) \<in> set rest. \<exists>path \<in> fst ` set uf'. indexed_at L S fi path" by auto
  have "sp \<in> fst ` set ?uf" by (cases "map_of uf sp") (auto dest: map_of_SomeD intro: rev_image_eqI)
  with ih(2) have "sp \<in> fst ` set uf'" by blast
  moreover have "set uf \<subseteq> set uf'" using ih(2) by (auto split: if_splits)
  ultimately show ?case using ih(1,3) at by auto
qed auto

lemma collect_unique_files_spec:
  assumes "collect_unique_files L S F ps uf = Inr uf'" and "distinct (map fst uf)"
  shows "distinct (map fst uf') \<and> set uf \<subseteq> set uf'
    \<and> (\<forall>p \<in> set ps. \<exists>contents ix. fs_read_to_string F p = Inr contents \<and> index_from_str L contents = Inr ix
         \<and> (\<forall>(nm, fi) \<in> set (ix_files ix). \<exists>path \<in> fst ` set uf'. indexed_at L S fi path))"
  using assms
proof (induction ps arbitrary: uf)
  case (Cons p ps)
  from Cons.prems(1) obtain contents ix uf1 where c: "fs_read_to_string F p = Inr contents" "index_from_str L contents = Inr ix"
    "add_unique_files L S p (ix_files ix) uf = Inr uf1" "collect_unique_files L S F ps uf1 = Inr uf'"
    by (auto simp: rbind_eq_Inr map_err_eq_Inr)
  from add_unique_files_spec [OF c(3) Cons.prems(2)] have a: "distinct (map fst uf1)" "set uf \<subseteq> set uf1"
    "\<forall>(nm, fi) \<in> set (ix_files ix). \<exists>path \<in> fst ` set uf1. indexed_at L S fi path" by blast+
  from Cons.IH [OF c(4) a(1)] have ih: "distinct (map fst uf')" "set uf1 \<subseteq> set uf'"
    "\<forall>p \<in> set ps. \<exists>contents ix. fs_read_to_string F p = Inr contents \<and> index_from_str L contents = Inr ix
         \<and> (\<forall>(nm, fi) \<in> set (ix_files ix). \<exists>path \<in> fst ` set uf'. indexed_at L S fi path)" by blast+
  have "fst ` set uf1 \<subseteq> fst ` set uf'" using ih(2) by blast
  with a(3) have "\<forall>(nm, fi) \<in> set (ix_files ix). \<exists>path \<in> fst ` set uf'. indexed_at L S fi path" by blast
  with c ih a(2) show ?case by auto
qed simp


section \<open>Examples\<close>

text \<open>A store with an index, the file it names, an orphan and a temporary file.\<close>

definition upkeep_index :: package_files_index where
  "upkeep_index = \<lparr> ix_files = [(''a.js'',
     \<lparr> fi_checked_at = None, fi_integrity = ''sha512-ab'', fi_mode = 0x1A4, fi_size = None \<rparr>)] \<rparr>"

definition upkeep_lib :: store_lib where
  "upkeep_lib = (store3 upkeep_index)\<lparr>
     integrity_to_hex := \<lambda>i. (fst (hd i), hex_of_bytes (take 2 (snd (hd i) @ ''..''))),
     integrity_check := \<lambda>i b. if take 2 b = take 2 (snd (hd i)) then Inr Sha512 else Inl ''mismatch''\<rparr>"

definition upkeep_fs :: fs where
  "upkeep_fs =
     empty_fs\<lparr>fs_nodes := [([''store''], Dir), ([''store'', ''v3''], Dir), ([''store'', ''v3'', ''files''], Dir),
         ([''store'', ''v3'', ''files'', ''61''], Dir),
         ([''store'', ''v3'', ''files'', ''61'', ''62''], File 0),
         ([''store'', ''v3'', ''files'', ''61'', ''63''], File 0),
         ([''store'', ''v3'', ''files'', ''61'', ''64-index.json''], File 1),
         ([''store'', ''v3'', ''tmp''], Dir), ([''store'', ''v3'', ''tmp'', ''t''], File 0)],
       fs_inodes := \<lambda>i. \<lparr> in_data = (if i = 1 then ''index'' else ''ab''), in_mode = 0x1A4 \<rparr>, fs_next := 2\<rparr>"

lemma store_ok_upkeep: "store_ok upkeep_fs [''store'']"
proof -
  have n: "node_at upkeep_fs q = (if q = [] \<or> q = [''store''] \<or> q = [''store'', ''v3''] \<or> q = [''store'', ''v3'', ''files'']
        \<or> q = [''store'', ''v3'', ''files'', ''61''] \<or> q = [''store'', ''v3'', ''tmp''] then Some Dir
      else if q = [''store'', ''v3'', ''files'', ''61'', ''62''] \<or> q = [''store'', ''v3'', ''files'', ''61'', ''63'']
        \<or> q = [''store'', ''v3'', ''tmp'', ''t''] then Some (File 0)
      else if q = [''store'', ''v3'', ''files'', ''61'', ''64-index.json''] then Some (File 1) else None)" for q
    by (simp add: node_at_def upkeep_fs_def)
  have "tree_ok upkeep_fs" unfolding tree_ok_def n by (simp add: upkeep_fs_def)
  moreover have "distinct (map fst (fs_nodes upkeep_fs))" by (simp add: upkeep_fs_def)
  moreover have "fs_fault upkeep_fs c p = None" for c p by (simp add: upkeep_fs_def empty_fs_def)
  moreover have "node_at upkeep_fs q \<noteq> Some (Symlink t)" for q t unfolding n by simp
  ultimately show ?thesis by (simp add: store_ok_def plain_def)
qed

lemma upkeep_references:
  "referenced_store_files upkeep_lib store_root upkeep_fs = Inr [abs_path [''store'', ''v3'', ''files'', ''61'', ''62'']]"
  by code_simp

lemma upkeep_tmp: "\<forall>i. node_at upkeep_fs (tmp_names [''store'']) \<noteq> Some (File i)"
  by (simp add: tmp_names_def node_at_def upkeep_fs_def)

lemma store_root_abs: "sd_root store_root = abs_path [''store'']"
  by (simp add: store_root_def)


theorem prune_keeps_status_witness:
  "status upkeep_lib store_root (fst (prune upkeep_lib store_root upkeep_fs))
     = Inr \<lparr> ss_checked_packages = 1, ss_checked_files = 1 \<rparr>"
proof -
  have hex: "hex_lib upkeep_lib" by (simp add: hex_lib_def upkeep_lib_def hex_ok_digest)
  have res: "snd (prune upkeep_lib store_root upkeep_fs) = Inr ()" by code_simp
  from ex_state [OF res] obtain F' where run: "prune upkeep_lib store_root upkeep_fs = (F', Inr ())" ..
  have "status upkeep_lib store_root upkeep_fs = Inr \<lparr> ss_checked_packages = 1, ss_checked_files = 1 \<rparr>"
    by code_simp
  with prune_keeps_status [OF store_ok_upkeep store_root_abs hex upkeep_tmp run] run show ?thesis by simp
qed


end
