(* ===== verification/Tarball_Tasks.thy ===== *)
theory Tarball_Tasks
  imports Tarball
begin

text \<open>
  The tasks that ask for tarballs at the same time. \<^verbatim>\<open>join_all\<close> polls them on one thread, so a
  step is what one task does between two suspensions of \<^verbatim>\<open>run_with_mem_cache\<close>; which task is
  polled next, and whether a download succeeds, is not determined. The \<^verbatim>\<open>DashMap\<close> of the cache
  locks by shards: \<^verbatim>\<open>insert\<close> needs the shard of its key for itself, and the reference that \<^verbatim>\<open>get\<close>
  returned keeps the shard read-locked as long as it lives, which here is the whole branch with the
  wait in it. A thread that inserts under such a reference waits for a lock of its own.
\<close>

section \<open>The steps\<close>

datatype task = Start | Waiting | Woken | Owner | Finished | Failed

record tasks =
  tk_state :: "nat \<Rightarrow> task"
  tk_cache :: "string \<Rightarrow> cache_value option"
  tk_hung :: bool

definition set_task :: "nat \<Rightarrow> task \<Rightarrow> tasks \<Rightarrow> tasks" where
  "set_task k x t = t\<lparr>tk_state := (tk_state t)(k := x)\<rparr>"

definition set_value :: "string \<Rightarrow> cache_value \<Rightarrow> tasks \<Rightarrow> tasks" where
  "set_value u v t = t\<lparr>tk_cache := (tk_cache t)(u := Some v)\<rparr>"

text \<open>A suspended task that holds a reference into the map.\<close>

definition holds_ref :: "task \<Rightarrow> bool" where
  "holds_ref x \<longleftrightarrow> x = Waiting \<or> x = Woken"

definition shard_free :: "(nat \<Rightarrow> string) \<Rightarrow> (string \<Rightarrow> nat) \<Rightarrow> tasks \<Rightarrow> string \<Rightarrow> bool" where
  "shard_free url shard t u \<longleftrightarrow> (\<forall>j. holds_ref (tk_state t j) \<longrightarrow> shard (url j) \<noteq> shard u)"

text \<open>\<^verbatim>\<open>notify_waiters\<close>.\<close>

definition wake :: "(nat \<Rightarrow> string) \<Rightarrow> string \<Rightarrow> tasks \<Rightarrow> tasks" where
  "wake url u t =
     t\<lparr>tk_state := \<lambda>j. if tk_state t j = Waiting \<and> url j = u then Woken else tk_state t j\<rparr>"

inductive task_step :: "(nat \<Rightarrow> string) \<Rightarrow> (string \<Rightarrow> nat) \<Rightarrow> nat \<Rightarrow> tasks \<Rightarrow> tasks \<Rightarrow> bool"
  for url :: "nat \<Rightarrow> string" and shard :: "string \<Rightarrow> nat" and n :: nat where
  hit: "\<not> tk_hung t \<Longrightarrow> k < n \<Longrightarrow> tk_state t k = Start \<Longrightarrow> tk_cache t (url k) = Some (Available c)
    \<Longrightarrow> task_step url shard n t (set_task k Finished t)"
| suspend: "\<not> tk_hung t \<Longrightarrow> k < n \<Longrightarrow> tk_state t k = Start \<Longrightarrow> tk_cache t (url k) = Some InProgress
    \<Longrightarrow> task_step url shard n t (set_task k Waiting t)"
| own: "\<not> tk_hung t \<Longrightarrow> k < n \<Longrightarrow> tk_state t k = Start \<Longrightarrow> tk_cache t (url k) = None \<Longrightarrow> shard_free url shard t (url k)
    \<Longrightarrow> task_step url shard n t (set_value (url k) InProgress (set_task k Owner t))"
| hang: "\<not> tk_hung t \<Longrightarrow> k < n \<Longrightarrow> tk_state t k = Start \<Longrightarrow> tk_cache t (url k) = None \<Longrightarrow> \<not> shard_free url shard t (url k)
    \<Longrightarrow> task_step url shard n t (t\<lparr>tk_hung := True\<rparr>)"
| succeed: "\<not> tk_hung t \<Longrightarrow> k < n \<Longrightarrow> tk_state t k = Owner
    \<Longrightarrow> task_step url shard n t (wake url (url k) (set_value (url k) (Available c) (set_task k Finished t)))"
| fail: "\<not> tk_hung t \<Longrightarrow> k < n \<Longrightarrow> tk_state t k = Owner
    \<Longrightarrow> task_step url shard n t (set_task k Failed t)"
| resume: "\<not> tk_hung t \<Longrightarrow> k < n \<Longrightarrow> tk_state t k = Woken \<Longrightarrow> tk_cache t (url k) = Some (Available c)
    \<Longrightarrow> task_step url shard n t (set_task k Finished t)"

definition start_tasks :: tasks where
  "start_tasks = \<lparr> tk_state = (\<lambda>_. Start), tk_cache = (\<lambda>_. None), tk_hung = False \<rparr>"

abbreviation task_steps :: "(nat \<Rightarrow> string) \<Rightarrow> (string \<Rightarrow> nat) \<Rightarrow> nat \<Rightarrow> tasks \<Rightarrow> tasks \<Rightarrow> bool" where
  "task_steps url shard n \<equiv> (task_step url shard n)\<^sup>*\<^sup>*"

lemmas task_defs = set_task_def set_value_def wake_def

section \<open>The invariant\<close>

text \<open>
  The value of the cache says who works: an entry in progress has its one owner or a failed one, only
  tasks beyond the start have made entries, and a task that waits does so for an entry in progress.
\<close>

definition tasks_ok :: "(nat \<Rightarrow> string) \<Rightarrow> nat \<Rightarrow> tasks \<Rightarrow> bool" where
  "tasks_ok url n t \<longleftrightarrow>
     (\<forall>k \<ge> n. tk_state t k = Start)
     \<and> (\<forall>k. tk_state t k \<in> {Waiting, Owner, Failed} \<longrightarrow> tk_cache t (url k) = Some InProgress)
     \<and> (\<forall>k. tk_state t k \<in> {Woken, Finished} \<longrightarrow> (\<exists>c. tk_cache t (url k) = Some (Available c)))
     \<and> (\<forall>j k. tk_state t j \<in> {Owner, Failed} \<longrightarrow> tk_state t k \<in> {Owner, Failed} \<longrightarrow> url j = url k \<longrightarrow> j = k)
     \<and> (\<forall>u. tk_cache t u = Some InProgress \<longrightarrow> (\<exists>k. url k = u \<and> tk_state t k \<in> {Owner, Failed}))"

lemma tasks_okD:
  assumes "tasks_ok url n t"
  shows "n \<le> k \<Longrightarrow> tk_state t k = Start"
    and "tk_state t k \<in> {Waiting, Owner, Failed} \<Longrightarrow> tk_cache t (url k) = Some InProgress"
    and "tk_state t k \<in> {Woken, Finished} \<Longrightarrow> \<exists>c. tk_cache t (url k) = Some (Available c)"
    and "tk_state t j \<in> {Owner, Failed} \<Longrightarrow> tk_state t k \<in> {Owner, Failed} \<Longrightarrow> url j = url k \<Longrightarrow> j = k"
    and "tk_cache t u = Some InProgress \<Longrightarrow> \<exists>k. url k = u \<and> tk_state t k \<in> {Owner, Failed}"
  using assms unfolding tasks_ok_def by blast+

lemma tasks_ok_start: "tasks_ok url n start_tasks"
  by (simp add: tasks_ok_def start_tasks_def)

lemma worker_other:
  assumes "tasks_ok url n t" and "tk_cache t u = Some InProgress" and "tk_state t k \<notin> {Owner, Failed}"
  shows "\<exists>j. j \<noteq> k \<and> url j = u \<and> tk_state t j \<in> {Owner, Failed}"
  using tasks_okD(5) [OF assms(1,2)] assms(3) by metis

lemma tasks_ok_step:
  assumes ok: "tasks_ok url n t" and step: "task_step url shard n t t'"
  shows "tasks_ok url n t'"
  using step
proof cases
  case (hit k c)
  with ok worker_other [OF ok, of _ k] show ?thesis unfolding tasks_ok_def by (auto simp: task_defs)
next
  case (suspend k)
  with ok worker_other [OF ok, of _ k] show ?thesis unfolding tasks_ok_def by (auto simp: task_defs)
next
  case (own k)
  with ok worker_other [OF ok, of _ k] show ?thesis unfolding tasks_ok_def by (auto simp: task_defs)
next
  case (hang k)
  with ok worker_other [OF ok, of _ k] show ?thesis unfolding tasks_ok_def by auto
next
  case (succeed k c)
  with ok show ?thesis unfolding tasks_ok_def by (auto simp: task_defs)
next
  case (fail k)
  with ok show ?thesis unfolding tasks_ok_def by (auto simp: task_defs)
next
  case (resume k c)
  with ok worker_other [OF ok, of _ k] show ?thesis unfolding tasks_ok_def by (auto simp: task_defs)
qed

lemma tasks_ok_reach:
  assumes "task_steps url shard n start_tasks t"
  shows "tasks_ok url n t"
  using assms by (induction rule: rtranclp_induct) (auto intro: tasks_ok_start tasks_ok_step)

section \<open>What the tasks can count on\<close>

text \<open>C30: Whatever the order of the tasks, at most one of them works on a URL, no task works on one that is
  available, and a task that has finished found its tarball available.\<close>

theorem one_task_per_tarball:
  assumes "task_steps url shard n start_tasks t"
  shows "(tk_state t j = Owner \<longrightarrow> tk_state t k = Owner \<longrightarrow> url j = url k \<longrightarrow> j = k)
    \<and> (tk_state t j = Owner \<longrightarrow> tk_cache t (url j) = Some InProgress)
    \<and> (tk_state t j = Finished \<longrightarrow> (\<exists>c. tk_cache t (url j) = Some (Available c)))"
  using tasks_okD(2,3,4) [OF tasks_ok_reach [OF assms]] by auto

text \<open>Every task can go on, unless one has failed or the thread hangs.\<close>

lemma no_step_done:
  assumes ok: "tasks_ok url n t" and "\<not> tk_hung t" and nf: "\<forall>k. tk_state t k \<noteq> Failed"
    and stop: "\<nexists>t'. task_step url shard n t t'" and k: "k < n"
  shows "tk_state t k = Finished"
proof (cases "tk_state t k")
  case Start
  then show ?thesis
    using stop assms(2) k
    by (cases "tk_cache t (url k)"; cases "the (tk_cache t (url k))"; cases "shard_free url shard t (url k)")
      (auto intro: task_step.intros)
next
  case Waiting
  with tasks_okD(2) [OF ok, of k] tasks_okD(5) [OF ok] nf obtain j where j: "tk_state t j = Owner" by auto
  with tasks_okD(1) [OF ok, of j] have "j < n" by (cases "n \<le> j") auto
  with j stop assms(2) show ?thesis by (meson succeed)
next
  case Woken
  with tasks_okD(3) [OF ok, of k] obtain c where "tk_cache t (url k) = Some (Available c)" by auto
  with Woken stop assms(2) k show ?thesis by (meson resume)
next
  case Owner
  with stop assms(2) k show ?thesis by (meson succeed)
qed (use nf in auto)

text \<open>With different shards for different tarballs no thread hangs.\<close>

lemma no_hang:
  assumes "tasks_ok url n t" and "\<not> tk_hung t" and "inj_on shard (url ` {..<n})" and "task_step url shard n t t'"
  shows "\<not> tk_hung t'"
  using assms(4)
proof cases
  case (hang k)
  then obtain j where j: "holds_ref (tk_state t j)" "shard (url j) = shard (url k)" by (auto simp: shard_free_def)
  have "j < n" using tasks_okD(1) [OF assms(1), of j] j(1) by (cases "n \<le> j") (auto simp: holds_ref_def)
  with assms(3) j(2) hang(3) have "url j = url k" by (auto dest: inj_onD)
  with j(1) tasks_okD(2,3) [OF assms(1), of j] hang(5) show ?thesis by (auto simp: holds_ref_def)
qed (use assms(2) in \<open>auto simp: task_defs\<close>)

text \<open>C31: When no download fails and different tarballs are in different shards of the cache, the tasks
  do not wait for each other for ever: they can stop only when all of them have finished.\<close>

theorem tasks_progress:
  assumes reach: "task_steps url shard n start_tasks t" and shards: "inj_on shard (url ` {..<n})"
    and "\<forall>k. tk_state t k \<noteq> Failed"
  shows "(\<exists>t'. task_step url shard n t t') \<or> (\<forall>k < n. tk_state t k = Finished)"
proof -
  have "\<not> tk_hung t"
    using reach
  proof (induction rule: rtranclp_induct)
    case base
    then show ?case by (simp add: start_tasks_def)
  next
    case (step t t')
    then show ?case using no_hang [OF tasks_ok_reach [OF step.hyps(1)] _ shards step.hyps(2)] by simp
  qed
  then show ?thesis using no_step_done [OF tasks_ok_reach [OF reach] _ assms(3)] by blast
qed

text \<open>What a failure leaves: the entry in progress with no one at work.\<close>

definition stranded :: "(nat \<Rightarrow> string) \<Rightarrow> string \<Rightarrow> tasks \<Rightarrow> bool" where
  "stranded url u t \<longleftrightarrow> tk_cache t u = Some InProgress \<and> (\<forall>k. tk_state t k = Owner \<longrightarrow> url k \<noteq> u)"

lemma stranded_step:
  assumes "stranded url u t" and "task_step url shard n t t'"
  shows "stranded url u t'
    \<and> (\<forall>j. url j = u \<longrightarrow> tk_state t j \<in> {Start, Waiting} \<longrightarrow> tk_state t' j \<in> {Start, Waiting})"
  using assms(2,1) by cases (auto simp: stranded_def task_defs)

text \<open>C32: A failure strands the others: once the task that works on a tarball has failed, no task that still
  needs the tarball ever finishes, whatever happens next.\<close>

theorem failure_strands_waiters:
  assumes reach: "task_steps url shard n start_tasks t" and owner: "k < n" "tk_state t k = Owner" "\<not> tk_hung t"
    and later: "task_steps url shard n (set_task k Failed t) t'"
    and needs: "url j = url k" "tk_state t j \<in> {Start, Waiting}"
  shows "task_step url shard n t (set_task k Failed t) \<and> tk_state t' j \<in> {Start, Waiting}"
proof -
  note ok = tasks_ok_reach [OF reach]
  have "tk_state t i = Owner \<Longrightarrow> url i = url k \<Longrightarrow> i = k" for i
    using tasks_okD(4) [OF ok, of i k] owner(2) by simp
  then have s0: "stranded url (url k) (set_task k Failed t)"
    using tasks_okD(2) [OF ok, of k] owner(2) by (auto simp: stranded_def set_task_def)
  have j0: "tk_state (set_task k Failed t) j \<in> {Start, Waiting}" using needs(2) owner(2) by (auto simp: set_task_def)
  from later have "stranded url (url k) t' \<and> tk_state t' j \<in> {Start, Waiting}"
  proof (induction rule: rtranclp_induct)
    case base
    with s0 j0 show ?case by simp
  next
    case (step y z)
    with stranded_step [of url "url k" y shard n z] needs(1) show ?case by auto
  qed
  then show ?thesis using task_step.fail [OF owner(3,1,2)] by simp
qed


section \<open>Examples\<close>

text \<open>Two tasks for one tarball.\<close>

abbreviation same_url :: "nat \<Rightarrow> string" where
  "same_url \<equiv> \<lambda>_. ''u''"

abbreviation one_shard :: "string \<Rightarrow> nat" where
  "one_shard \<equiv> \<lambda>_. 0"

lemma first_owns: "task_steps same_url one_shard 2 start_tasks (set_value ''u'' InProgress (set_task 0 Owner start_tasks))"
proof (rule r_into_rtranclp)
  have "shard_free same_url one_shard start_tasks ''u''" by (simp add: shard_free_def holds_ref_def start_tasks_def)
  then show "task_step same_url one_shard 2 start_tasks (set_value ''u'' InProgress (set_task 0 Owner start_tasks))"
    using own [of start_tasks 0 2 same_url one_shard] by (simp add: start_tasks_def)
qed

theorem one_task_per_tarball_witness:
  "tk_cache (set_value ''u'' InProgress (set_task 0 Owner start_tasks)) ''u'' = Some InProgress"
  using one_task_per_tarball [OF first_owns, of 0 0] by (simp add: task_defs)

theorem tasks_progress_witness:
  "\<exists>t'. task_step same_url one_shard 2 (set_value ''u'' InProgress (set_task 0 Owner start_tasks)) t'"
proof -
  have "inj_on one_shard (same_url ` {..<2})" by (simp add: inj_on_def)
  moreover have "\<forall>k. tk_state (set_value ''u'' InProgress (set_task 0 Owner start_tasks)) k \<noteq> Failed"
    by (simp add: task_defs start_tasks_def)
  ultimately have "(\<exists>t'. task_step same_url one_shard 2 (set_value ''u'' InProgress (set_task 0 Owner start_tasks)) t')
      \<or> (\<forall>k < 2. tk_state (set_value ''u'' InProgress (set_task 0 Owner start_tasks)) k = Finished)"
    by (rule tasks_progress [OF first_owns])
  moreover have "tk_state (set_value ''u'' InProgress (set_task 0 Owner start_tasks)) 0 \<noteq> Finished" by (simp add: task_defs)
  ultimately show ?thesis by auto
qed

theorem failure_strands_waiters_witness:
  "tk_state (set_task 0 Failed (set_value ''u'' InProgress (set_task 0 Owner start_tasks))) 1 \<in> {Start, Waiting}"
proof -
  let ?t = "set_value ''u'' InProgress (set_task 0 Owner start_tasks)"
  have "tk_state ?t 0 = Owner" "\<not> tk_hung ?t" "tk_state ?t 1 \<in> {Start, Waiting}"
    by (simp_all add: task_defs start_tasks_def)
  with failure_strands_waiters [OF first_owns _ _ _ rtranclp.rtrancl_refl, of 0 1] show ?thesis by simp
qed


end
