(* ===== verification/Throttle.thy ===== *)
theory Throttle
  imports Prelude
begin

text \<open>
  \<^verbatim>\<open>crates/network\<close>: the HTTP client that lets a request start only with a permit of a semaphore, and
  the requests of the program that go through it at the same time. The semaphore is a library of the
  runtime (\<open>semaphore_lib\<close>). A request is made in two parts: \<^verbatim>\<open>run_with_permit\<close> is given the future of
  \<^verbatim>\<open>send\<close> only, which is over when the head of the reply has arrived; the body is read
  by the caller after that (\<^verbatim>\<open>bytes\<close> in \<^verbatim>\<open>tarball\<close>, \<^verbatim>\<open>json\<close> in \<^verbatim>\<open>registry\<close>). Which request moves next, and
  whether its \<^verbatim>\<open>send\<close> succeeds, is not determined. A request whose future is dropped while it is sent
  gives its permit back like one that fails.
\<close>

section \<open>The client\<close>

text \<open>What the client uses of \<^verbatim>\<open>tokio::sync::Semaphore\<close>: \<open>acquire\<close> has no result while it waits. Nothing
  closes the semaphore, so its other error does not arise.\<close>

record 's semaphore_lib =
  semaphore_new :: "nat \<Rightarrow> 's"
  acquire :: "'s \<Rightarrow> 's option"
  drop_permit :: "'s \<Rightarrow> 's"

datatype request = Asking | Sending | Reading | Ended

record 's throttled_client =
  semaphore :: 's
  request_state :: "nat \<Rightarrow> request"

definition min_permits :: nat where
  "min_permits = 16"

definition new_from_cpu_count :: "'s semaphore_lib \<Rightarrow> nat \<Rightarrow> 's throttled_client" where
  "new_from_cpu_count L cpus =
     \<lparr> semaphore = semaphore_new L (max cpus min_permits), request_state = (\<lambda>_. Asking) \<rparr>"

definition set_request :: "nat \<Rightarrow> request \<Rightarrow> 's throttled_client \<Rightarrow> 's throttled_client" where
  "set_request k x c = c\<lparr>request_state := (request_state c)(k := x)\<rparr>"

text \<open>\<^verbatim>\<open>run_with_permit\<close> for the requests below \<open>n\<close>, and the reading of the body after it.\<close>

inductive request_step :: "'s semaphore_lib \<Rightarrow> nat \<Rightarrow> 's throttled_client \<Rightarrow> 's throttled_client \<Rightarrow> bool"
  for L :: "'s semaphore_lib" and n :: nat where
  permit: "k < n \<Longrightarrow> request_state c k = Asking \<Longrightarrow> acquire L (semaphore c) = Some s
    \<Longrightarrow> request_step L n c (set_request k Sending (c\<lparr>semaphore := s\<rparr>))"
| reply: "k < n \<Longrightarrow> request_state c k = Sending
    \<Longrightarrow> request_step L n c (set_request k Reading (c\<lparr>semaphore := drop_permit L (semaphore c)\<rparr>))"
| no_reply: "k < n \<Longrightarrow> request_state c k = Sending
    \<Longrightarrow> request_step L n c (set_request k Ended (c\<lparr>semaphore := drop_permit L (semaphore c)\<rparr>))"
| body: "k < n \<Longrightarrow> request_state c k = Reading \<Longrightarrow> request_step L n c (set_request k Ended c)"

text \<open>The semaphore counts: it starts with its permits, \<open>acquire\<close> takes one if there is one, and a permit that
  is dropped is there again.\<close>

definition semaphore_counts :: "'s semaphore_lib \<Rightarrow> ('s \<Rightarrow> nat) \<Rightarrow> bool" where
  "semaphore_counts L permits \<longleftrightarrow> (\<forall>m. permits (semaphore_new L m) = m)
     \<and> (\<forall>s. case acquire L s of None \<Rightarrow> permits s = 0 | Some s' \<Rightarrow> permits s = Suc (permits s'))
     \<and> (\<forall>s. permits (drop_permit L s) = Suc (permits s))"

lemma semaphore_countsD:
  assumes "semaphore_counts L permits"
  shows "permits (semaphore_new L m) = m" and "acquire L s = None \<Longrightarrow> permits s = 0"
    and "acquire L s = Some s' \<Longrightarrow> permits s = Suc (permits s')"
    and "permits (drop_permit L s) = Suc (permits s)"
  using assms by (auto simp: semaphore_counts_def split: option.splits dest: spec [of _ s])

lemma set_request_simps [simp]:
  "semaphore (set_request k x c) = semaphore c"
  "request_state (set_request k x c) = (request_state c)(k := x)"
  by (simp_all add: set_request_def)

section \<open>Permits and requests\<close>

definition sending :: "'s throttled_client \<Rightarrow> nat set" where
  "sending c = {k. request_state c k = Sending}"

lemma sending_set [simp]:
  "sending (set_request k x c) = (if x = Sending then insert k (sending c) else sending c - {k})"
  "sending (c\<lparr>semaphore := s\<rparr>) = sending c"
  by (auto simp: sending_def)

text \<open>A permit is with the semaphore or with a request that is being sent.\<close>

definition permits_ok :: "('s \<Rightarrow> nat) \<Rightarrow> nat \<Rightarrow> nat \<Rightarrow> 's throttled_client \<Rightarrow> bool" where
  "permits_ok permits n m c \<longleftrightarrow> (\<forall>k \<ge> n. request_state c k = Asking)
     \<and> permits (semaphore c) + card (sending c) = m"

lemma sending_below:
  assumes "permits_ok permits n m c"
  shows "sending c \<subseteq> {..<n}"
proof
  fix k assume "k \<in> sending c"
  with assms have "\<not> n \<le> k" by (auto simp: permits_ok_def sending_def)
  then show "k \<in> {..<n}" by simp
qed

lemma finite_sending: "permits_ok permits n m c \<Longrightarrow> finite (sending c)"
  by (rule finite_subset [OF sending_below]) simp_all

lemma permits_ok_step:
  assumes laws: "semaphore_counts L permits" and ok: "permits_ok permits n m c" and step: "request_step L n c c'"
  shows "permits_ok permits n m c'"
  using step
proof cases
  case (permit k s)
  then have "k \<notin> sending c" by (simp add: sending_def)
  with permit ok semaphore_countsD(3) [OF laws permit(4)] finite_sending [OF ok] show ?thesis
    by (auto simp: permits_ok_def)
next
  case (reply k)
  then have "k \<in> sending c" by (simp add: sending_def)
  with reply ok semaphore_countsD(4) [OF laws] card_Suc_Diff1 [OF finite_sending [OF ok]] show ?thesis
    by (auto simp: permits_ok_def)
next
  case (no_reply k)
  then have "k \<in> sending c" by (simp add: sending_def)
  with no_reply ok semaphore_countsD(4) [OF laws] card_Suc_Diff1 [OF finite_sending [OF ok]] show ?thesis
    by (auto simp: permits_ok_def)
next
  case (body k)
  then have "k \<notin> sending c" by (simp add: sending_def)
  with body ok show ?thesis by (simp add: permits_ok_def)
qed

lemma permits_ok_new:
  assumes "semaphore_counts L permits"
  shows "permits_ok permits n (max cpus min_permits) (new_from_cpu_count L cpus)"
  using semaphore_countsD(1) [OF assms] by (simp add: permits_ok_def new_from_cpu_count_def sending_def)

section \<open>Every run ends\<close>

text \<open>The steps that a request still has to make.\<close>

fun steps_left :: "request \<Rightarrow> nat" where
  "steps_left Asking = 3"
| "steps_left Sending = 2"
| "steps_left Reading = 1"
| "steps_left Ended = 0"

lemma request_step_left:
  assumes "request_step L n c c'"
  shows "(\<Sum>k<n. steps_left (request_state c' k)) < (\<Sum>k<n. steps_left (request_state c k))"
proof -
  from assms obtain j where "j < n" and "steps_left (request_state c' j) < steps_left (request_state c j)"
    and "\<And>k. k \<noteq> j \<Longrightarrow> request_state c' k = request_state c k"
    by cases auto
  then have "\<forall>k \<in> {..<n}. steps_left (request_state c' k) \<le> steps_left (request_state c k)"
    by (metis order.strict_implies_order order.refl)
  with \<open>j < n\<close> \<open>steps_left _ < _\<close> show ?thesis by (intro sum_strict_mono_ex1) auto
qed

lemma request_steps_run:
  assumes laws: "semaphore_counts L permits" and run: "(request_step L n ^^ m) (new_from_cpu_count L cpus) c"
  shows "permits_ok permits n (max cpus min_permits) c
    \<and> m + (\<Sum>k<n. steps_left (request_state c k)) \<le> 3 * n"
  using run
proof (induction m arbitrary: c)
  case 0
  then have c: "c = new_from_cpu_count L cpus" by auto
  have "(\<Sum>k<n. steps_left (request_state c k)) = 3 * n" by (simp add: c new_from_cpu_count_def)
  then show ?case using permits_ok_new [OF laws, of n cpus] by (simp add: c)
next
  case (Suc m)
  then obtain c1 where c1: "(request_step L n ^^ m) (new_from_cpu_count L cpus) c1" "request_step L n c1 c" by auto
  with Suc.IH [OF c1(1)] permits_ok_step [OF laws _ c1(2)] request_step_left [OF c1(2)] show ?case by simp
qed

section \<open>What the requests can count on\<close>

lemma permit_for_someone:
  assumes laws: "semaphore_counts L permits" and ok: "permits_ok permits n m c" and m: "0 < m"
    and k: "k < n" "request_state c k \<noteq> Ended"
  shows "\<exists>c'. request_step L n c c'"
proof (cases "sending c = {}")
  case True
  with ok m semaphore_countsD(2) [OF laws, of "semaphore c"] obtain s where "acquire L (semaphore c) = Some s"
    by (cases "acquire L (semaphore c)") (auto simp: permits_ok_def)
  moreover from True have "request_state c k \<noteq> Sending" by (auto simp: sending_def)
  ultimately show ?thesis using k by (cases "request_state c k") (auto intro: permit body)
next
  case False
  then obtain j where "j \<in> sending c" by blast
  with sending_below [OF ok] show ?thesis by (auto simp: sending_def intro: reply)
qed

text \<open>The first \<open>m\<close> requests are read together, the others have not begun.\<close>

lemma bodies_not_throttled:
  assumes laws: "semaphore_counts L permits" and "m \<le> n"
  shows "\<exists>c. (request_step L n)\<^sup>*\<^sup>* (new_from_cpu_count L cpus) c
    \<and> (\<forall>k. request_state c k = (if k < m then Reading else Asking))"
  using \<open>m \<le> n\<close>
proof (induction m)
  case 0
  then show ?case by (intro exI [of _ "new_from_cpu_count L cpus"]) (simp add: new_from_cpu_count_def)
next
  case (Suc m)
  then obtain c where c: "(request_step L n)\<^sup>*\<^sup>* (new_from_cpu_count L cpus) c"
    and states: "request_state c k = (if k < m then Reading else Asking)" for k by auto
  from c obtain i where "(request_step L n ^^ i) (new_from_cpu_count L cpus) c" by (auto dest: rtranclp_imp_relpowp)
  with request_steps_run [OF laws] have "permits_ok permits n (max cpus min_permits) c" by blast
  moreover have "sending c = {}" by (simp add: sending_def states)
  ultimately obtain s where s: "acquire L (semaphore c) = Some s"
    using semaphore_countsD(2) [OF laws, of "semaphore c"]
    by (cases "acquire L (semaphore c)") (auto simp: permits_ok_def min_permits_def)
  let ?c1 = "set_request m Sending (c\<lparr>semaphore := s\<rparr>)"
  let ?c2 = "set_request m Reading (?c1\<lparr>semaphore := drop_permit L (semaphore ?c1)\<rparr>)"
  have "request_step L n c ?c1" by (rule permit) (use Suc.prems states s in auto)
  moreover have "request_step L n ?c1 ?c2" by (rule reply) (use Suc.prems in auto)
  ultimately have "(request_step L n)\<^sup>*\<^sup>* (new_from_cpu_count L cpus) ?c2"
    using c by (meson rtranclp.rtrancl_into_rtrancl)
  moreover have "request_state ?c2 k = (if k < Suc m then Reading else Asking)" for k
    using states by (auto simp: less_Suc_eq)
  ultimately show ?case by blast
qed

text \<open>C29: In every interleaving of \<open>n\<close> requests at most as many are being sent as there are permits, one for
  each processor and at least sixteen; no run is longer than three steps for each request, and it stops only
  when all of them are over. The permit is given back before the body is read: some run has all the \<open>n\<close>
  bodies, whatever their number, on their way at the same time.\<close>

theorem requests_throttled:
  assumes laws: "semaphore_counts L permits" and run: "(request_step L n ^^ m) (new_from_cpu_count L cpus) c"
  shows "card {k. request_state c k = Sending} \<le> max cpus 16 \<and> m \<le> 3 * n
    \<and> ((\<exists>c'. request_step L n c c') \<or> (\<forall>k < n. request_state c k = Ended))
    \<and> (\<exists>c'. (request_step L n)\<^sup>*\<^sup>* (new_from_cpu_count L cpus) c' \<and> (\<forall>k < n. request_state c' k = Reading))"
proof (intro conjI)
  note runs = request_steps_run [OF laws run]
  then show "card {k. request_state c k = Sending} \<le> max cpus 16"
    by (auto simp: permits_ok_def sending_def min_permits_def)
  from runs show "m \<le> 3 * n" by simp
  from runs show "(\<exists>c'. request_step L n c c') \<or> (\<forall>k < n. request_state c k = Ended)"
    using permit_for_someone [OF laws] by (fastforce simp: min_permits_def)
  show "\<exists>c'. (request_step L n)\<^sup>*\<^sup>* (new_from_cpu_count L cpus) c' \<and> (\<forall>k < n. request_state c' k = Reading)"
    using bodies_not_throttled [OF laws order.refl, of n cpus] by auto
qed

section \<open>Examples\<close>

text \<open>A semaphore that is the number of its permits; two requests, of which the first is being sent.\<close>

definition counter :: "nat semaphore_lib" where
  "counter = \<lparr> semaphore_new = (\<lambda>m. m), acquire = (\<lambda>s. if s = 0 then None else Some (s - 1)), drop_permit = Suc \<rparr>"

lemma counter_counts: "semaphore_counts counter (\<lambda>s. s)"
  by (auto simp: semaphore_counts_def counter_def)

theorem requests_throttled_witness:
  "(\<exists>c'. request_step counter 2 (set_request 0 Sending ((new_from_cpu_count counter 4)\<lparr>semaphore := 15\<rparr>)) c')
   \<and> card {k. request_state (set_request 0 Sending ((new_from_cpu_count counter 4)\<lparr>semaphore := 15\<rparr>)) k = Sending} \<le> 16"
proof -
  let ?c = "set_request 0 Sending ((new_from_cpu_count counter 4)\<lparr>semaphore := 15\<rparr>)"
  have "request_step counter 2 (new_from_cpu_count counter 4) ?c"
    by (rule permit) (simp_all add: new_from_cpu_count_def counter_def min_permits_def)
  then have "(request_step counter 2 ^^ 1) (new_from_cpu_count counter 4) ?c" by (simp only: relpowp_1)
  from requests_throttled [OF counter_counts this] show ?thesis by (auto dest: spec [of _ 0])
qed

end
