(* ===== verification/Lockfile_Sync.thy ===== *)
theory Lockfile_Sync
  imports Install_Example
begin

text \<open>
  When \<^verbatim>\<open>install.rs\<close> takes a lockfile to be in sync with the manifest, and that a lockfile it
  generated is.
\<close>

section \<open>Collected maps\<close>

abbreviation update_all :: "('k \<times> 'a) list \<Rightarrow> ('k \<times> 'a) list \<Rightarrow> ('k \<times> 'a) list" where
  "update_all xs m \<equiv> fold (\<lambda>(k, v). AList.update k v) xs m"

lemma map_of_update_all: "map_of (update_all xs m) = map_of m ++ map_of (rev xs)"
proof (induction xs arbitrary: m)
  case (Cons x xs)
  then show ?case by (cases x) (simp add: map_add_def update_conv' fun_eq_iff split: option.split)
qed simp

lemma distinct_update_all: "distinct (map fst m) \<Longrightarrow> distinct (map fst (update_all xs m))"
  by (induction xs arbitrary: m) (auto simp: distinct_update)

lemma map_of_collect_map: "map_of (collect_map xs) = map_of (rev xs)"
  by (simp add: collect_map_def map_of_update_all)

lemma distinct_collect_map: "distinct (map fst (collect_map xs))"
  by (simp add: collect_map_def distinct_update_all)

lemma length_collect_map: "length (collect_map xs) = card (dom (map_of (rev xs)))"
proof -
  have "length (collect_map xs) = card (fst ` set (collect_map xs))"
    using distinct_card [OF distinct_collect_map, of xs] by simp
  then show ?thesis by (simp add: dom_map_of_conv_image_fst [symmetric] map_of_collect_map)
qed

text \<open>Two maps of one size, one of which contains the other, are equal.\<close>

lemma same_size_submap:
  assumes "finite (dom n)" and le: "m \<subseteq>\<^sub>m n" and card: "card (dom m) = card (dom n)"
  shows "m = n"
proof -
  have "dom m = dom n" by (rule card_subset_eq [OF assms(1) map_le_implies_dom_le [OF le] card])
  with le show ?thesis by (auto simp: map_le_def fun_eq_iff) (metis domIff)
qed

lemma list_all_map_le:
  assumes "distinct (map fst xs)"
  shows "list_all (\<lambda>(k, v). n k = Some v) xs \<longleftrightarrow> map_of xs \<subseteq>\<^sub>m n"
proof -
  have "map_of xs \<subseteq>\<^sub>m n \<longleftrightarrow> (\<forall>k v. map_of xs k = Some v \<longrightarrow> n k = Some v)"
    by (auto simp: map_le_def dom_def)
  then show ?thesis by (auto simp: list_all_iff map_of_eq_Some_iff [OF assms])
qed

lemma update_map_keys:
  assumes "inj_on s (insert k (fst ` set al))"
  shows "map (\<lambda>(k, v). (s k, h v)) (AList.update k v al) = AList.update (s k) (h v) (map (\<lambda>(k, v). (s k, h v)) al)"
  using assms
proof (induction al)
  case (Cons x al)
  obtain k' v' where x: "x = (k', v')" by (cases x)
  have "inj_on s (insert k (fst ` set al))" using Cons.prems by (rule inj_on_subset) auto
  moreover have "s k = s k' \<longleftrightarrow> k = k'" using Cons.prems by (auto simp: x inj_on_def)
  ultimately show ?case using Cons.IH by (auto simp: x)
qed simp

lemma update_all_map_keys:
  assumes "inj_on s (fst ` set xs \<union> fst ` set m)"
  shows "map (\<lambda>(k, v). (s k, h v)) (update_all xs m)
    = update_all (map (\<lambda>(k, v). (s k, h v)) xs) (map (\<lambda>(k, v). (s k, h v)) m)"
  using assms
proof (induction xs arbitrary: m)
  case (Cons x xs)
  obtain k v where x: "x = (k, v)" by (cases x)
  have keys: "fst ` set (AList.update k v m) = insert k (fst ` set m)"
    by (simp add: dom_update)
  have a: "inj_on s (fst ` set xs \<union> fst ` set (AList.update k v m))"
    using Cons.prems by (rule inj_on_subset) (auto simp: keys x)
  have b: "inj_on s (insert k (fst ` set m))"
    using Cons.prems by (rule inj_on_subset) (auto simp: x)
  show ?case using Cons.IH [OF a] by (simp only: x fold_Cons o_apply prod.case list.map update_map_keys [OF b])
qed simp

section \<open>The comparison\<close>

text \<open>What the manifest asks for and what the lockfile records, by name.\<close>

definition manifest_specifiers :: "package_manifest \<Rightarrow> dependency_group \<Rightarrow> string \<rightharpoonup> string" where
  "manifest_specifiers M g = map_of (rev (manifest_dependencies M [g]))"

definition recorded_specifiers :: "'v project_snapshot \<Rightarrow> dependency_group \<Rightarrow> string \<rightharpoonup> string" where
  "recorded_specifiers p g =
     map_of (rev (map (\<lambda>(nm, spec). (pkg_name_to_string nm, rd_specifier spec)) (iter_opt (get_map_by_group p g))))"

lemma finite_recorded: "finite (dom (recorded_specifiers p g))"
  by (simp add: recorded_specifiers_def finite_dom_map_of)

lemma group_in_sync_iff: "group_in_sync M p g \<longleftrightarrow> manifest_specifiers M g = recorded_specifiers p g"
proof -
  let ?A = "collect_map (manifest_dependencies M [g])"
  let ?B = "collect_map (map (\<lambda>(nm, spec). (pkg_name_to_string nm, rd_specifier spec)) (iter_opt (get_map_by_group p g)))"
  have A: "map_of ?A = manifest_specifiers M g" by (simp add: map_of_collect_map manifest_specifiers_def)
  have B: "map_of ?B = recorded_specifiers p g" by (simp add: map_of_collect_map recorded_specifiers_def)
  have sync: "group_in_sync M p g \<longleftrightarrow> length ?A = length ?B \<and> list_all (\<lambda>(nm, specifier). map_of ?B nm = Some specifier) ?A"
    by (simp add: group_in_sync_def Let_def iter_opt_def collect_map_def split: option.split)
  have all: "list_all (\<lambda>(nm, specifier). map_of ?B nm = Some specifier) ?A \<longleftrightarrow> map_of ?A \<subseteq>\<^sub>m map_of ?B"
    by (rule list_all_map_le [OF distinct_collect_map])
  have len: "length ?A = card (dom (manifest_specifiers M g))" "length ?B = card (dom (recorded_specifiers p g))"
    by (simp_all add: length_collect_map manifest_specifiers_def recorded_specifiers_def)
  show ?thesis
    unfolding sync all [unfolded A B] B len
    using same_size_submap [OF finite_recorded, of "manifest_specifiers M g" p g] by auto
qed

text \<open>C21: A lockfile is in sync with the manifest exactly when it belongs to a single project and,
  for every group asked for, records the very names and specifiers that the manifest has: none is
  missing, none is left over and none differs.\<close>

theorem lockfile_matches_manifest_spec:
  "lockfile_matches_manifest M lf groups \<longleftrightarrow>
     (\<exists>p. lf_project_snapshot lf = Single p
        \<and> (\<forall>g \<in> set groups. manifest_specifiers M g = recorded_specifiers p g))"
  by (auto simp: lockfile_matches_manifest_def list_all_iff group_in_sync_iff split: root_project_snapshot.split)

definition locked_manifest :: package_manifest where
  "locked_manifest =
     \<lparr> mf_path = abs_path [''work'', ''package.json''], mf_value = JObj [(''dependencies'', JObj [(''p'', JStr ''1.0.0'')])] \<rparr>"

theorem lockfile_matches_manifest_spec_witness:
  "lockfile_matches_manifest locked_manifest locked_project [Prod]
   \<and> \<not> lockfile_matches_manifest project_manifest locked_project [Prod]"
proof -
  obtain p where p: "lf_project_snapshot locked_project = Single p" and rec: "recorded_specifiers p Prod = [''p'' \<mapsto> ''1.0.0'']"
    by (simp add: locked_project_def recorded_specifiers_def get_map_by_group_def iter_opt_def pkg_name_to_string_def)
  have "manifest_specifiers locked_manifest Prod = [''p'' \<mapsto> ''1.0.0'']"
    by (simp add: manifest_specifiers_def locked_manifest_def manifest_dependencies_def group_entries_def)
  moreover have "manifest_specifiers project_manifest Prod ''q'' = Some ''1.0.0''"
    by (simp add: manifest_specifiers_def project_manifest_def manifest_dependencies_def group_entries_def)
  ultimately show ?thesis
    using lockfile_matches_manifest_spec [of _ locked_project "[Prod]"] p rec by auto
qed

section \<open>A generated lockfile\<close>

lemma root_entry_specifier:
  "root_entry fuel G g (nm, specifier) b = (b', Inr y) \<Longrightarrow>
     pkg_name_parse (g_extern G) nm = Inr (fst y) \<and> rd_specifier (snd y) = specifier"
  by (auto simp: root_entry_def result_simps expect_name_def)

lemma root_group_specifiers:
  assumes ok: "split_first_ok (g_extern G)"
    and run: "build_root_group fuel G M groups g b = (b', Inr m)" and g: "g \<in> set groups"
  shows "map_of (rev (map (\<lambda>(nm, spec). (pkg_name_to_string nm, rd_specifier spec)) (iter_opt m))) = manifest_specifiers M g"
proof -
  let ?f = "\<lambda>(nm, spec :: 'a resolved_dependency_spec). (pkg_name_to_string nm, rd_specifier spec)"
  obtain ins where each: "act_each (root_entry fuel G g) (manifest_dependencies M [g]) b = (b', Inr ins)"
    and m: "m = non_empty (update_all ins [])"
    using run g by (auto simp: build_root_group_eq result_simps)
  have all: "list_all2 (\<lambda>x y. pkg_name_parse (g_extern G) (fst x) = Inr (fst y) \<and> rd_specifier (snd y) = snd x)
      (manifest_dependencies M [g]) ins"
    by (rule each_results [OF each]) (auto dest: root_entry_specifier)
  have deps: "map ?f ins = manifest_dependencies M [g]"
    using all
    by (induction rule: list_all2_induct) (auto dest: pkg_name_text.print_parse [OF ok])
  have "\<exists>s. pkg_name_parse (g_extern G) s = Inr n" if "n \<in> fst ` set ins" for n
    using that all by (auto simp: list_all2_conv_all_nth in_set_conv_nth) (metis fst_conv)
  then have "inj_on pkg_name_to_string (fst ` set ins \<union> fst ` set ([] :: (pkg_name \<times> 'a resolved_dependency_spec) list))"
    by (intro inj_onI) (metis Un_empty_right list.set(1) image_empty sum.inject(2) pkg_name_text.print_parse [OF ok])
  from update_all_map_keys [OF this, of rd_specifier]
  have "map ?f (update_all ins []) = update_all (manifest_dependencies M [g]) []" by (simp add: deps)
  moreover have "iter_opt m = update_all ins []" by (simp add: m iter_opt_def non_empty_def)
  ultimately have eq: "map ?f (iter_opt m) = collect_map (manifest_dependencies M [g])"
    by (simp add: collect_map_def)
  have "map_of (rev (collect_map xs)) = map_of (collect_map xs)" for xs :: "(string \<times> string) list"
    by (rule map_of_inject_set [THEN iffD2]) (use distinct_collect_map in \<open>auto simp: rev_map [symmetric]\<close>)
  then show ?thesis by (simp add: eq manifest_specifiers_def map_of_collect_map)
qed

lemma root_group_disabled:
  "build_root_group fuel G M groups g b = (b', Inr m) \<Longrightarrow> g \<notin> set groups \<Longrightarrow> m = None"
  by (simp add: build_root_group_def result_simps)

definition enabled :: "dependency_group list \<Rightarrow> dependency_group \<Rightarrow> bool" where
  "enabled groups g \<longleftrightarrow> g \<in> set groups \<and> g \<noteq> Peer"

text \<open>A generated lockfile records the manifest's specifiers for the groups it was generated for,
  and nothing for the others.\<close>

lemma generated_records:
  assumes ok: "split_first_ok (g_extern G)"
    and run: "generate_lockfile fuel G M groups w = (w', Inr lf)"
  shows "\<exists>p. lf_project_snapshot lf = Single p
    \<and> (\<forall>g. recorded_specifiers p g = (if enabled groups g then manifest_specifiers M g else Map.empty))"
proof -
  obtain b1 b2 b3 d1 d2 d3 where
    d1: "build_root_group fuel G M groups Prod (start_builder w) = (b1, Inr d1)" and
    d2: "build_root_group fuel G M groups Optional b1 = (b2, Inr d2)" and
    d3: "build_root_group fuel G M groups Dev b2 = (b3, Inr d3)" and
    p: "lf_project_snapshot lf = Single
          \<lparr> ps_specifiers = None, ps_dependencies = d1, ps_optional_dependencies = d2,
            ps_dev_dependencies = d3, ps_dependencies_meta = None, ps_publish_directory = None \<rparr>"
    by (rule generate_run [OF run]) blast
  let ?p = "\<lparr> ps_specifiers = None, ps_dependencies = d1, ps_optional_dependencies = d2,
            ps_dev_dependencies = d3, ps_dependencies_meta = None, ps_publish_directory = None \<rparr>"
  have group: "recorded_specifiers ?p g = (if g \<in> set groups then manifest_specifiers M g else Map.empty)"
    if "build_root_group fuel G M groups g b = (b', Inr (get_map_by_group ?p g))" for g b b'
    using root_group_specifiers [OF ok that] root_group_disabled [OF that]
    by (auto simp: recorded_specifiers_def iter_opt_def)
  have "recorded_specifiers ?p g = (if enabled groups g then manifest_specifiers M g else Map.empty)" for g
    using group [of Prod] group [of Optional] group [of Dev] d1 d2 d3
    by (cases g) (auto simp: enabled_def get_map_by_group_def recorded_specifiers_def iter_opt_def)
  with p show ?thesis by blast
qed

text \<open>C20: The lockfile that an installation generates for some groups is in sync with its manifest
  for other groups exactly when these are among the groups it was generated for, or the manifest has
  nothing in them. So an installation is followed by frozen ones with the same groups, but one with
  fewer groups (\<^verbatim>\<open>--prod\<close>, or an \<^verbatim>\<open>add\<close> to one group) leaves a lockfile that the full
  installation rejects.\<close>

theorem generated_lockfile_in_sync:
  assumes "split_first_ok (g_extern G)"
    and "generate_lockfile fuel G M groups w = (w', Inr lf)"
  shows "lockfile_in_sync M lf groups'
    \<longleftrightarrow> (\<forall>g \<in> set groups'. enabled groups g \<or> manifest_dependencies M [g] = [])"
proof -
  have empty: "manifest_specifiers M g = Map.empty \<longleftrightarrow> manifest_dependencies M [g] = []" for g
    by (simp add: manifest_specifiers_def)
  from generated_records [OF assms] obtain p where p: "lf_project_snapshot lf = Single p"
    and rec: "\<And>g. recorded_specifiers p g = (if enabled groups g then manifest_specifiers M g else Map.empty)"
    by blast
  have "manifest_specifiers M g = recorded_specifiers p g \<longleftrightarrow> enabled groups g \<or> manifest_dependencies M [g] = []" for g
    by (simp add: rec empty)
  with p show ?thesis
    by (simp add: lockfile_in_sync_def lockfile_matches_manifest_def list_all_iff group_in_sync_iff)
qed

theorem generated_lockfile_in_sync_witness:
  "\<exists>w' lf. generate_lockfile 5 example_generator project_manifest [Prod] (world3 empty_fs) = (w', Inr lf)
     \<and> lockfile_in_sync project_manifest lf [Prod, Dev]"
proof -
  obtain lf where res: "snd (generate_lockfile 5 example_generator project_manifest [Prod] (world3 empty_fs)) = Inr lf"
    using optional_flag_stays_on_children
    by (cases "snd (generate_lockfile 5 example_generator project_manifest [Prod] (world3 empty_fs))") auto
  from ex_state [OF res] obtain w' where
    run: "generate_lockfile 5 example_generator project_manifest [Prod] (world3 empty_fs) = (w', Inr lf)" ..
  have "split_first_ok (g_extern example_generator)" by (simp add: example_generator_def names_okD)
  from generated_lockfile_in_sync [OF this run, of "[Prod, Dev]"] run show ?thesis
    by (simp add: enabled_def project_manifest_def manifest_dependencies_def group_entries_def)
qed

section \<open>A project without dependencies\<close>

lemma root_group_empty:
  "(g \<in> set groups \<Longrightarrow> manifest_dependencies M [g] = []) \<Longrightarrow> build_root_group fuel G M groups g b = (b, Inr None)"
  by (simp add: build_root_group_def act_simps non_empty_def)

lemma generate_empty:
  assumes "\<And>g. enabled groups g \<Longrightarrow> manifest_dependencies M [g] = []"
  shows "\<exists>lf. generate_lockfile fuel G M groups w = (w, Inr lf) \<and> lf_packages lf = None
    \<and> cv_major (lf_lockfile_version lf) = 6"
proof -
  have "build_root_group fuel G M groups g b = (b, Inr None)" if "g \<noteq> Peer" for g b
    using assms [of g] that by (intro root_group_empty) (simp add: enabled_def)
  then show ?thesis by (simp add: generate_lockfile_def act_simps non_empty_def)
qed

text \<open>Installing a project without dependencies panics: the lockfile it generates has no
  packages, and \<^verbatim>\<open>CreateVirtualStore\<close> has a \<^verbatim>\<open>todo!\<close> for that case. This is so whatever the network, the
  file system and the remaining settings are.\<close>

lemma install_without_dependencies_panics:
  assumes empty: "\<And>g. enabled groups g \<Longrightarrow> manifest_dependencies M [g] = []"
    and lockfile: "nc_lockfile (ws_config W)"
    and flags: "\<not> if_offline flags" "\<not> if_frozen_lockfile flags" "\<not> if_lockfile_only flags" "\<not> if_resolution_only flags"
  shows "\<exists>msg. snd (install W M None groups flags w) = Inl (Panic msg)"
proof -
  let ?G = "\<lparr> g_extern = i_extern (ws_installer W), g_store = i_store (ws_installer W),
              g_network = i_network (ws_installer W), g_config = ws_config W,
              g_mode = metadata_mode (if_prefer_offline flags) \<rparr>"
  obtain lf where gen: "generate_lockfile (ws_fuel W) ?G M groups w = (w, Inr lf)"
    and lf: "lf_packages lf = None" "cv_major (lf_lockfile_version lf) = 6"
    using generate_empty [of groups M "ws_fuel W" ?G w] empty by blast
  show ?thesis
    by (auto simp: install_def install_packages_def flags lockfile generate_and_save_def Let_def act_expect_def
        gen lf act_simps install_from_lockfile_def install_frozen_lockfile_def create_virtual_store_def map_err_eq_Inl
        split: prod.split sum.split)
qed

lemma install_without_dependencies_panics_example:
  "\<exists>msg. snd (install example_workspace \<lparr> mf_path = [Normal ''package.json''], mf_value = JObj [] \<rparr> None [Prod, Dev, Optional]
      no_flags (world3 empty_fs) :: ver3 world \<times> (unit failure + unit)) = Inl (Panic msg)"
  by (rule install_without_dependencies_panics)
     (simp_all add: example_workspace_def example_installer_def example_config_def no_flags_def
      manifest_dependencies_def group_entries_def)

end
