(* ===== verification/Registry_Termination.thy ===== *)
theory Registry_Termination
  imports Install_Example
begin

text \<open>
  The two recursions over the dependencies that a registry serves end: \<^verbatim>\<open>store add\<close> and the
  installation without a lockfile visit a package once, by its virtual store name, so their depth
  is bounded by the number of names.
\<close>

section \<open>Actions that are no bounded recursion\<close>

lemma fuel_free_each: "(\<And>x. fuel_free (f x)) \<Longrightarrow> fuel_free (act_each f xs)"
  by (induction xs) (auto intro!: fuel_free_bind)

lemma fuel_free_settle: "fuel_free m \<Longrightarrow> fuel_free (act_settle m)"
  unfolding fuel_free_def act_settle_def
  by (auto split: prod.split sum.split failure.split) (metis snd_conv)

lemma fuel_free_join: "(\<And>x. fuel_free (f x)) \<Longrightarrow> fuel_free (act_join f xs)"
  unfolding act_join_def by (intro fuel_free_each fuel_free_settle)

lemma fuel_free_collect: "fuel_free (act_collect rs)"
  unfolding act_collect_def by (rule fuel_free_read) (auto simp: map_err_eq_Inl)

lemma fuel_free_map_err_keep:
  assumes "fuel_free m" and "\<And>e. g e = OutOfFuel \<Longrightarrow> e = OutOfFuel"
  shows "fuel_free (act_map_err g m)"
  unfolding fuel_free_def
proof
  fix s
  show "snd (act_map_err g m s) \<noteq> Inl OutOfFuel"
    using assms(1) assms(2) [of "case snd (m s) of Inl e \<Rightarrow> e"]
    by (cases "snd (m s)") (auto simp: act_simps map_err_def fuel_free_def)
qed

lemma fuel_free_map_failure: "fuel_free m \<Longrightarrow> fuel_free (act_map_err (map_failure_err g) m)"
  by (rule fuel_free_map_err_keep) (auto simp: map_failure_err_def split: failure.splits)

lemma fuel_free_expect: "fuel_free m \<Longrightarrow> fuel_free (act_expect msg m)"
  unfolding act_expect_def by (rule fuel_free_map_err_keep) (auto split: failure.splits)

lemma fuel_free_spawn_join: "fuel_free m \<Longrightarrow> fuel_free (spawn_join m)"
  unfolding spawn_join_def by (rule fuel_free_map_err_keep) (auto split: failure.splits)

lemma fuel_free_on_fs: "fuel_free m \<Longrightarrow> fuel_free (on_fs m)"
  unfolding on_fs_def by (rule fuel_free_on)

lemma traverse_no_fuel: "(\<And>x. x \<in> set xs \<Longrightarrow> f x \<noteq> Inl OutOfFuel) \<Longrightarrow> traverse f xs \<noteq> Inl OutOfFuel"
  by (auto dest: traverse_Inl)

lemma fuel_free_write_cas: "fuel_free (write_cas_file L S b x)"
proof -
  have "fuel_free (ensure_file p c m)" for p c m
    unfolding ensure_file_def by (auto intro!: fuel_free_bind fuel_free_read fuel_free_map_err split: option.split)
  then show ?thesis
    unfolding write_cas_file_def Let_def
    by (intro fuel_free_bind fuel_free_read) (auto simp: cas_file_path_def file_path_by_hex_str_def Let_def)
qed

lemma fuel_free_unpack: "fuel_free (unpack_tarball L T S i sz url r)"
proof -
  have ensure: "fuel_free (ensure_file p c m)" for p c m
    unfolding ensure_file_def by (auto intro!: fuel_free_bind fuel_free_read fuel_free_map_err split: option.split)
  have entry: "fuel_free (unpack_entry L T S r acc)" for r acc
    unfolding unpack_entry_def Let_def
    by (auto intro!: fuel_free_bind fuel_free_map_failure fuel_free_write_cas split: prod.split sum.split)
  have entries: "fuel_free (unpack_entries L T S rs acc)" for rs acc
    by (induction rs arbitrary: acc) (auto intro!: fuel_free_bind entry)
  have index: "fuel_free (write_index_file L S i ix)" for ix
    unfolding write_index_file_def
    by (intro fuel_free_bind fuel_free_read)
       (auto simp: index_file_path_def file_path_by_hex_str_def Let_def ensure split: prod.split sum.split)
  show ?thesis
    unfolding unpack_tarball_def
    by (intro fuel_free_bind fuel_free_read) (auto simp: map_err_eq_Inl intro!: fuel_free_bind entries fuel_free_map_failure index)
qed

lemma fuel_free_download: "fuel_free (run_with_mem_cache L T N S i sz url mode)"
proof -
  have cas: "(cas_file_path_by_integrity L S j x :: tarball_error failure + path) \<noteq> Inl OutOfFuel" for j x
    by (simp add: cas_file_path_by_integrity_def file_path_by_hex_str_def Let_def split: prod.split)
  have "read_index_file L S F i \<noteq> Inl OutOfFuel" for F
    by (auto simp: read_index_file_def index_file_path_def file_path_by_hex_str_def Let_def result_simps
        split: prod.splits sum.splits if_splits)
  then have load: "load_from_store L S i F \<noteq> Inl OutOfFuel" for F
    using cas by (auto simp: load_from_store_def map_failure_err_def Let_def result_simps split: option.splits failure.splits
        dest!: traverse_Inl)
  have "fuel_free (run_without_mem_cache L T N S i sz url)"
    unfolding run_without_mem_cache_def
    by (intro fuel_free_bind fuel_free_map_err fuel_free_spawn_join fuel_free_on_fs fuel_free_unpack) simp
  then have "fuel_free (obtain_tarball L T N S i sz url mode)"
    unfolding obtain_tarball_def by (auto intro!: fuel_free_bind fuel_free_read load split: option.split)
  moreover have "fuel_free (set_cache url v)" for url v by (simp add: fuel_free_def set_cache_def)
  moreover have "fuel_free (act_throw Blocked)" by (simp add: fuel_free_def act_throw_def)
  ultimately show ?thesis
    unfolding run_with_mem_cache_def
    by (auto intro!: fuel_free_bind fuel_free_read split: option.split cache_value.split)
qed

section \<open>More fuel refines\<close>

lemma refines_for: "(\<And>x. x \<in> set xs \<Longrightarrow> refines e (f x) (f' x)) \<Longrightarrow> refines e (act_for f xs) (act_for f' xs)"
  unfolding act_for_def by (intro refines_bind refines_each refines_refl)

lemma refines_settle: "refines OutOfFuel m m' \<Longrightarrow> refines OutOfFuel (act_settle m) (act_settle m')"
  unfolding refines_def act_settle_def by (metis (no_types, lifting) case_prod_conv failure.case(4) prod.collapse snd_conv sum.case(1))

lemma refines_join:
  "(\<And>x. x \<in> set xs \<Longrightarrow> refines OutOfFuel (f x) (f' x)) \<Longrightarrow> refines OutOfFuel (act_join f xs) (act_join f' xs)"
  unfolding act_join_def by (intro refines_each refines_settle)

lemma refines_store_package:
  "fuel \<le> fuel' \<Longrightarrow> refines OutOfFuel (store_package_and_dependencies fuel I package) (store_package_and_dependencies fuel' I package)"
proof (induction fuel arbitrary: fuel' package)
  case 0
  show ?case by (simp add: refines_def act_throw_def)
next
  case (Suc fuel)
  from Suc.prems obtain k where k: "fuel' = Suc k" "fuel \<le> k" by (cases fuel') auto
  show ?case
    unfolding k(1) store_package_and_dependencies.simps
    by (auto intro!: refines_bind refines_for Suc.IH [OF k(2)] split: option.split)
qed

lemma refines_install_dependencies:
  "fuel \<le> fuel' \<Longrightarrow> refines OutOfFuel (install_dependencies_from_registry fuel I mode package :: ('v world, 'e failure, unit) action)
     (install_dependencies_from_registry fuel' I mode package)"
proof (induction fuel arbitrary: fuel' package)
  case 0
  show ?case by (simp add: refines_def act_throw_def)
next
  case (Suc fuel)
  from Suc.prems obtain k where k: "fuel' = Suc k" "fuel \<le> k" by (cases fuel') auto
  show ?case
    unfolding k(1) install_dependencies_from_registry.simps Let_def
    by (auto intro!: refines_bind refines_join Suc.IH [OF k(2)])
qed

section \<open>What a step does\<close>

text \<open>The installer as a reader of metadata, and the names that the registry can give.\<close>

definition metadata_reader :: "('v, 'r) installer \<Rightarrow> registry_metadata_mode \<Rightarrow> ('v, 'r) generator" where
  "metadata_reader I mode =
     \<lparr> g_extern = i_extern I, g_store = i_store I, g_network = i_network I, g_config = i_config I, g_mode = mode \<rparr>"

definition names_in :: "('v, 'r) installer \<Rightarrow> string set \<Rightarrow> string \<Rightarrow> 'v package \<Rightarrow> bool" where
  "names_in I U nm p \<longleftrightarrow> (\<forall>v \<in> snd ` set (pk_versions p). pv_to_virtual_store_name (i_extern I) v \<in> U)"

text \<open>
  \<open>visits\<close>: names are only added to the visited ones, and the metadata in memory stays what the registry
  can give.
\<close>

definition visits :: "(string \<Rightarrow> 'v package \<Rightarrow> bool) \<Rightarrow> ('v, 'r) generator \<Rightarrow> 'v world \<Rightarrow> 'v world \<Rightarrow> bool" where
  "visits Q G w w' \<longleftrightarrow> set (w_resolved w) \<subseteq> set (w_resolved w') \<and> (world_serves Q G w \<longrightarrow> world_serves Q G w')"

interpretation visiting: state_order "visits Q G" for Q :: "string \<Rightarrow> 'v package \<Rightarrow> bool" and G :: "('v, 'r) generator"
  by unfold_locales (auto simp: visits_def)

lemma visiting_same: "w_resolved w' = w_resolved w \<Longrightarrow> w_metadata w' = w_metadata w \<Longrightarrow> visits Q G w w'"
  by (simp add: visits_def world_serves_def)

lemma visiting_on_fs: "steps (visits Q G) (on_fs m)"
  by (auto simp: steps_def on_fs_def act_on_def split: prod.split intro: visiting_same)

lemma visiting_http: "steps (visits Q G) (http_get f url)"
  by (auto simp: steps_def http_get_def intro: visiting_same)

lemma visiting_set_cache: "steps (visits Q G) (set_cache url v)"
  by (auto simp: steps_def set_cache_def intro: visiting_same)

lemma visiting_mark: "steps (visits Q G) (mark_resolved nm)"
  by (auto simp: steps_def mark_resolved_def visits_def world_serves_def)

lemmas visiting_steps = visiting.steps_intros visiting.async_steps visiting_on_fs visiting_http visiting_set_cache

lemma visiting_download: "steps (visits Q G) (run_with_mem_cache L T N S i sz url mode)"
  unfolding run_with_mem_cache_def obtain_tarball_def run_without_mem_cache_def spawn_join_def
  by (auto intro!: visiting_steps split: option.split cache_value.split)

abbreviation serves_names :: "('v, 'r) installer \<Rightarrow> registry_metadata_mode \<Rightarrow> string set \<Rightarrow> 'v world \<Rightarrow> bool" where
  "serves_names I mode U w \<equiv> world_serves (names_in I U) (metadata_reader I mode) w"

lemma fetch_version_run:
  assumes R: "registry_serves (names_in I U) (metadata_reader I mode)" and w: "serves_names I mode U w"
    and run: "fetch_version I mode nm version_range w = (w', r)"
  shows "serves_names I mode U w' \<and> w_resolved w' = w_resolved w
    \<and> (\<forall>v. r = Inr v \<longrightarrow> pv_to_virtual_store_name (i_extern I) v \<in> U) \<and> r \<noteq> Inl OutOfFuel"
proof -
  let ?G = "metadata_reader I mode"
  obtain q where f: "fetch_package_metadata (g_store ?G) (g_network ?G) nm (nc_registry (g_config ?G))
      (nc_store_dir (g_config ?G)) (g_mode ?G) w = (w', q)"
    and r: "r = rbind q (\<lambda>p. version_by_specifier (i_extern I) p version_range)"
    using run by (auto simp: fetch_version_def act_bind_def act_read_def metadata_reader_def split: sum.splits prod.splits)
  note s = fetch_serves [OF R w f]
  have "w_resolved w' = w_resolved w"
    using fetch_package_metadata_step [OF f] by (simp add: metadata_step_def)
  moreover have "pv_to_virtual_store_name (i_extern I) v \<in> U" if "r = Inr v" for v
    using that s by (auto simp: r result_simps names_in_def dest: version_by_specifier_mem)
  moreover have "version_by_specifier X p sp \<noteq> Inl OutOfFuel" for X and p :: "'a package" and sp
    by (auto simp: version_by_specifier_def pinned_version_def result_simps split: sum.splits)
  then have "r \<noteq> Inl OutOfFuel" using s by (auto simp: r result_simps)
  ultimately show ?thesis using s by blast
qed

lemma visiting_fetch_version:
  assumes R: "registry_serves (names_in I U) (metadata_reader I mode)"
  shows "steps (visits (names_in I U) (metadata_reader I mode)) (fetch_version I mode nm version_range)"
  unfolding steps_def
proof
  fix w :: "'a world"
  obtain w' r where run: "fetch_version I mode nm version_range w = (w', r)" by (cases "fetch_version I mode nm version_range w")
  have "w_resolved w' = w_resolved w"
    using run by (auto simp: fetch_version_def act_bind_def act_read_def split: sum.splits prod.splits
        dest!: fetch_package_metadata_step simp: metadata_step_def)
  with fetch_version_run [OF R _ run] show "visits (names_in I U) (metadata_reader I mode) w (fst (fetch_version I mode nm version_range w))"
    by (simp add: run visits_def)
qed

text \<open>The names still to be visited.\<close>

definition unvisited_names :: "string set \<Rightarrow> 'v world \<Rightarrow> nat" where
  "unvisited_names U w = card (U - set (w_resolved w))"

lemma unvisited_mono: "finite U \<Longrightarrow> visits Q G w w' \<Longrightarrow> unvisited_names U w' \<le> unvisited_names U w"
  unfolding unvisited_names_def visits_def by (intro card_mono) auto

lemma unvisited_mark:
  assumes "finite U" and "nm \<in> U" and "mark_resolved nm w = (w', Inr True)"
  shows "unvisited_names U w' < unvisited_names U w"
proof -
  have "nm \<notin> set (w_resolved w)" "w' = w\<lparr>w_resolved := nm # w_resolved w\<rparr>"
    using assms(3) by (auto simp: mark_resolved_def split: if_splits)
  with assms(1,2) show ?thesis unfolding unvisited_names_def by (intro psubset_card_mono) auto
qed

section \<open>Filling the store\<close>

lemma visiting_store_package:
  assumes R: "registry_serves (names_in I U) (metadata_reader I Online)"
  shows "steps (visits (names_in I U) (metadata_reader I Online)) (store_package_and_dependencies fuel I package)"
proof (induction fuel arbitrary: package)
  case (Suc fuel)
  show ?case
    unfolding store_package_and_dependencies.simps
    by (auto intro!: visiting_steps visiting_mark visiting_download visiting_fetch_version [OF R] Suc.IH
        split: option.split prod.split)
qed (simp add: visiting.steps_throw)

text \<open>The versions of several dependencies, as the tasks of the two recursions find them.\<close>

lemma fetch_versions_run:
  assumes R: "registry_serves (names_in I U) (metadata_reader I mode)" and w: "serves_names I mode U w"
    and run: "act_each (\<lambda>x. act_map_err (map_failure_err err) (fetch_version I mode (nm x) (rng x))) xs w = (w', Inr vs)"
  shows "\<forall>v \<in> set vs. pv_to_virtual_store_name (i_extern I) v \<in> U"
proof -
  let ?V = "visits (names_in I U) (metadata_reader I mode)"
  have "serves_names I mode U w' \<and> ?V w w' \<and> list_all2 (\<lambda>x v. pv_to_virtual_store_name (i_extern I) v \<in> U) xs vs"
  proof (rule visiting.each_run [OF _ _ run])
    fix x s s' y
    assume s: "serves_names I mode U s" and "act_map_err (map_failure_err err) (fetch_version I mode (nm x) (rng x)) s = (s', Inr y)"
    then have f: "fetch_version I mode (nm x) (rng x) s = (s', Inr y)" by (simp add: act_map_err_eq_Inr)
    from fetch_version_run [OF R s f] show "serves_names I mode U s' \<and> ?V s s' \<and> pv_to_virtual_store_name (i_extern I) y \<in> U"
      by (simp add: visits_def)
  qed (use w in simp_all)
  then have l: "list_all2 (\<lambda>x v. pv_to_virtual_store_name (i_extern I) v \<in> U) xs vs" by simp
  then show ?thesis by (induction rule: list_all2_induct) simp_all
qed

lemma fuel_free_fetch_version: "fuel_free (fetch_version I mode nm version_range)"
  unfolding fetch_version_def
  by (intro fuel_free_bind fuel_free_fetch fuel_free_read)
     (auto simp: version_by_specifier_def pinned_version_def result_simps split: sum.splits)

text \<open>When a run over several packages meets the bound, it does so at one of them, in a state like the first.\<close>

lemma store_packages_out_of_fuel:
  assumes R: "registry_serves (names_in I U) (metadata_reader I Online)" and fin: "finite U"
    and s: "serves_names I Online U w" and small: "unvisited_names U w < fuel'"
    and run: "act_for (store_package_and_dependencies fuel I) vs w = (w', Inl OutOfFuel)"
  shows "\<exists>x \<in> set vs. \<exists>s1. serves_names I Online U s1 \<and> unvisited_names U s1 < fuel'
    \<and> store_package_and_dependencies fuel I x s1 = (w', Inl OutOfFuel)"
proof -
  let ?V = "visits (names_in I U) (metadata_reader I Online)"
  have "act_each (store_package_and_dependencies fuel I) vs w = (w', Inl OutOfFuel)"
    using run by (auto simp: act_for_def act_bind_Inl act_return_eq)
  then have "\<exists>x \<in> set vs. \<exists>s1. (serves_names I Online U s1 \<and> unvisited_names U s1 < fuel') \<and> ?V w s1
      \<and> store_package_and_dependencies fuel I x s1 = (w', Inl OutOfFuel)"
  proof (rule visiting.each_fail [rotated])
    fix x s s' and y :: unit
    assume s: "serves_names I Online U s \<and> unvisited_names U s < fuel'" and "store_package_and_dependencies fuel I x s = (s', Inr y)"
    then have "?V s s'" by (intro stepsD [OF visiting_store_package [OF R]])
    with s unvisited_mono [OF fin, of _ _ s s'] show "(serves_names I Online U s' \<and> unvisited_names U s' < fuel') \<and> ?V s s'"
      by (auto simp: visits_def intro: le_less_trans)
  qed (use s small in simp)
  then show ?thesis by blast
qed

lemma store_package_fuel:
  assumes R: "registry_serves (names_in I U) (metadata_reader I Online)" and fin: "finite U"
  shows "serves_names I Online U w \<Longrightarrow> pv_to_virtual_store_name (i_extern I) package \<in> U \<Longrightarrow> unvisited_names U w < fuel
    \<Longrightarrow> store_package_and_dependencies fuel I package w \<noteq> (w', Inl OutOfFuel)"
proof (induction fuel arbitrary: package w w')
  case (Suc fuel)
  let ?V = "visits (names_in I U) (metadata_reader I Online)"
  let ?nm = "pv_to_virtual_store_name (i_extern I) package"
  let ?deps = "package_dependencies package (nc_auto_install_peers (i_config I))"
  let ?fetch = "\<lambda>(nm, version_range). act_map_err (map_failure_err StoreFetchFromRegistry) (fetch_version I Online nm version_range)"
  show ?case
  proof
    assume run: "store_package_and_dependencies (Suc fuel) I package w = (w', Inl OutOfFuel)"
    obtain w1 fresh where m: "mark_resolved ?nm w = (w1, Inr fresh :: store_add_error failure + bool)"
      by (cases "?nm \<in> set (w_resolved w)") (auto simp: mark_resolved_def)
    with run have "fresh" by (auto simp: act_bind_def act_return_def split: if_splits)
    with m have m: "mark_resolved ?nm w = (w1, Inr True :: store_add_error failure + bool)" by simp
    obtain i where i: "pd_integrity (pv_dist package) = Some i"
      using run by (cases "pd_integrity (pv_dist package)") (auto simp: act_bind_def m act_throw_def)
    have free: "fuel_free (act_map_err (map_failure_err StoreDownloadTarball)
        (download I i (pd_unpacked_size (pv_dist package)) (as_tarball_url package) NetworkOnline))"
      by (intro fuel_free_map_failure fuel_free_download)
    have free2: "fuel_free (act_bind (act_join ?fetch ?deps) act_collect)"
      by (intro fuel_free_bind fuel_free_join fuel_free_collect) (auto intro: fuel_free_map_failure fuel_free_fetch_version)
    note free = fuel_freeD [OF free, THEN notE] fuel_freeD [OF free2, THEN notE]
    from run m i obtain w2 cas w3 vs where
      d: "act_map_err (map_failure_err StoreDownloadTarball)
            (download I i (pd_unpacked_size (pv_dist package)) (as_tarball_url package) NetworkOnline) w1 = (w2, Inr cas)"
      and f: "act_bind (act_join ?fetch ?deps) act_collect w2 = (w3, Inr vs)"
      and rec: "act_for (store_package_and_dependencies fuel I) vs w3 = (w', Inl OutOfFuel)"
      by (auto simp: act_bind_Inl [of "mark_resolved _"] act_bind_Inl [of "act_map_err _ _"] act_bind_Inl [of "act_bind _ act_collect"]
          elim: free)
    have v1: "?V w w1" by (rule stepsD [OF visiting_mark m])
    have v2: "?V w1 w2" by (rule stepsD [OF visiting.steps_map_err [OF visiting_download] d])
    have "steps ?V (act_bind (act_join ?fetch ?deps) act_collect)"
      by (auto intro!: visiting_steps visiting_fetch_version [OF R])
    from stepsD [OF this f] have v3: "?V w2 w3" .
    from v1 v2 v3 have v: "?V w1 w3" by (blast intro: visiting.trans)
    have s2: "serves_names I Online U w2" and s3: "serves_names I Online U w3"
      using Suc.prems(1) v1 v2 v3 by (simp_all add: visits_def)
    have "act_each ?fetch ?deps w2 = (w3, Inr vs)" using f by (simp only: act_join_collect_Inr)
    then have names: "\<forall>v \<in> set vs. pv_to_virtual_store_name (i_extern I) v \<in> U"
      using fetch_versions_run [OF R s2, of StoreFetchFromRegistry fst snd] by (simp add: split_def)
    have small: "unvisited_names U w3 < fuel"
      using unvisited_mark [OF fin Suc.prems(2) m] unvisited_mono [OF fin v] Suc.prems(3) by simp
    from store_packages_out_of_fuel [OF R fin s3 small rec] Suc.IH names show False by blast
  qed
qed simp

text \<open>C7: \<^verbatim>\<open>store add\<close> ends whenever the packages that the registry serves have finitely many names in the
  virtual store, cyclic dependencies included: a bound on the depth of the recursion above their
  number is never reached, and no greater bound changes the result.\<close>

theorem store_add_terminates:
  assumes R: "registry_serves (names_in I U) (metadata_reader I Online)" and fin: "finite U"
    and w: "serves_names I Online U w" and fuel: "card U < fuel"
  shows "snd (store_add fuel I packages w) \<noteq> Inl OutOfFuel
    \<and> (\<forall>fuel'. fuel \<le> fuel' \<longrightarrow> store_add fuel' I packages w = store_add fuel I packages w)"
proof -
  let ?f = "\<lambda>package. act_map_err (map_failure_err StoreFetchFromRegistry)
      (fetch_version I Online (sp_name (package_spec_parse package))
        (case sp_specifier (package_spec_parse package) of None \<Rightarrow> ''latest'' | Some s \<Rightarrow> s))"
  have add: "store_add k I packages = act_bind (act_bind (act_join ?f packages) act_collect)
      (act_for (store_package_and_dependencies k I))" for k
    by (simp add: store_add_def Let_def)
  have "snd (store_add fuel I packages w) \<noteq> Inl OutOfFuel"
  proof
    assume "snd (store_add fuel I packages w) = Inl OutOfFuel"
    then obtain w' where run: "store_add fuel I packages w = (w', Inl OutOfFuel)" by (cases "store_add fuel I packages w") simp
    have free: "fuel_free (act_bind (act_join ?f packages) act_collect)"
      by (intro fuel_free_bind fuel_free_join fuel_free_collect fuel_free_map_failure fuel_free_fetch_version)
    from run obtain w1 vs where f: "act_bind (act_join ?f packages) act_collect w = (w1, Inr vs)"
      and rec: "act_for (store_package_and_dependencies fuel I) vs w1 = (w', Inl OutOfFuel)"
      unfolding add by (auto simp: act_bind_Inl [of "act_bind _ act_collect"] elim: fuel_freeD [OF free, THEN notE])
    have "steps (visits (names_in I U) (metadata_reader I Online)) (act_bind (act_join ?f packages) act_collect)"
      by (intro visiting_steps visiting_fetch_version [OF R])
    from stepsD [OF this f] have v: "visits (names_in I U) (metadata_reader I Online) w w1" .
    have "act_each ?f packages w = (w1, Inr vs)" using f by (simp only: act_join_collect_Inr)
    then have names: "\<forall>v \<in> set vs. pv_to_virtual_store_name (i_extern I) v \<in> U"
      by (rule fetch_versions_run [OF R w])
    have small: "unvisited_names U w1 < fuel" unfolding unvisited_names_def
      using card_mono [OF fin, of "U - set (w_resolved w1)"] fuel by simp
    have "serves_names I Online U w1" using w v by (simp add: visits_def)
    from store_packages_out_of_fuel [OF R fin this small rec] store_package_fuel [OF R fin] names show False by blast
  qed
  moreover have "refines OutOfFuel (store_add fuel I packages) (store_add fuel' I packages)" if "fuel \<le> fuel'" for fuel'
    unfolding add by (intro refines_bind refines_for refines_store_package that refines_refl)
  ultimately show ?thesis unfolding refines_def by blast
qed

section \<open>Installing without a lockfile\<close>

lemma visiting_install_package:
  assumes R: "registry_serves (names_in I U) (metadata_reader I mode)"
  shows "steps (visits (names_in I U) (metadata_reader I mode)) (install_package_from_registry I mode dir nm version_range)"
  unfolding install_package_from_registry_def install_package_version_def Let_def
  by (auto intro!: visiting_steps visiting_download visiting_fetch_version [OF R] split: option.split)

lemma fuel_free_err: "fuel_free (act_map_err (\<lambda>e. Err (c e)) m)"
  by (rule fuel_free_map_err) simp

lemma fuel_free_install_package: "fuel_free (install_package_from_registry I mode dir nm version_range)"
  unfolding install_package_from_registry_def install_package_version_def Let_def
  by (auto intro!: fuel_free_bind fuel_free_map_failure fuel_free_fetch_version fuel_free_download fuel_free_err
      split: option.split)

lemma install_package_run:
  assumes R: "registry_serves (names_in I U) (metadata_reader I mode)" and w: "serves_names I mode U w"
    and run: "install_package_from_registry I mode dir nm version_range w = (w', Inr package)"
  shows "serves_names I mode U w' \<and> pv_to_virtual_store_name (i_extern I) package \<in> U"
proof -
  from run obtain w1 where f: "fetch_version I mode nm version_range w = (w1, Inr package)"
    by (auto simp: install_package_from_registry_def act_bind_Inr act_map_err_eq_Inr act_return_eq)
  have "visits (names_in I U) (metadata_reader I mode) w w'"
    by (rule stepsD [OF visiting_install_package [OF R] run])
  with w fetch_version_run [OF R w f] show ?thesis by (simp add: visits_def)
qed

lemma visiting_install_dependencies:
  assumes R: "registry_serves (names_in I U) (metadata_reader I mode)"
  shows "steps (visits (names_in I U) (metadata_reader I mode))
    (install_dependencies_from_registry fuel I mode package :: ('v world, 'e failure, unit) action)"
proof (induction fuel arbitrary: package)
  case (Suc fuel)
  show ?case
    unfolding install_dependencies_from_registry.simps act_expect_def Let_def
    by (auto intro!: visiting_steps visiting_mark visiting_install_package [OF R] Suc.IH split: prod.split)
qed (simp add: visiting.steps_throw)

text \<open>A package and its dependencies, as the tasks of the installation handle it.\<close>

abbreviation install_tree ::
    "nat \<Rightarrow> ('v, 'r) installer \<Rightarrow> registry_metadata_mode \<Rightarrow> path \<Rightarrow> string \<times> string \<Rightarrow> ('v world, 'e failure, unit) action" where
  "install_tree fuel I mode dir \<equiv> (\<lambda>(nm, version_range).
     act_bind (act_expect ''called Result::unwrap() on an Err value''
                 (install_package_from_registry I mode dir nm version_range)) (\<lambda>dependency.
     install_dependencies_from_registry fuel I mode dependency))"

lemma visiting_install_tree:
  assumes R: "registry_serves (names_in I U) (metadata_reader I mode)"
  shows "steps (visits (names_in I U) (metadata_reader I mode)) (install_tree fuel I mode dir x :: ('v world, 'e failure, unit) action)"
  unfolding act_expect_def
  by (auto intro!: visiting_steps visiting_install_package [OF R] visiting_install_dependencies [OF R] split: prod.split)

lemma act_settle_out_of_fuel:
  "act_settle m s = (s', Inl OutOfFuel) \<longleftrightarrow> m s = (s', Inl OutOfFuel)"
  by (auto simp: act_settle_def split: prod.splits sum.splits failure.splits)

lemma install_trees_out_of_fuel:
  fixes w :: "'v world" and I :: "('v, 'r) installer"
  assumes R: "registry_serves (names_in I U) (metadata_reader I mode)" and fin: "finite U"
    and s: "serves_names I mode U w" and small: "unvisited_names U w < fuel'"
    and run: "act_join (install_tree fuel I mode dir :: _ \<Rightarrow> ('v world, 'e failure, unit) action) xs w
      = (w', Inl OutOfFuel :: 'f failure + ('e + unit) list)"
  shows "\<exists>package s1. pv_to_virtual_store_name (i_extern I) package \<in> U
    \<and> serves_names I mode U s1 \<and> unvisited_names U s1 < fuel'
    \<and> (install_dependencies_from_registry fuel I mode package :: ('v world, 'e failure, unit) action) s1 = (w', Inl OutOfFuel)"
proof -
  let ?V = "visits (names_in I U) (metadata_reader I mode)"
  let ?t = "install_tree fuel I mode dir :: _ \<Rightarrow> ('v world, 'e failure, unit) action"
  have keep: "serves_names I mode U s' \<and> unvisited_names U s' < fuel'"
    if "serves_names I mode U s \<and> unvisited_names U s < fuel'" and "?V s s'" for s s'
    using that unvisited_mono [OF fin that(2)] by (auto simp: visits_def)
  have "\<exists>x \<in> set xs. \<exists>s1. (serves_names I mode U s1 \<and> unvisited_names U s1 < fuel') \<and> ?V w s1
      \<and> (act_settle (?t x) :: ('v world, 'f failure, 'e + unit) action) s1 = (w', Inl OutOfFuel)"
  proof (rule visiting.each_fail [OF _ run [unfolded act_join_def]])
    fix x s s' y
    assume s: "serves_names I mode U s \<and> unvisited_names U s < fuel'"
      and r: "(act_settle (?t x) :: ('v world, 'f failure, 'e + unit) action) s = (s', Inr y)"
    from stepsD [OF visiting.steps_settle [OF visiting_install_tree [OF R]] r] have v: "?V s s'" .
    from keep [OF s v] v show "(serves_names I mode U s' \<and> unvisited_names U s' < fuel') \<and> ?V s s'" ..
  qed (use s small in simp)
  then obtain nm version_range s1 where s1: "serves_names I mode U s1 \<and> unvisited_names U s1 < fuel'"
    and r: "?t (nm, version_range) s1 = (w', Inl OutOfFuel)"
    by (auto simp: act_settle_out_of_fuel simp del: split_paired_Ex)
  note free = fuel_freeD [OF fuel_free_expect [OF fuel_free_install_package], THEN notE]
  from r obtain s2 package where i: "install_package_from_registry I mode dir nm version_range s1 = (s2, Inr package)"
    and d: "(install_dependencies_from_registry fuel I mode package :: ('v world, 'e failure, unit) action) s2 = (w', Inl OutOfFuel)"
    by (auto simp: act_bind_Inl act_expect_Inr elim: free)
  have v: "?V s1 s2" by (rule stepsD [OF visiting_install_package [OF R] i])
  have "pv_to_virtual_store_name (i_extern I) package \<in> U"
    using install_package_run [OF R _ i] s1 by blast
  with d keep [OF s1 v] show ?thesis by blast
qed

lemma install_dependencies_fuel:
  fixes w :: "'v world" and I :: "('v, 'r) installer"
  assumes R: "registry_serves (names_in I U) (metadata_reader I mode)" and fin: "finite U"
  shows "serves_names I mode U w \<Longrightarrow> pv_to_virtual_store_name (i_extern I) package \<in> U \<Longrightarrow> unvisited_names U w < fuel
    \<Longrightarrow> (install_dependencies_from_registry fuel I mode package :: ('v world, 'e failure, unit) action) w \<noteq> (w', Inl OutOfFuel)"
proof (induction fuel arbitrary: package w w')
  case (Suc fuel)
  let ?nm = "pv_to_virtual_store_name (i_extern I) package"
  show ?case
  proof
    assume run: "(install_dependencies_from_registry (Suc fuel) I mode package :: ('v world, 'e failure, unit) action) w
      = (w', Inl OutOfFuel)"
    obtain w1 fresh where m: "mark_resolved ?nm w = (w1, Inr fresh :: 'e failure + bool)"
      by (cases "?nm \<in> set (w_resolved w)") (auto simp: mark_resolved_def)
    with run have "fresh" by (auto simp: act_bind_def act_return_def split: if_splits)
    with m have m: "mark_resolved ?nm w = (w1, Inr True :: 'e failure + bool)" by simp
    let ?dir = "join_str (join_str (nc_virtual_store_dir (i_config I)) ?nm) ''node_modules''"
    let ?deps = "package_dependencies package (nc_auto_install_peers (i_config I))"
    from run m have rec: "act_join (install_tree fuel I mode ?dir :: _ \<Rightarrow> ('v world, 'e failure, unit) action) ?deps w1
        = (w', Inl OutOfFuel :: 'e failure + ('e + unit) list)"
      by (auto simp: act_bind_Inl Let_def act_return_eq)
    have v: "visits (names_in I U) (metadata_reader I mode) w w1" by (rule stepsD [OF visiting_mark m])
    then have s1: "serves_names I mode U w1" using Suc.prems(1) by (simp add: visits_def)
    have small: "unvisited_names U w1 < fuel"
      using unvisited_mark [OF fin Suc.prems(2) m] Suc.prems(3) by simp
    from install_trees_out_of_fuel [OF R fin s1 small rec] Suc.IH show False by blast
  qed
qed simp


section \<open>Examples\<close>

definition registry_names :: "string list" where
  "registry_names = concat (map (\<lambda>(url, p). map (\<lambda>(v, pv). pv_to_virtual_store_name lib3 pv) (pk_versions p)) example_registry)"

lemma example_names:
  "registry_serves (names_in example_installer (set registry_names)) (metadata_reader example_installer Online)"
  "serves_names example_installer Online (set registry_names) (world3 empty_fs)"
proof -
  show "registry_serves (names_in example_installer (set registry_names)) (metadata_reader example_installer Online)"
    by (force simp: registry_serves_def names_in_def metadata_reader_def example_installer_def workspace_network_def
        registry_names_def ok_or_def split: option.splits dest!: map_of_SomeD)
qed (simp add: world_serves_def world3_def)

lemma card_example_names: "card (set registry_names) < 5"
proof -
  have "length registry_names \<le> 4" by code_simp
  then show ?thesis using card_length [of registry_names] by simp
qed

theorem store_add_terminates_witness:
  "snd (store_add 5 example_installer [''p'', ''q@1.0.0''] (world3 empty_fs)) \<noteq> Inl OutOfFuel
   \<and> store_add 100 example_installer [''p'', ''q@1.0.0''] (world3 empty_fs)
       = store_add 5 example_installer [''p'', ''q@1.0.0''] (world3 empty_fs)"
proof -
  note t = store_add_terminates [OF example_names(1) finite_set example_names(2) card_example_names]
  have l: "5 \<le> (100 :: nat)" by simp
  show ?thesis by (rule conjI [OF conjunct1 [OF t] conjunct2 [OF t, rule_format, OF l]])
qed


end
