(* ===== verification/Command_Edits.thy ===== *)
theory Command_Edits
  imports Install_Example
begin

text \<open>
  What \<^verbatim>\<open>add\<close>, \<^verbatim>\<open>remove\<close> and \<^verbatim>\<open>update\<close> do to the manifest. The abstract view of a manifest is, for every
  group, the map from names to values; the loops of the commands over packages and groups implement
  one update of the view.
\<close>

section \<open>The view\<close>

type_synonym manifest_view = "dependency_group \<Rightarrow> string \<rightharpoonup> json"

definition view :: "package_manifest \<Rightarrow> manifest_view" where
  "view M = group_map (mf_value M)"

text \<open>A manifest of the same file with a well-formed value.\<close>

definition same_file :: "package_manifest \<Rightarrow> package_manifest \<Rightarrow> bool" where
  "same_file M M' \<longleftrightarrow> wf_json (mf_value M') \<and> mf_path M' = mf_path M"

lemma view_add:
  assumes "json_map_ok J" and "wf_json (mf_value M)" and "manifest_add_dependency J M nm ver g = Inr M'"
  shows "same_file M M' \<and> view M' = (view M)(g := (view M g)(nm \<mapsto> JStr ver))"
  using add_dependency_value [OF assms] group_map_frame [of g "mf_value M'" "mf_value M"]
  by (auto simp: same_file_def view_def fun_eq_iff)

lemma view_remove:
  assumes "json_map_ok J" and "wf_json (mf_value M)" and "manifest_remove_dependency J M nm g = Inr (M', removed)"
  shows "same_file M M' \<and> view M' = (view M)(g := (view M g)(nm := None))"
  using remove_dependency_value [OF assms] group_map_frame [of g "mf_value M'" "mf_value M"]
  by (auto simp: same_file_def view_def fun_eq_iff)

lemma same_file_trans: "same_file M M' \<Longrightarrow> same_file M' M'' \<Longrightarrow> same_file M M''"
  by (simp add: same_file_def)

lemma same_file_wf: "same_file M M' \<Longrightarrow> wf_json (mf_value M')"
  by (simp add: same_file_def)

lemma same_file_refl: "wf_json (mf_value M) \<Longrightarrow> same_file M M"
  by (simp add: same_file_def)

section \<open>Remove\<close>

lemma remove_from_groups_view:
  assumes J: "json_map_ok J" and "wf_json (mf_value M)" and "remove_from_groups J nm groups M = Inr M'"
  shows "same_file M M' \<and> view M' = (\<lambda>h n. if h \<in> set groups \<and> n = nm then None else view M h n)"
  using assms(2,3)
proof (induction groups arbitrary: M)
  case Nil
  then show ?case by (simp add: same_file_refl)
next
  case (Cons g groups)
  then obtain M1 b where r: "manifest_remove_dependency J M nm g = Inr (M1, b)" "remove_from_groups J nm groups M1 = Inr M'"
    by (auto simp: result_simps)
  note one = view_remove [OF J Cons.prems(1) r(1)]
  from Cons.IH [OF _ r(2)] one show ?case by (auto simp: same_file_def fun_eq_iff)
qed

lemma remove_all_view:
  assumes J: "json_map_ok J" and "wf_json (mf_value M)" and "remove_all J groups packages M = Inr M'"
  shows "same_file M M' \<and> view M' = (\<lambda>h n. if h \<in> set groups \<and> n \<in> set packages then None else view M h n)"
  using assms(2,3)
proof (induction packages arbitrary: M)
  case Nil
  then show ?case by (simp add: same_file_refl)
next
  case (Cons nm packages)
  then obtain M1 where r: "remove_from_groups J nm groups M = Inr M1" "remove_all J groups packages M1 = Inr M'"
    by (auto simp: result_simps)
  note one = remove_from_groups_view [OF J Cons.prems(1) r(1)]
  from Cons.IH [OF _ r(2)] one show ?case by (auto simp: same_file_def fun_eq_iff)
qed

section \<open>Add\<close>

definition json_strings :: "(string \<times> string) list \<Rightarrow> string \<rightharpoonup> json" where
  "json_strings specs = map_of (rev (map (\<lambda>(n, v). (n, JStr v)) specs))"

lemma add_to_groups_view:
  assumes J: "json_map_ok J" and "wf_json (mf_value M)" and "add_to_groups J nm ver groups M = Inr M'"
  shows "same_file M M' \<and> view M' = (\<lambda>h. if h \<in> set groups then (view M h)(nm \<mapsto> JStr ver) else view M h)"
  using assms(2,3)
proof (induction groups arbitrary: M)
  case Nil
  then show ?case by (simp add: same_file_refl)
next
  case (Cons g groups)
  then obtain M1 where r: "manifest_add_dependency J M nm ver g = Inr M1" "add_to_groups J nm ver groups M1 = Inr M'"
    by (auto simp: result_simps)
  note one = view_add [OF J Cons.prems(1) r(1)]
  from Cons.IH [OF _ r(2)] one show ?case by (auto simp: same_file_def fun_eq_iff)
qed

lemma add_all_view:
  assumes J: "json_map_ok J" and "wf_json (mf_value M)" and "add_all J groups specs M = Inr M'"
  shows "same_file M M' \<and> view M' = (\<lambda>h. if h \<in> set groups then view M h ++ json_strings specs else view M h)"
  using assms(2,3)
proof (induction specs arbitrary: M)
  case Nil
  then show ?case by (auto simp: same_file_refl json_strings_def fun_eq_iff)
next
  case (Cons s specs)
  obtain nm ver where s: "s = (nm, ver)" by (cases s)
  with Cons.prems obtain M1 where r: "add_to_groups J nm ver groups M = Inr M1" "add_all J groups specs M1 = Inr M'"
    by (auto simp: result_simps)
  note one = add_to_groups_view [OF J Cons.prems(1) r(1)]
  from Cons.IH [OF _ r(2)] one show ?case
    by (auto simp: same_file_def fun_eq_iff s json_strings_def map_add_def split: option.split)
qed

section \<open>Update\<close>

text \<open>
  What an update may do: names stay, values become strings, and only for the names \<open>N\<close> in the groups.
\<close>

definition revises :: "dependency_group set \<Rightarrow> string set \<Rightarrow> package_manifest \<Rightarrow> package_manifest \<Rightarrow> bool" where
  "revises G N M M' \<longleftrightarrow> same_file M M'
     \<and> (\<forall>h n. view M' h n = view M h n
          \<or> h \<in> G \<and> n \<in> N \<and> manifest_dependency_version M n h \<noteq> None \<and> (\<exists>s. view M' h n = Some (JStr s)))"

lemma version_view: "manifest_dependency_version M n h = Option.bind (view M h n) as_str"
  by (simp add: dependency_version_group_map view_def)

lemma revises_refl: "wf_json (mf_value M) \<Longrightarrow> revises G N M M"
  by (simp add: revises_def same_file_refl)

lemma revises_trans: "revises G N M M' \<Longrightarrow> revises G N M' M'' \<Longrightarrow> revises G N M M''"
  unfolding revises_def version_view by (intro conjI) (blast intro: same_file_trans, metis)

lemma revises_wf: "revises G N M M' \<Longrightarrow> wf_json (mf_value M')"
  by (simp add: revises_def same_file_def)

lemma revises_add:
  assumes "json_map_ok J" and "wf_json (mf_value M)" and "manifest_add_dependency J M nm ver g = Inr M'"
    and "g \<in> G" and "nm \<in> N" and "manifest_dependency_version M nm g \<noteq> None"
  shows "revises G N M M'"
  using view_add [OF assms(1-3)] assms(4-6) by (auto simp: revises_def)

lemma replace_in_groups_revises:
  assumes J: "json_map_ok J" and "wf_json (mf_value M)" and "replace_in_groups J nm prev nxt groups M = Inr M'"
    and "set groups \<subseteq> G" and "nm \<in> N"
  shows "revises G N M M'"
  using assms(2-)
proof (induction groups arbitrary: M)
  case (Cons g groups)
  show ?case
  proof (cases "manifest_dependency_version M nm g = Some prev")
    case True
    with Cons.prems(2) obtain M1 where r: "manifest_add_dependency J M nm nxt g = Inr M1"
      "replace_in_groups J nm prev nxt groups M1 = Inr M'" by (auto simp: result_simps)
    have one: "revises G N M M1" using Cons.prems True by (intro revises_add [OF J Cons.prems(1) r(1)]) auto
    have "revises G N M1 M'" using Cons.prems by (intro Cons.IH [OF revises_wf [OF one] r(2)]) auto
    with one show ?thesis by (rule revises_trans)
  next
    case False
    with Cons show ?thesis by (simp add: result_simps)
  qed
qed (simp add: revises_refl)

lemma apply_updates_revises:
  assumes J: "json_map_ok J" and "wf_json (mf_value M)" and "apply_updates J groups updates M = Inr M'"
    and "fst ` set updates \<subseteq> N"
  shows "revises (set groups) N M M'"
  using assms(2-)
proof (induction updates arbitrary: M)
  case (Cons u updates)
  obtain nm prev nxt where u: "u = (nm, prev, nxt)" by (cases u)
  with Cons.prems(2) obtain M1 where r: "replace_in_groups J nm prev nxt groups M = Inr M1"
    "apply_updates J groups updates M1 = Inr M'" by (auto simp: result_simps)
  have one: "revises (set groups) N M M1"
    using Cons.prems by (intro replace_in_groups_revises [OF J Cons.prems(1) r(1)]) (auto simp: u)
  have "revises (set groups) N M1 M'" using Cons.prems by (intro Cons.IH [OF revises_wf [OF one] r(2)]) auto
  with one show ?case by (rule revises_trans)
qed (simp add: revises_refl)

lemma set_in_groups_revises:
  assumes J: "json_map_ok J" and "wf_json (mf_value M)" and "set_in_groups J nm spec groups b M = Inr (M', b')"
    and "set groups \<subseteq> G" and "nm \<in> N"
  shows "revises G N M M'"
  using assms(2-)
proof (induction groups arbitrary: M b)
  case (Cons g groups)
  show ?case
  proof (cases "manifest_dependency_version M nm g = None")
    case False
    with Cons.prems(2) obtain M1 where r: "manifest_add_dependency J M nm spec g = Inr M1"
      "set_in_groups J nm spec groups True M1 = Inr (M', b')" by (auto simp: result_simps)
    have one: "revises G N M M1" using Cons.prems False by (intro revises_add [OF J Cons.prems(1) r(1)]) auto
    have "revises G N M1 M'" using Cons.prems by (intro Cons.IH [OF revises_wf [OF one] r(2)]) auto
    with one show ?thesis by (rule revises_trans)
  next
    case True
    with Cons show ?thesis by simp
  qed
qed (simp add: revises_refl)

definition spec_names :: "string list \<Rightarrow> string set" where
  "spec_names packages = (\<lambda>package. sp_name (package_spec_parse package)) ` set packages"

lemma set_specifiers_revises:
  assumes J: "json_map_ok J" and "wf_json (mf_value M)" and "set_specifiers J groups packages M = Inr M'"
    and "spec_names packages \<subseteq> N"
  shows "revises (set groups) N M M'"
  using assms(2-)
proof (induction packages arbitrary: M)
  case (Cons p packages)
  have N: "spec_names packages \<subseteq> N" "sp_name (package_spec_parse p) \<in> N"
    using Cons.prems(3) by (auto simp: spec_names_def)
  show ?case
  proof (cases "sp_specifier (package_spec_parse p)")
    case None
    with Cons.IH [OF Cons.prems(1)] Cons.prems(2) N show ?thesis by simp
  next
    case (Some spec)
    with Cons.prems(2) obtain M1 where
      r: "set_in_groups J (sp_name (package_spec_parse p)) spec groups False M = Inr (M1, True)"
        "set_specifiers J groups packages M1 = Inr M'"
      by (auto simp: result_simps Let_def split: if_splits)
    have one: "revises (set groups) N M M1"
      using N by (intro set_in_groups_revises [OF J Cons.prems(1) r(1)]) auto
    have "revises (set groups) N M1 M'" by (rule Cons.IH [OF revises_wf [OF one] r(2) N(1)])
    with one show ?thesis by (rule revises_trans)
  qed
qed (simp add: revises_refl)

lemma target_entry_names:
  assumes "collect_target_entries M groups packages = Inr targets"
  shows "fst ` snd ` set targets \<subseteq> spec_names packages"
proof -
  let ?f = "\<lambda>p. target_entries_of M groups (sp_name (package_spec_parse p))"
  obtain tss where "traverse (\<lambda>p. if ?f p = [] then Inl (MissingPackage (sp_name (package_spec_parse p))) else Inr (?f p)) packages = Inr tss"
    and t: "targets = concat tss"
    using assms by (auto simp: collect_target_entries_def Let_def result_simps)
  then have "list_all2 (\<lambda>p ts. ts = ?f p) packages tss"
    by (auto simp: traverse_eq_Inr elim!: list_all2_mono split: if_splits)
  then have "tss = map ?f packages" by (induction rule: list_all2_induct) simp_all
  then show ?thesis by (auto simp: t target_entries_of_def set_map_filter_iff spec_names_def)
qed

lemma resolve_update_name: "resolve_update I t w = (w', Inr u) \<Longrightarrow> fst u = fst (snd t)"
  by (auto simp: resolve_update_def result_simps split: prod.splits)

lemma updated_manifest_revises:
  assumes J: "json_map_ok (ws_json W)" and wf: "wf_json (mf_value M)"
    and run: "updated_manifest W M groups packages latest w = (w', Inr M')"
  shows "revises (set groups) (if packages = [] then UNIV else spec_names packages) M M'"
proof (cases latest)
  case True
  then obtain targets updates w1 where
    t: "(if packages = [] then Inr (manifest_dependency_entries M groups) else map_err Err (collect_target_entries M groups packages))
        = (Inr targets :: update_error failure + _)"
    and u: "act_each (resolve_update (ws_installer W)) targets w = (w1, Inr updates)"
    and a: "apply_updates (ws_json W) groups updates M = Inr M'"
    using run by (auto simp: updated_manifest_def act_bind_Inr [of "act_read _"] act_bind_Inr [of "act_bind _ act_collect"]
        act_join_collect_Inr act_read_eq map_err_eq_Inr)
  have "list_all2 (\<lambda>t u. fst u = fst (snd t)) targets updates"
    by (rule each_results [OF u]) (rule resolve_update_name)
  then have "fst ` set updates = fst ` snd ` set targets"
    by (induction rule: list_all2_induct) auto
  moreover have "packages \<noteq> [] \<Longrightarrow> fst ` snd ` set targets \<subseteq> spec_names packages"
    using t by (intro target_entry_names) (simp add: result_simps)
  ultimately show ?thesis by (intro apply_updates_revises [OF J wf a]) auto
next
  case False
  with run show ?thesis
    by (auto simp: updated_manifest_def result_simps intro: set_specifiers_revises [OF J wf] revises_refl [OF wf] split: if_splits)
qed

section \<open>The file\<close>

text \<open>The JSON library prints the value as a text it reads back.\<close>

definition json_text_ok :: "json_lib \<Rightarrow> json \<Rightarrow> bool" where
  "json_text_ok J v \<longleftrightarrow> (\<exists>s. json_to_string_pretty J v = Inr s \<and> json_from_str J s = Inr v \<and> valid_utf8 s)"

text \<open>The project's file holds the manifest.\<close>

definition on_disk :: "json_lib \<Rightarrow> package_manifest \<Rightarrow> 'v world \<Rightarrow> bool" where
  "on_disk J M w \<longleftrightarrow> manifest_from_path J (w_fs w) (mf_path M) = Inr M"

lemma save_on_disk:
  assumes save: "save_manifest J M w = (w', Inr ())" and J: "json_text_ok J (mf_value M)"
    and nf: "fs_fault (w_fs w') Stat (mf_path M) = None" "fs_fault (w_fs w') ReadFile (mf_path M) = None"
  shows "on_disk J M w'"
proof -
  obtain s where s: "json_to_string_pretty J (mf_value M) = Inr s" "json_from_str J s = Inr (mf_value M)" "valid_utf8 s"
    using J by (auto simp: json_text_ok_def)
  obtain F where f: "manifest_save J (w_fs w) M = (F, Inr ())" and F: "w_fs w' = F"
    using save by (auto simp: save_manifest_def on_fs_def act_on_def split: prod.splits)
  have w: "fs_write (w_fs w) (mf_path M) s = Inr F"
    using f s(1) by (auto simp: manifest_save_def fs_write_def Let_def split: sum.splits)
  from write_lookup [OF w] have "fs_fault F = fs_fault (w_fs w)" by simp
  with save_then_load [OF f s] nf show ?thesis by (simp add: on_disk_def F)
qed

section \<open>The commands\<close>

text \<open>C23: When \<^verbatim>\<open>remove\<close> succeeds, the manifest and its file have none of the packages in any of the groups
  asked for, and every other entry of every group as before.\<close>

theorem remove_command_spec:
  assumes J: "json_map_ok (ws_json W)" and wf: "wf_json (mf_value M)"
    and run: "remove W M groups packages w = (w', Inr M')"
    and printed: "json_text_ok (ws_json W) (mf_value M')"
    and nf: "fs_fault (w_fs w') Stat (mf_path M') = None" "fs_fault (w_fs w') ReadFile (mf_path M') = None"
  shows "same_file M M' \<and> on_disk (ws_json W) M' w'
    \<and> view M' = (\<lambda>h n. if h \<in> set groups \<and> n \<in> set packages then None else view M h n)"
proof -
  from run obtain w1 where all: "remove_all (ws_json W) groups packages M = Inr M'"
    and save: "save_manifest (ws_json W) M' w1 = (w', Inr ())"
    by (auto simp: remove_def result_simps)
  from remove_all_view [OF J wf all] save_on_disk [OF save printed nf] show ?thesis by simp
qed

text \<open>C22: When \<^verbatim>\<open>add\<close> succeeds, the manifest and its file have every package in every group asked for, with
  the specifier given for it, the last one if a package is given twice, and every other entry of
  every group as before.\<close>

theorem add_command_spec:
  assumes J: "json_map_ok (ws_json W)" and wf: "wf_json (mf_value M)"
    and run: "add W M lockfile groups packages save_exact w = (w', Inr M')"
    and printed: "json_text_ok (ws_json W) (mf_value M')"
    and nf: "fs_fault (w_fs w') Stat (mf_path M') = None" "fs_fault (w_fs w') ReadFile (mf_path M') = None"
  shows "same_file M M' \<and> on_disk (ws_json W) M' w'
    \<and> (\<exists>specs. view M' = (\<lambda>h. if h \<in> set groups then view M h ++ json_strings specs else view M h)
        \<and> list_all2 (\<lambda>package (nm, ver). nm = sp_name (package_spec_parse package)
             \<and> (\<forall>s. sp_specifier (package_spec_parse package) = Some s \<longrightarrow> ver = s)) packages specs)"
proof -
  from run obtain w0 w1 specs where
    each: "act_each (resolve_added_spec (ws_installer W) save_exact) packages w = (w0, Inr specs)"
    and all: "add_all (ws_json W) groups specs M = Inr M'"
    and save: "save_manifest (ws_json W) M' w1 = (w', Inr ())"
    by (auto simp: add_def act_bind_Inr [of "act_read _"] act_bind_Inr [of "act_bind _ act_collect"]
        act_bind_Inr [of "install _ _ _ _ _"] act_bind_Inr [of "act_map_err _ _"] act_map_err_eq_Inr
        act_join_collect_Inr act_read_eq map_err_eq_Inr act_return_eq)
  have "list_all2 (\<lambda>package (nm, ver). nm = sp_name (package_spec_parse package)
      \<and> (\<forall>s. sp_specifier (package_spec_parse package) = Some s \<longrightarrow> ver = s)) packages specs"
    by (rule each_results [OF each]) (auto simp: resolve_added_spec_def Let_def result_simps split: option.splits)
  with add_all_view [OF J wf all] save_on_disk [OF save printed nf] show ?thesis by blast
qed

text \<open>C24: When \<^verbatim>\<open>update\<close> succeeds, the manifest and its file have the packages they had, in the groups they
  were in: an entry that differs belongs to one of the groups and, if packages were named, to one
  of these, had a specifier before and has one after.\<close>

theorem update_command_spec:
  assumes J: "json_map_ok (ws_json W)" and wf: "wf_json (mf_value M)"
    and run: "update_run W M groups packages latest w = (w', Inr M')"
    and printed: "json_text_ok (ws_json W) (mf_value M')"
    and nf: "fs_fault (w_fs w') Stat (mf_path M') = None" "fs_fault (w_fs w') ReadFile (mf_path M') = None"
  shows "same_file M M' \<and> on_disk (ws_json W) M' w'
    \<and> (\<forall>h n. view M' h n = view M h n
        \<or> h \<in> set groups \<and> (packages = [] \<or> n \<in> spec_names packages)
          \<and> manifest_dependency_version M n h \<noteq> None \<and> (\<exists>s. view M' h n = Some (JStr s)))"
proof -
  from run obtain w0 w1 where up: "updated_manifest W M groups packages latest w = (w0, Inr M')"
    and save: "save_manifest (ws_json W) M' w1 = (w', Inr ())"
    by (auto simp: update_run_def result_simps)
  from updated_manifest_revises [OF J wf up] save_on_disk [OF save printed nf] show ?thesis
    unfolding revises_def by (auto split: if_splits)
qed

section \<open>Examples\<close>

text \<open>A registry with one package \<^verbatim>\<open>a\<close> whose tarballs are empty, and a project without a lockfile.\<close>

definition edit_network :: "ver3 network" where
  "edit_network =
     (network3 (example_package\<lparr>pk_versions := map (\<lambda>(v, p). (v, p\<lparr>pv_dist := (pv_dist p)\<lparr>pd_integrity := Some tarball_integrity\<rparr>\<rparr>))
        (pk_versions example_package)\<rparr>))\<lparr>net_bytes := \<lambda>_ _. Inr ''zz''\<rparr>"

definition edit_workspace :: "json \<Rightarrow> (ver3, range3) workspace" where
  "edit_workspace doc =
     example_workspace
       \<lparr>ws_installer := example_installer
          \<lparr>i_config := example_config\<lparr>nc_lockfile := False\<rparr>, i_network := edit_network,
           i_tarball := \<lparr> decode_gzip = (\<lambda>_ s. Inr s), archive_entries = (\<lambda>_. Inr []), epoch_elapsed = (\<lambda>_. None) \<rparr>,
           i_store := tarball_store_lib\<lparr>index_to_string := \<lambda>_. Inr ''index''\<rparr>\<rparr>,
        ws_json := json3 doc\<rparr>"

definition edit_manifest :: "(string \<times> string) list \<Rightarrow> package_manifest" where
  "edit_manifest deps =
     \<lparr> mf_path = abs_path [''work'', ''package.json''],
       mf_value = JObj [(''dependencies'', JObj (map (\<lambda>(n, v). (n, JStr v)) deps))] \<rparr>"

definition edit_world :: "ver3 world" where
  "edit_world = world3 (empty_fs\<lparr>fs_nodes := [([''work''], Dir)]\<rparr>)"

text \<open>A run, with the faults of the file system it leaves.\<close>

definition edit_outcome :: "path \<Rightarrow> ver3 world \<times> ('e + package_manifest) \<Rightarrow> io_kind option \<times> io_kind option \<times> ('e + package_manifest)" where
  "edit_outcome p = (\<lambda>(w, r). (fs_fault (w_fs w) Stat p, fs_fault (w_fs w) ReadFile p, r))"

lemma edit_outcomeD:
  "edit_outcome p x = (None, None, Inr M) \<Longrightarrow>
     \<exists>w. x = (w, Inr M) \<and> fs_fault (w_fs w) Stat p = None \<and> fs_fault (w_fs w) ReadFile p = None"
  by (cases x) (simp add: edit_outcome_def)

lemma edit_json: "json_map_ok (ws_json (edit_workspace doc))" "json_text_ok (ws_json (edit_workspace doc)) doc"
proof -
  have "valid_utf8 ''{}''" by (simp add: byte_in_def)
  then show "json_text_ok (ws_json (edit_workspace doc)) doc"
    by (simp add: json_text_ok_def edit_workspace_def)
qed (simp add: edit_workspace_def json_map_ok_json3)

lemma wf_edit_manifest: "distinct (map fst deps) \<Longrightarrow> wf_json (mf_value (edit_manifest deps))"
  by (auto simp: edit_manifest_def wf_map_def list_all_iff comp_def split_def)

lemma remove_example:
  "edit_outcome (abs_path [''work'', ''package.json''])
     (remove (edit_workspace (JObj [])) (edit_manifest [(''a'', ''1.0.0'')]) [Prod] [''a''] edit_world)
   = (None, None, Inr \<lparr> mf_path = abs_path [''work'', ''package.json''], mf_value = JObj [] \<rparr>)"
  by code_simp

theorem remove_command_spec_witness:
  "\<exists>w' M'. remove (edit_workspace (JObj [])) (edit_manifest [(''a'', ''1.0.0'')]) [Prod] [''a''] edit_world = (w', Inr M')
     \<and> on_disk (json3 (JObj [])) M' w' \<and> view M' Prod ''a'' = None"
proof -
  let ?M = "\<lparr> mf_path = abs_path [''work'', ''package.json''], mf_value = JObj [] \<rparr>"
  from edit_outcomeD [OF remove_example] obtain w' where
    run: "remove (edit_workspace (JObj [])) (edit_manifest [(''a'', ''1.0.0'')]) [Prod] [''a''] edit_world = (w', Inr ?M)"
    and nf: "fs_fault (w_fs w') Stat (mf_path ?M) = None" "fs_fault (w_fs w') ReadFile (mf_path ?M) = None"
    by auto
  have "wf_json (mf_value (edit_manifest [(''a'', ''1.0.0'')]))" by (rule wf_edit_manifest) simp
  from remove_command_spec [OF edit_json(1) this run _ nf] edit_json(2) [of "JObj []"] run
  show ?thesis by (auto simp: edit_workspace_def)
qed

lemma add_example:
  "edit_outcome (abs_path [''work'', ''package.json''])
     (add (edit_workspace (mf_value (edit_manifest [(''a'', ''2.0.0'')]))) (edit_manifest []) None [Prod] [''a@2.0.0''] False edit_world)
   = (None, None, Inr (edit_manifest [(''a'', ''2.0.0'')]))"
  by code_simp

lemma update_example:
  "edit_outcome (abs_path [''work'', ''package.json''])
     (update_run (edit_workspace (mf_value (edit_manifest [(''a'', ''2.0.0'')]))) (edit_manifest [(''a'', ''1.2.0'')]) [Prod] [''a@2.0.0''] False edit_world)
   = (None, None, Inr (edit_manifest [(''a'', ''2.0.0'')]))"
  by code_simp

lemma edit_manifest_simps [simp]:
  "mf_path (edit_manifest deps) = abs_path [''work'', ''package.json'']"
  "ws_json (edit_workspace doc) = json3 doc"
  by (simp_all add: edit_manifest_def edit_workspace_def)

theorem add_command_spec_witness:
  "\<exists>w' M'. add (edit_workspace (mf_value (edit_manifest [(''a'', ''2.0.0'')]))) (edit_manifest []) None [Prod] [''a@2.0.0''] False edit_world
       = (w', Inr M')
     \<and> on_disk (json3 (mf_value (edit_manifest [(''a'', ''2.0.0'')]))) M' w' \<and> view M' Dev = view (edit_manifest []) Dev"
proof -
  let ?M = "edit_manifest [(''a'', ''2.0.0'')]"
  from edit_outcomeD [OF add_example] obtain w' where
    run: "add (edit_workspace (mf_value ?M)) (edit_manifest []) None [Prod] [''a@2.0.0''] False edit_world = (w', Inr ?M)"
    and nf: "fs_fault (w_fs w') Stat (mf_path ?M) = None" "fs_fault (w_fs w') ReadFile (mf_path ?M) = None"
    by auto
  have "wf_json (mf_value (edit_manifest []))" by (rule wf_edit_manifest) simp
  from add_command_spec [OF edit_json(1) this run edit_json(2) nf] run show ?thesis by auto
qed

theorem update_command_spec_witness:
  "\<exists>w' M'. update_run (edit_workspace (mf_value (edit_manifest [(''a'', ''2.0.0'')]))) (edit_manifest [(''a'', ''1.2.0'')]) [Prod]
         [''a@2.0.0''] False edit_world = (w', Inr M')
     \<and> on_disk (json3 (mf_value (edit_manifest [(''a'', ''2.0.0'')]))) M' w'
     \<and> view M' Dev = view (edit_manifest [(''a'', ''1.2.0'')]) Dev"
proof -
  let ?M = "edit_manifest [(''a'', ''2.0.0'')]"
  from edit_outcomeD [OF update_example] obtain w' where
    run: "update_run (edit_workspace (mf_value ?M)) (edit_manifest [(''a'', ''1.2.0'')]) [Prod] [''a@2.0.0''] False edit_world = (w', Inr ?M)"
    and nf: "fs_fault (w_fs w') Stat (mf_path ?M) = None" "fs_fault (w_fs w') ReadFile (mf_path ?M) = None"
    by auto
  have wf: "wf_json (mf_value (edit_manifest [(''a'', ''1.2.0'')]))" by (rule wf_edit_manifest) simp
  have "view ?M Dev n = view (edit_manifest [(''a'', ''1.2.0'')]) Dev n" for n
    using update_command_spec [OF edit_json(1) wf run edit_json(2) nf] by fastforce
  with update_command_spec [OF edit_json(1) wf run edit_json(2) nf] run show ?thesis by (auto simp: fun_eq_iff)
qed

end
