(* ===== verification/Bin_Links.thy ===== *)
theory Bin_Links
  imports Create_Bins
begin

text \<open>
  What \<^verbatim>\<open>create_bin_links_for_node_modules\<close> leaves in \<^verbatim>\<open>.bin\<close>: one link for every name that a package
  offers, to the target of the first package that offers it.
\<close>

section \<open>The first offer\<close>

text \<open>All that the packages offer, in the order of the packages.\<close>

definition bin_offers :: "path list \<Rightarrow> (string \<times> string) list list \<Rightarrow> (string \<times> path) list" where
  "bin_offers package_dirs entries =
     concat (map2 (\<lambda>d es. map (\<lambda>(nm, target). (nm, join_str d target)) es) package_dirs entries)"

lemma or_insert_entries:
  "map_of (fold (\<lambda>(nm, target). or_insert nm (join_str d target)) es m)
     = map_of (map (\<lambda>(nm, target). (nm, join_str d target)) es) ++ map_of m"
proof (induction es arbitrary: m)
  case (Cons e es)
  then show ?case
    by (cases e) (auto simp: map_of_or_insert map_add_def fun_eq_iff split: option.split)
qed simp

lemma distinct_or_insert: "distinct (map fst m) \<Longrightarrow> distinct (map fst (or_insert k v m))"
  by (simp add: or_insert_def map_of_eq_None_iff)

lemma distinct_or_insert_entries:
  "distinct (map fst m) \<Longrightarrow> distinct (map fst (fold (\<lambda>(nm, target). or_insert nm (join_str d target)) es m))"
  by (induction es arbitrary: m) (auto simp: distinct_or_insert)

lemma collect_bin_links_offers:
  assumes "collect_bin_links J F dirs m = Inr links" and "distinct (map fst m)"
  shows "\<exists>entries. traverse (package_bins J F) dirs = Inr entries
    \<and> map_of links = map_of (bin_offers dirs entries) ++ map_of m \<and> distinct (map fst links)"
  using assms
proof (induction dirs arbitrary: m)
  case Nil
  then show ?case by (simp add: bin_offers_def)
next
  case (Cons d dirs)
  then obtain es where es: "package_bins J F d = Inr es"
    and rest: "collect_bin_links J F dirs (fold (\<lambda>(nm, target). or_insert nm (join_str d target)) es m) = Inr links"
    by (auto simp: result_simps)
  from Cons.IH [OF rest distinct_or_insert_entries [OF Cons.prems(2)]] obtain entries where
    "traverse (package_bins J F) dirs = Inr entries" "distinct (map fst links)"
    "map_of links = map_of (bin_offers dirs entries)
       ++ (map_of (map (\<lambda>(nm, target). (nm, join_str d target)) es) ++ map_of m)"
    by (auto simp: or_insert_entries)
  with es show ?case
    by (intro exI [of _ "es # entries"]) (simp add: bin_offers_def)
qed

lemma map_of_btree_entries: "distinct (map fst m) \<Longrightarrow> map_of (btree_entries m) = map_of m"
  by (intro map_of_inject_set [THEN iffD2]) (simp_all add: btree_entries_def distinct_map inj_on_def)

section \<open>The links in the directory\<close>

text \<open>\<open>links_made d m F F'\<close>: \<open>F'\<close> is \<open>F\<close> with the links \<open>m\<close> in the directory \<open>d\<close>.\<close>

definition links_made :: "names \<Rightarrow> (string \<rightharpoonup> path) \<Rightarrow> fs \<Rightarrow> fs \<Rightarrow> bool" where
  "links_made d m F F' \<longleftrightarrow> tree_ok F' \<and> fs_fault F' = fs_fault F
     \<and> (\<forall>nm. node_at F' (d @ [nm]) = (case m nm of None \<Rightarrow> node_at F (d @ [nm]) | Some t \<Rightarrow> Some (Symlink t)))
     \<and> (\<forall>q. (\<forall>nm. q \<noteq> d @ [nm]) \<longrightarrow> node_at F' q = node_at F q)"

lemma create_bin_link_new:
  assumes ok: "tree_ok F" and d: "node_at F d = Some Dir" and new: "node_at F (d @ [nm]) = None"
    and nm: "file_name_ok nm" and nf: "fs_fault F SymlinkCall (abs_path (d @ [nm])) = None"
    and run: "create_bin_link (abs_path d) nm t F = (F', r)"
  shows "r = Inr () \<and> F' = set_node (d @ [nm]) (Symlink t) F"
proof -
  have p: "path_join (abs_path d) [Normal nm] = abs_path (d @ [nm])"
    by (simp add: path_join_def is_absolute_def abs_path_def)
  from run lookup_child_None [OF ok d new, of False] show ?thesis
    by (simp add: create_bin_link_def Let_def nm p act_simps symlink_file_def fs_symlink_def guarded_def nf)
qed

lemma create_links:
  assumes "tree_ok F" and "node_at F d = Some Dir" and "\<forall>nm \<in> fst ` set m. file_name_ok nm \<and> node_at F (d @ [nm]) = None"
    and "\<forall>c p. fs_fault F c p = None" and "distinct (map fst m)"
    and "act_for (\<lambda>(nm, t). create_bin_link (abs_path d) nm t) m F = (F', Inr ())"
  shows "links_made d (map_of m) F F'"
  using assms
proof (induction m arbitrary: F)
  case Nil
  then show ?case by (simp add: links_made_def act_simps)
next
  case (Cons e m)
  obtain nm t where e: "e = (nm, t)" by (cases e)
  let ?G = "set_node (d @ [nm]) (Symlink t) F"
  from Cons.prems(6) obtain F1 where one: "create_bin_link (abs_path d) nm t F = (F1, Inr ())"
    and rest: "act_for (\<lambda>(nm, t). create_bin_link (abs_path d) nm t) m F1 = (F', Inr ())"
    by (auto simp: e act_for_Cons_Inr)
  have new: "node_at F (d @ [nm]) = None" "file_name_ok nm" using Cons.prems(3) by (auto simp: e)
  from create_bin_link_new [OF Cons.prems(1,2) new _ one] Cons.prems(4) have F1: "F1 = ?G" by simp
  have ok: "tree_ok ?G" by (rule tree_ok_set_node [OF Cons.prems(1,2) new(1)]) simp
  have "links_made d (map_of m) ?G F'"
  proof (rule Cons.IH [OF ok])
    show "\<forall>k \<in> fst ` set m. file_name_ok k \<and> node_at ?G (d @ [k]) = None"
      using Cons.prems(3,5) by (auto simp: e node_at_set_node)
  qed (use Cons.prems(2,4,5) rest F1 in \<open>auto simp: node_at_set_node\<close>)
  moreover have "map_of m nm = None" using Cons.prems(5) by (simp add: e map_of_eq_None_iff)
  ultimately show ?case
    by (auto simp: links_made_def e node_at_set_node split: option.split)
qed

text \<open>The old directory of links is removed with everything in it.\<close>

lemma clear_bin_dir:
  assumes ok: "tree_ok F" and nf: "\<forall>c p. fs_fault F c p = None" and pl: "plain F q" and ne: "q \<noteq> []"
    and run: "(if fs_exists F (abs_path q) then act_map_err err (act_call (\<lambda>F. fs_remove_dir_all F (abs_path q)))
       else act_return ()) F = (F1, Inr ())"
  shows "tree_ok F1 \<and> fs_fault F1 = fs_fault F \<and> (\<forall>x. node_at F1 x = (if prefix q x then None else node_at F x))"
proof (cases "node_at F q")
  case None
  then have "F1 = F" using run exists_iff [OF ok pl] nf by (simp add: act_return_eq)
  moreover have "node_at F x = None" if x: "prefix q x" for x
  proof (rule ccontr)
    assume "node_at F x \<noteq> None"
    then obtain nd where "node_at F (q @ drop (length q) x) = Some nd" using x by (auto simp: prefix_def)
    from tree_ok_prefix [OF ok this] None this show False by (cases "drop (length q) x = []") auto
  qed
  ultimately show ?thesis using ok by simp
next
  case (Some nd)
  then have l: "lookup F False (abs_path q) = Found q nd" by (simp add: lookup_Found_iff [OF ok pl])
  from Some pl have "\<And>t. nd \<noteq> Symlink t" unfolding plain_def by (metis order_refl take_all)
  with run Some exists_iff [OF ok pl] nf l ne have "F1 = del_nodes (prefix q) F"
    by (auto simp: fs_remove_dir_all_def guarded_def act_map_err_eq_Inr act_call_Inr split: node.splits)
  moreover have "tree_ok (del_nodes (prefix q) F)"
    by (rule tree_ok_del_nodes [OF ok]) (use ne in \<open>auto simp: prefix_def\<close>)
  ultimately show ?thesis using ne by (auto simp: node_at_del_nodes)
qed

text \<open>A directory that is created below one that exists.\<close>

lemma create_child_dir:
  assumes ok: "tree_ok F" and md: "node_at F md = Some Dir" and new: "node_at F (md @ [nm]) = None"
    and run: "fs_create_dir_all F (abs_path (md @ [nm])) = Inr F'"
  shows "tree_ok F' \<and> fs_fault F' = fs_fault F \<and> node_at F' (md @ [nm]) = Some Dir
    \<and> (\<forall>q. q \<noteq> md @ [nm] \<longrightarrow> node_at F' q = node_at F q)"
proof -
  have pl: "plain F (md @ [nm])" using tree_ok_plain [OF ok md] new by (simp add: plain_snoc)
  from create_dir_all_plain [OF ok pl run] have F': "tree_ok F'" "adds_dirs (md @ [nm]) F F'" "node_at F' (md @ [nm]) = Some Dir"
    by auto
  have add: "node_at F' q = node_at F q \<or> prefix q (md @ [nm]) \<and> node_at F q = None \<and> node_at F' q = Some Dir" for q
    using F'(2) by (simp add: adds_dirs_def)
  have "node_at F' q = node_at F q" if "q \<noteq> md @ [nm]" for q
  proof (cases "prefix q (md @ [nm])")
    case True
    with that have "prefix q md" by auto
    then have "node_at F q \<noteq> None"
      using tree_ok_prefix [OF ok, of q _ Dir] md by (cases "q = md") (auto simp: prefix_def)
    with add [of q] show ?thesis by blast
  next
    case False
    with add [of q] show ?thesis by blast
  qed
  with F' keepsD(2) [OF keeps_create_dir_all [OF run]] show ?thesis by blast
qed

lemma fill_bin_dir:
  assumes ok: "tree_ok F" and nf: "\<forall>c p. fs_fault F c p = None" and md: "node_at F md = Some Dir"
    and empty: "\<And>x. prefix (md @ [b]) x \<Longrightarrow> node_at F x = None"
    and names: "\<forall>nm \<in> fst ` set links. file_name_ok nm" and dist: "distinct (map fst links)"
    and mk: "fs_create_dir_all F (abs_path (md @ [b])) = Inr F1"
    and ln: "act_for (\<lambda>(nm, t). create_bin_link (abs_path (md @ [b])) nm t) (btree_entries links) F1 = (F', Inr ())"
  shows "tree_ok F' \<and> (\<forall>nm. node_at F' (md @ [b, nm]) = map_option Symlink (map_of links nm))
    \<and> (\<forall>q. \<not> prefix (md @ [b]) q \<longrightarrow> node_at F' q = node_at F q)"
proof -
  let ?bin = "md @ [b]"
  from create_child_dir [OF ok md empty mk] have F1: "tree_ok F1" "fs_fault F1 = fs_fault F" "node_at F1 ?bin = Some Dir"
    "\<And>q. q \<noteq> ?bin \<Longrightarrow> node_at F1 q = node_at F q" by auto
  have "\<forall>nm \<in> fst ` set (btree_entries links). file_name_ok nm \<and> node_at F1 (?bin @ [nm]) = None"
    using names by (simp add: F1(4) empty)
  moreover have "distinct (map fst (btree_entries links))" using dist by (simp add: btree_entries_def distinct_map)
  ultimately have L: "links_made ?bin (map_of links) F1 F'"
    using create_links [OF F1(1,3) _ _ _ ln] nf by (simp add: F1(2) map_of_btree_entries [OF dist])
  have "node_at F' q = node_at F q" if np: "\<not> prefix ?bin q" for q
  proof -
    have "\<forall>nm. q \<noteq> ?bin @ [nm]" "q \<noteq> ?bin" using np by (auto simp: prefix_def)
    with L show ?thesis by (simp add: links_made_def F1(4))
  qed
  moreover have "node_at F' (?bin @ [nm]) = map_option Symlink (map_of links nm)" for nm
    using L F1(4) [of "?bin @ [nm]"] by (auto simp: links_made_def empty split: option.split)
  ultimately show ?thesis using L by (simp add: links_made_def)
qed

text \<open>C37: When the links of a \<^verbatim>\<open>node_modules\<close> directory are created, \<^verbatim>\<open>.bin\<close> has a link for every name that
  one of its packages offers, to the target of the first package that offers it, and nothing else:
  links of earlier installations are gone. Outside \<^verbatim>\<open>.bin\<close> nothing has changed.\<close>

theorem bin_links_spec:
  assumes ok: "tree_ok F" and nf: "\<forall>c p. fs_fault F c p = None" and md: "node_at F md = Some Dir"
    and pl: "plain F (md @ [''.bin''])"
    and names: "\<And>package_dirs entries nm. immediate_package_dirs F (abs_path md) = Inr package_dirs
      \<Longrightarrow> traverse (package_bins J F) package_dirs = Inr entries
      \<Longrightarrow> nm \<in> dom (map_of (bin_offers package_dirs entries)) \<Longrightarrow> file_name_ok nm"
    and run: "create_bin_links_for_node_modules J (abs_path md) F = (F', Inr ())"
  shows "\<exists>package_dirs entries. immediate_package_dirs F (abs_path md) = Inr package_dirs
    \<and> traverse (package_bins J F) package_dirs = Inr entries
    \<and> (\<forall>nm. node_at F' (md @ [''.bin'', nm]) = map_option Symlink (map_of (bin_offers package_dirs entries) nm))
    \<and> (\<forall>q. \<not> prefix (md @ [''.bin'']) q \<longrightarrow> node_at F' q = node_at F q)
    \<and> tree_ok F'"
proof -
  let ?bin = "md @ [''.bin'']"
  have "file_name_ok ''.bin''" by code_simp
  then have bin: "join_str (abs_path md) ''.bin'' = abs_path ?bin"
    by (simp add: path_join_def is_absolute_def abs_path_def)
  from run obtain package_dirs links F1 where
    dirs: "immediate_package_dirs F (abs_path md) = Inr package_dirs"
    and links: "collect_bin_links J F package_dirs [] = Inr links"
    and clear: "(if fs_exists F (abs_path ?bin) then act_map_err (RemoveBinDir (abs_path ?bin)) (act_call (\<lambda>F. fs_remove_dir_all F (abs_path ?bin)))
       else act_return ()) F = (F1, Inr ())"
    and make: "(if links = [] then act_return ()
        else act_then (act_map_err (CreateBinDir (abs_path ?bin)) (act_call (\<lambda>F. fs_create_dir_all F (abs_path ?bin))))
          (act_for (\<lambda>(bin_name, target). create_bin_link (abs_path ?bin) bin_name target) (btree_entries links))) F1
      = (F', Inr ())"
    unfolding create_bin_links_for_node_modules_def bin Let_def
    by (auto simp: act_bind_Inr act_read_eq rbind_eq_Inr split del: if_split)
  from collect_bin_links_offers [OF links] obtain entries where
    entries: "traverse (package_bins J F) package_dirs = Inr entries"
    and offers: "map_of links = map_of (bin_offers package_dirs entries)" and dist: "distinct (map fst links)"
    by auto
  from clear_bin_dir [OF ok nf pl _ clear] have F1: "tree_ok F1" "fs_fault F1 = fs_fault F"
    "\<And>x. node_at F1 x = (if prefix ?bin x then None else node_at F x)" by auto
  have ok_names: "\<forall>nm \<in> fst ` set links. file_name_ok nm"
    using names [OF dirs entries] offers by (metis dom_map_of_conv_image_fst)
  have "tree_ok F' \<and> (\<forall>nm. node_at F' (md @ [''.bin'', nm]) = map_option Symlink (map_of links nm))
      \<and> (\<forall>q. \<not> prefix ?bin q \<longrightarrow> node_at F' q = node_at F1 q)"
  proof (cases "links = []")
    case True
    with make F1 show ?thesis by (simp add: act_return_eq)
  next
    case False
    with make obtain F2 where mk: "fs_create_dir_all F1 (abs_path ?bin) = Inr F2"
      and ln: "act_for (\<lambda>(bin_name, target). create_bin_link (abs_path ?bin) bin_name target) (btree_entries links) F2 = (F', Inr ())"
      by (auto simp: act_bind_Inr act_map_err_eq_Inr act_call_Inr)
    have md1: "node_at F1 md = Some Dir" using md by (simp add: F1(3))
    show ?thesis by (rule fill_bin_dir [OF F1(1) _ md1 _ ok_names dist mk ln]) (use nf in \<open>simp_all add: F1(2,3)\<close>)
  qed
  then show ?thesis using dirs entries offers by (simp add: F1(3))
qed

section \<open>An example\<close>

text \<open>Two packages that offer the same name, and a link of an earlier installation.\<close>

definition bins_fs :: fs where
  "bins_fs =
     empty_fs\<lparr>fs_nodes := [([''m''], Dir), ([''m'', ''b''], Dir), ([''m'', ''b'', ''package.json''], File 0),
                ([''m'', ''a''], Dir), ([''m'', ''a'', ''package.json''], File 0),
                ([''m'', ''.bin''], Dir), ([''m'', ''.bin'', ''old''], Symlink (abs_path [''x'']))],
              fs_inodes := \<lambda>_. \<lparr> in_data = ''{}'', in_mode = 0 \<rparr>, fs_next := 1\<rparr>"

definition bins_json :: json_lib where
  "bins_json = json3 (JObj [(''bin'', JObj [(''tool'', JStr ''t.js'')])])"

lemma bins_tree_ok: "tree_ok bins_fs"
proof -
  have "node_at bins_fs q = (if q = [] \<or> q = [''m''] \<or> q = [''m'', ''b''] \<or> q = [''m'', ''a''] \<or> q = [''m'', ''.bin''] then Some Dir
      else if q = [''m'', ''b'', ''package.json''] \<or> q = [''m'', ''a'', ''package.json''] then Some (File 0)
      else if q = [''m'', ''.bin'', ''old''] then Some (Symlink (abs_path [''x''])) else None)" for q
    by (auto simp: node_at_def bins_fs_def)
  moreover have "fs_next bins_fs = 1" by (simp add: bins_fs_def)
  ultimately show ?thesis by (auto simp: tree_ok_def split: if_splits)
qed

lemma bins_example:
  "immediate_package_dirs bins_fs (abs_path [''m'']) = Inr [abs_path [''m'', ''a''], abs_path [''m'', ''b'']]"
  "traverse (package_bins bins_json bins_fs) [abs_path [''m'', ''a''], abs_path [''m'', ''b'']]
     = Inr [[(''tool'', ''t.js'')], [(''tool'', ''t.js'')]]"
  "map_of (bin_offers [abs_path [''m'', ''a''], abs_path [''m'', ''b'']] [[(''tool'', ''t.js'')], [(''tool'', ''t.js'')]])
     = [''tool'' \<mapsto> abs_path [''m'', ''a'', ''t.js'']]"
  "snd (create_bin_links_for_node_modules bins_json (abs_path [''m'']) bins_fs) = Inr ()"
  "file_name_ok ''tool''" "plain bins_fs [''m'', ''.bin'']" "node_at bins_fs [''m''] = Some Dir"
proof -
  show "immediate_package_dirs bins_fs (abs_path [''m'']) = Inr [abs_path [''m'', ''a''], abs_path [''m'', ''b'']]" by code_simp
  show "traverse (package_bins bins_json bins_fs) [abs_path [''m'', ''a''], abs_path [''m'', ''b'']]
     = Inr [[(''tool'', ''t.js'')], [(''tool'', ''t.js'')]]" by code_simp
  have "join_str (abs_path [''m'', ''a'']) ''t.js'' = abs_path [''m'', ''a'', ''t.js'']" by code_simp
  then show "map_of (bin_offers [abs_path [''m'', ''a''], abs_path [''m'', ''b'']] [[(''tool'', ''t.js'')], [(''tool'', ''t.js'')]])
     = [''tool'' \<mapsto> abs_path [''m'', ''a'', ''t.js'']]" by (auto simp: bin_offers_def)
  show "snd (create_bin_links_for_node_modules bins_json (abs_path [''m'']) bins_fs) = Inr ()" by code_simp
  show "file_name_ok ''tool''" by code_simp
  show d: "node_at bins_fs [''m''] = Some Dir" by code_simp
  have "node_at bins_fs [''m'', ''.bin''] = Some Dir" by code_simp
  from tree_ok_plain [OF bins_tree_ok this] show "plain bins_fs [''m'', ''.bin'']" by simp
qed

theorem bin_links_spec_witness:
  "\<exists>F'. create_bin_links_for_node_modules bins_json (abs_path [''m'']) bins_fs = (F', Inr ())
     \<and> node_at F' [''m'', ''.bin'', ''tool''] = Some (Symlink (abs_path [''m'', ''a'', ''t.js'']))
     \<and> node_at F' [''m'', ''.bin'', ''old''] = None"
proof -
  from ex_state [OF bins_example(4)] obtain F' where
    run: "create_bin_links_for_node_modules bins_json (abs_path [''m'']) bins_fs = (F', Inr ())" ..
  have nf: "\<forall>c p. fs_fault bins_fs c p = None" by (simp add: bins_fs_def empty_fs_def)
  have pl: "plain bins_fs ([''m''] @ [''.bin''])" using bins_example(6) by simp
  have nm: "file_name_ok nm"
    if "immediate_package_dirs bins_fs (abs_path [''m'']) = Inr ds" and "traverse (package_bins bins_json bins_fs) ds = Inr es"
      and "nm \<in> dom (map_of (bin_offers ds es))" for ds es nm
    using that bins_example(2,3,5) unfolding bins_example(1) by (auto split: if_splits)
  from bin_links_spec [OF bins_tree_ok nf bins_example(7) pl nm run] bins_example(2,3) show ?thesis
    unfolding bins_example(1) using run by auto
qed

end
