(* ===== verification/Executor.thy ===== *)
theory Executor
  imports File_Tree
begin

text \<open>
  \<^verbatim>\<open>crates/executor/src/lib.rs\<close> and the quoting of \<^verbatim>\<open>crates/cli/src/cli_args/run.rs\<close>: how a script or a
  binary of the project is started. What the child process does to the file system is the
  parameter \<open>spawn\<close>.
\<close>

section \<open>The child process\<close>

datatype executor_error =
    SpawnCommand io_kind
  | WaitProcess io_kind
  | ExitStatus int
  | JoinPaths string

record command =
  cm_program :: string
  cm_args :: "string list"
  cm_current_dir :: "path option"
  cm_npm_command :: "string option"
  cm_path :: "string option"

text \<open>
  The environment variable \<^verbatim>\<open>PATH\<close> of the process, and the start of a command: it fails, or the child
  runs and leaves the file system and the outcome of the wait, a status that is a success when it
  is 0.
\<close>

record process_lib =
  pl_path :: "string option"
  pl_spawn :: "command \<Rightarrow> fs \<Rightarrow> io_kind + fs \<times> (io_kind + int)"

definition new_command :: "string \<Rightarrow> string list \<Rightarrow> command" where
  "new_command program args =
     \<lparr> cm_program = program, cm_args = args, cm_current_dir = None, cm_npm_command = None, cm_path = None \<rparr>"

text \<open>\<^verbatim>\<open>env::split_paths\<close> and \<^verbatim>\<open>env::join_paths\<close> on Unix.\<close>

definition split_paths :: "string \<Rightarrow> string list" where
  "split_paths s = split_on (CHR '':'') s"

definition join_paths :: "string list \<Rightarrow> string + string" where
  "join_paths ps =
     (if list_ex (\<lambda>p. CHR '':'' \<in> set p) ps then Inl ''path segment contains separator `:`''
      else Inr (join_with '':'' ps))"

definition joined_path_env :: "process_lib \<Rightarrow> path list \<Rightarrow> executor_error + string" where
  "joined_path_env P extra_paths =
     (let current_paths = (case pl_path P of None \<Rightarrow> [] | Some s \<Rightarrow> split_paths s)
      in map_err JoinPaths (join_paths (map path_to_string extra_paths @ current_paths)))"

definition apply_context ::
    "process_lib \<Rightarrow> command \<Rightarrow> path option \<Rightarrow> path list \<Rightarrow> string option \<Rightarrow> executor_error + command" where
  "apply_context P cmd cwd extra_paths npm_command =
     (let cmd = (case cwd of None \<Rightarrow> cmd | Some d \<Rightarrow> cmd\<lparr>cm_current_dir := Some d\<rparr>);
          cmd = (case npm_command of None \<Rightarrow> cmd | Some c \<Rightarrow> cmd\<lparr>cm_npm_command := Some c\<rparr>)
      in if extra_paths = [] then Inr cmd
         else map_ok (\<lambda>s. cmd\<lparr>cm_path := Some s\<rparr>) (joined_path_env P extra_paths))"

definition wait_for_success :: "io_kind + int \<Rightarrow> executor_error + unit" where
  "wait_for_success waited =
     rbind (map_err WaitProcess waited) (\<lambda>status. if status = 0 then Inr () else Inl (ExitStatus status))"

definition spawn_and_wait :: "process_lib \<Rightarrow> command \<Rightarrow> (fs, executor_error, unit) action" where
  "spawn_and_wait P cmd =
     act_bind (act_map_err SpawnCommand (act_run (pl_spawn P cmd))) (\<lambda>waited.
     act_read (\<lambda>_. wait_for_success waited))"

definition execute_shell_with_context ::
    "process_lib \<Rightarrow> string \<Rightarrow> path option \<Rightarrow> path list \<Rightarrow> string option \<Rightarrow> (fs, executor_error, unit) action" where
  "execute_shell_with_context P cmd cwd extra_paths npm_command =
     act_bind (act_read (\<lambda>_. apply_context P (new_command ''sh'' [''-c'', cmd]) cwd extra_paths npm_command))
       (spawn_and_wait P)"

definition execute_shell :: "process_lib \<Rightarrow> string \<Rightarrow> (fs, executor_error, unit) action" where
  "execute_shell P cmd = execute_shell_with_context P cmd None [] None"

definition execute_binary_with_context ::
    "process_lib \<Rightarrow> string \<Rightarrow> string list \<Rightarrow> path option \<Rightarrow> path list \<Rightarrow> string option
     \<Rightarrow> (fs, executor_error, unit) action" where
  "execute_binary_with_context P binary args cwd extra_paths npm_command =
     act_bind (act_read (\<lambda>_. apply_context P (new_command binary args) cwd extra_paths npm_command))
       (spawn_and_wait P)"

section \<open>Arguments of a script\<close>

definition needs_quotes :: "string \<Rightarrow> bool" where
  "needs_quotes arg \<longleftrightarrow>
     arg = [] \<or> has_whitespace arg
     \<or> list_ex (\<lambda>c. c \<in> set [CHR 0x27, CHR 0x22, CHR 0x5C, CHR ''$'', CHR 0x60, CHR ''!'', CHR ''&'', CHR '';'', CHR ''|'',
                            CHR ''<'', CHR ''>'']) arg"

text \<open>\<^verbatim>\<open>replace\<close> of a single quote by the four characters that close the quotes, add an escaped one and
  open them again.\<close>

definition quote_char :: "char \<Rightarrow> string" where
  "quote_char c = (if c = CHR 0x27 then [CHR 0x27, CHR 0x5C, CHR 0x27, CHR 0x27] else [c])"

definition shell_escape :: "string \<Rightarrow> string" where
  "shell_escape arg =
     (if needs_quotes arg then CHR 0x27 # concat (map quote_char arg) @ [CHR 0x27] else arg)"

text \<open>The command line of a script: the script, a space and the arguments.\<close>

definition script_command :: "string \<Rightarrow> string list \<Rightarrow> string" where
  "script_command script args = trim (script @ '' '' @ join_with '' '' (map shell_escape args))"

section \<open>What the child sees\<close>

lemma split_on_join_with:
  "ps \<noteq> [] \<Longrightarrow> \<forall>p \<in> set ps. c \<notin> set p \<Longrightarrow> split_on c (join_with [c] ps) = ps"
proof (induction ps rule: induct_list012)
  case (3 p q ps)
  then show ?case by (simp add: split_on_append)
qed (simp_all add: split_on_id)

text \<open>A started script finds the binaries of the project first: the search path of the child is the
  directories given, in order, followed by the search path of the process, all of it unchanged; it
  is refused exactly when a directory given has a colon in its name.\<close>

theorem child_search_path:
  "case joined_path_env P extra_paths of
     Inr s \<Rightarrow> extra_paths = [] \<and> pl_path P = None \<and> s = []
       \<or> split_paths s = map path_to_string extra_paths @ (case pl_path P of None \<Rightarrow> [] | Some cur \<Rightarrow> split_paths cur)
   | Inl e \<Rightarrow> \<exists>d \<in> set extra_paths. CHR '':'' \<in> set (path_to_string d)"
proof -
  have cur: "CHR '':'' \<notin> set p" if "p \<in> set (split_on (CHR '':'') s)" for p s
    using that by (induction s arbitrary: p) (auto split: list.splits if_splits)
  show ?thesis
    by (auto simp: joined_path_env_def join_paths_def split_paths_def Let_def list_ex_iff split: option.split
        intro!: split_on_join_with dest: cur)
qed

end
