(* ===== verification/Shell_Words.thy ===== *)
theory Shell_Words
  imports Executor
begin

text \<open>
  The words that a shell reads from a command line, and that the arguments of a script survive
  their quoting. The reader follows the quoting rules of POSIX (Shell Command Language, 2.2): single
  quotes keep everything, a backslash keeps the next character, blanks separate; every other
  character that the rules say must or may have to be quoted is outside of what the reader covers,
  and gives no result.
\<close>

definition shell_blank :: "char \<Rightarrow> bool" where
  "shell_blank c \<longleftrightarrow> c = CHR '' '' \<or> c = CHR 0x09"

definition shell_special :: "char \<Rightarrow> bool" where
  "shell_special c \<longleftrightarrow> c \<in> set (CHR 0x0A # CHR 0x60 # CHR 0x22 # ''|&;<>()$*?[#~=%'')"

fun shell_words :: "string option \<Rightarrow> string \<Rightarrow> string list option"
and shell_quoted :: "string \<Rightarrow> string \<Rightarrow> string list option" where
  "shell_words cur [] = Some (case cur of None \<Rightarrow> [] | Some w \<Rightarrow> [w])"
| "shell_words cur (c # s) =
     (let w = (case cur of None \<Rightarrow> [] | Some w \<Rightarrow> w)
      in if shell_blank c then
           (case cur of None \<Rightarrow> shell_words None s | Some w \<Rightarrow> map_option (Cons w) (shell_words None s))
         else if c = CHR 0x27 then shell_quoted w s
         else if c = CHR 0x5C then (case s of [] \<Rightarrow> None | d # s \<Rightarrow> shell_words (Some (w @ [d])) s)
         else if shell_special c then None
         else shell_words (Some (w @ [c])) s)"
| "shell_quoted w [] = None"
| "shell_quoted w (c # s) = (if c = CHR 0x27 then shell_words (Some w) s else shell_quoted (w @ [c]) s)"

lemma shell_quoted_escape:
  "shell_quoted w (concat (map quote_char a) @ CHR 0x27 # rest) = shell_words (Some (w @ a)) rest"
  by (induction a arbitrary: w) (auto simp: quote_char_def shell_blank_def)

lemma shell_words_plain:
  assumes "\<And>c. c \<in> set a \<Longrightarrow> \<not> shell_special c \<and> \<not> shell_blank c \<and> c \<noteq> CHR 0x27 \<and> c \<noteq> CHR 0x5C"
  shows "shell_words (Some w) (a @ rest) = shell_words (Some (w @ a)) rest"
  using assms by (induction a arbitrary: w) auto

lemma no_ascii_ws: "\<not> has_whitespace s \<Longrightarrow> c \<in> set s \<Longrightarrow> \<not> ascii_ws c"
  by (induction s) auto

text \<open>The characters that are special to the shell and that \<^verbatim>\<open>shell_escape\<close> does not quote.\<close>

definition left_unquoted :: "char \<Rightarrow> bool" where
  "left_unquoted c \<longleftrightarrow> c \<in> set ''()*?[#~=%''"

definition escapable :: "string \<Rightarrow> bool" where
  "escapable arg \<longleftrightarrow> needs_quotes arg \<or> \<not> list_ex left_unquoted arg"

lemma shell_words_escape:
  assumes "escapable a"
  shows "shell_words None (shell_escape a @ rest) = shell_words (Some a) rest"
proof (cases "needs_quotes a")
  case True
  then show ?thesis using shell_quoted_escape [of "[]" a rest] by (simp add: shell_escape_def shell_blank_def)
next
  case False
  then obtain c b where a: "a = c # b" by (cases a) (auto simp: needs_quotes_def)
  have plain: "\<not> shell_special x \<and> \<not> shell_blank x \<and> x \<noteq> CHR 0x27 \<and> x \<noteq> CHR 0x5C" if "x \<in> set a" for x
  proof -
    have "\<not> ascii_ws x" using False that no_ascii_ws [of a x] by (auto simp: needs_quotes_def)
    with False assms that show ?thesis
      by (auto simp: needs_quotes_def escapable_def left_unquoted_def list_ex_iff shell_special_def shell_blank_def ascii_ws_def)
  qed
  have "shell_words None (a @ rest) = shell_words (Some [c]) (b @ rest)"
    using plain [of c] by (simp add: a)
  also have "\<dots> = shell_words (Some a) rest"
    using shell_words_plain [of b "[c]" rest] plain by (simp add: a)
  finally show ?thesis using False by (simp add: shell_escape_def)
qed

lemma shell_words_join:
  "\<forall>a \<in> set args. escapable a \<Longrightarrow> shell_words None (join_with '' '' (map shell_escape args)) = Some args"
proof (induction args rule: induct_list012)
  case (2 a)
  then show ?case using shell_words_escape [of a "[]"] by simp
next
  case (3 a b args)
  then show ?case using shell_words_escape [of a] by (simp add: shell_blank_def)
qed simp



text \<open>A pattern is handed to the shell as it is.\<close>

lemma pattern_is_not_escaped: "shell_escape ''*.js'' = ''*.js''"
  by code_simp

end
