(* ===== verification/Cli.thy ===== *)
theory Cli
  imports Executor Install Store_Maintenance
begin

text \<open>
  The command line, \<^verbatim>\<open>crates/cli/src\<close>: \<^verbatim>\<open>cli_args.rs\<close>, the commands under \<^verbatim>\<open>cli_args\<close>, and
  \<^verbatim>\<open>state.rs\<close>. A command returns the lines it prints. Its caches are those of a new process.
\<close>

section \<open>The working directory\<close>

definition push_component :: "path \<Rightarrow> component \<Rightarrow> path" where
  "push_component normalized component =
     (case component of
        CurDir \<Rightarrow> normalized
      | ParentDir \<Rightarrow> path_pop normalized
      | RootDir \<Rightarrow> path_join normalized [RootDir]
      | Normal nm \<Rightarrow> path_join normalized [Normal nm])"

definition normalize_path :: "path \<Rightarrow> path" where
  "normalize_path p = foldl push_component [] p"

definition resolve_base_dir :: "environment \<Rightarrow> path \<Rightarrow> io_kind + path" where
  "resolve_base_dir E dir =
     (if is_absolute dir then Inr (normalize_path dir)
      else map_ok (\<lambda>current_dir. normalize_path (path_join current_dir dir)) (en_current_dir E))"

section \<open>Which groups the flags select\<close>

definition then_some :: "bool \<Rightarrow> 'a \<Rightarrow> 'a list" where
  "then_some b x = (if b then [x] else [])"

text \<open>\<^verbatim>\<open>InstallDependencyOptions\<close> and \<^verbatim>\<open>UpdateDependencyOptions\<close>.\<close>

record dependency_options =
  do_prod :: bool
  do_dev :: bool
  do_no_optional :: bool

definition install_groups :: "dependency_options \<Rightarrow> dependency_group list" where
  "install_groups opts =
     (let has_both = (do_prod opts = do_dev opts);
          has_prod = (has_both \<or> do_prod opts);
          has_dev = (has_both \<or> do_dev opts);
          has_optional = (\<not> do_no_optional opts)
      in then_some has_prod Prod @ then_some has_dev Dev @ then_some has_optional Optional)"

definition update_groups :: "dependency_options \<Rightarrow> dependency_group list" where
  "update_groups opts =
     (let has_both = (do_prod opts = do_dev opts);
          has_prod = (has_both \<or> do_prod opts);
          has_dev = (has_both \<or> do_dev opts);
          has_optional = (\<not> do_no_optional opts)
      in then_some has_prod Prod @ then_some has_dev Dev @ then_some has_optional Optional)"

record fetch_options =
  fo_prod :: bool
  fo_dev :: bool

definition fetch_groups :: "fetch_options \<Rightarrow> dependency_group list" where
  "fetch_groups opts =
     (let has_both = (fo_prod opts = fo_dev opts);
          has_prod = (has_both \<or> fo_prod opts);
          has_dev = (has_both \<or> fo_dev opts)
      in then_some has_prod Prod @ then_some has_dev Dev @ then_some has_prod Optional)"

record save_options =
  so_save_prod :: bool
  so_save_dev :: bool
  so_save_optional :: bool
  so_save_peer :: bool

definition saves_prod :: "save_options \<Rightarrow> bool" where
  "saves_prod opts \<longleftrightarrow> so_save_prod opts \<or> (\<not> so_save_dev opts \<and> \<not> so_save_optional opts \<and> \<not> so_save_peer opts)"

definition saves_dev :: "save_options \<Rightarrow> bool" where
  "saves_dev opts \<longleftrightarrow> so_save_dev opts \<or> (\<not> so_save_prod opts \<and> \<not> so_save_optional opts \<and> so_save_peer opts)"

definition add_groups :: "save_options \<Rightarrow> dependency_group list" where
  "add_groups opts =
     then_some (saves_prod opts) Prod @ then_some (saves_dev opts) Dev @ then_some (so_save_optional opts) Optional
     @ then_some (so_save_peer opts) Peer"

record remove_options =
  ro_save_prod :: bool
  ro_save_dev :: bool
  ro_save_optional :: bool

definition remove_groups :: "remove_options \<Rightarrow> dependency_group list" where
  "remove_groups opts =
     (let has_filter = (ro_save_prod opts \<or> ro_save_dev opts \<or> ro_save_optional opts)
      in then_some (\<not> has_filter \<or> ro_save_prod opts) Prod @ then_some (\<not> has_filter \<or> ro_save_dev opts) Dev
         @ then_some (\<not> has_filter \<or> ro_save_optional opts) Optional @ then_some (\<not> has_filter) Peer)"

section \<open>Commands\<close>

datatype store_command = StoreStatus | StoreAdd "string list" | StorePrune | StorePath

datatype cli_command =
    Init
  | Add "string list" save_options bool
  | InstallCommand dependency_options install_flags
  | FetchCommand fetch_options
  | RemoveCommand "string list" remove_options
  | Update "string list" dependency_options bool
  | TestCommand
  | RunCommand string "string list" bool
  | Exec string "string list"
  | Root
  | Bin
  | StartCommand
  | StoreCommand store_command
  | Script "string list"

datatype cli_error =
    ResolveDirectory io_kind
  | InitManifest manifest_error
  | InitLoadManifest manifest_error
  | InitLoadLockfile load_lockfile_error
  | InstallLoadLockfile load_lockfile_error
  | FetchLoadLockfile load_lockfile_error
  | FetchLockfileRequired
  | FetchFailed fetch_run_error
  | AddFailed add_error
  | RemoveFailed remove_error
  | UpdateFailed update_error
  | ScriptManifest manifest_error
  | Execute executor_error
  | StatusFailed store_status_error
  | StoreAddFailed store_add_error
  | PruneFailed prune_error

text \<open>The libraries of a process and its surroundings. The settings of the workspace are replaced by those loaded.\<close>

record ('v, 'r) cli =
  cl_workspace :: "('v, 'r) workspace"
  cl_ini :: ini_lib
  cl_environment :: environment
  cl_process :: process_lib

definition with_config :: "('v, 'r) workspace \<Rightarrow> npmrc \<Rightarrow> ('v, 'r) workspace" where
  "with_config W config = W\<lparr>ws_installer := (ws_installer W)\<lparr>i_config := config\<rparr>\<rparr>"

definition new_caches :: "('v world, 'e, unit) action" where
  "new_caches = (\<lambda>w. (w\<lparr>w_metadata := [], w_mem_cache := [], w_resolved := []\<rparr>, Inr ()))"

text \<open>The settings for a directory, and the workspace with them.\<close>

definition load_workspace :: "('v, 'r) cli \<Rightarrow> path \<Rightarrow> ('v world, 'e failure, ('v, 'r) workspace) action" where
  "load_workspace C base_dir =
     act_read (\<lambda>w. map_ok (with_config (cl_workspace C))
       (npmrc_current (cl_ini C) (cl_environment C) (w_fs w) (Inr base_dir :: unit + path)
          (en_home_dir (cl_environment C)) (npmrc_new (cl_ini C) (cl_environment C))))"

text \<open>\<^verbatim>\<open>State::init\<close>: the manifest, created when there is none, and the lockfile, if the settings have one.\<close>

definition call_load_lockfile :: "bool \<Rightarrow> ('e + 'a option) \<Rightarrow> 'e + 'a option" where
  "call_load_lockfile config_lockfile loaded = (if config_lockfile then loaded else Inr None)"

definition init_state ::
    "('v, 'r) workspace \<Rightarrow> path \<Rightarrow> ('v world, cli_error failure, package_manifest \<times> 'v lockfile option) action" where
  "init_state W manifest_path =
     (let lockfile_dir = (case path_parent manifest_path of None \<Rightarrow> [CurDir] | Some d \<Rightarrow> d)
      in act_bind (act_map_err (\<lambda>e. Err (InitLoadManifest e))
                     (on_fs (act_run (\<lambda>F. manifest_create_if_needed (ws_json W) F manifest_path)))) (\<lambda>M.
         act_bind (act_read (\<lambda>w. map_err (\<lambda>e. Err (InitLoadLockfile e))
                     (call_load_lockfile (nc_lockfile (ws_config W)) (load_from_dir (ws_yaml W) (w_fs w) lockfile_dir)))) (\<lambda>lockfile.
         act_then new_caches (act_return (M, lockfile)))))"

definition start_state ::
    "('v, 'r) cli \<Rightarrow> path \<Rightarrow> ('v world, cli_error failure, ('v, 'r) workspace \<times> package_manifest \<times> 'v lockfile option) action" where
  "start_state C base_dir =
     act_bind (load_workspace C base_dir) (\<lambda>W.
     act_bind (init_state W (join_str base_dir ''package.json'')) (\<lambda>s. act_return (W, s)))"

section \<open>Their execution\<close>

definition install_command ::
    "('v, 'r) workspace \<Rightarrow> package_manifest \<Rightarrow> 'v lockfile option \<Rightarrow> dependency_options \<Rightarrow> install_flags
     \<Rightarrow> ('v world, cli_error failure, string list) action" where
  "install_command W M lockfile opts flags =
     act_bind (if lockfile = None \<and> (if_offline flags \<or> if_frozen_lockfile flags \<or> if_lockfile_only flags)
               then act_read (\<lambda>w. map_err (\<lambda>e. Err (InstallLoadLockfile e))
                      (load_from_dir (ws_yaml W) (w_fs w) (case path_parent (mf_path M) of None \<Rightarrow> [CurDir] | Some d \<Rightarrow> d)))
               else act_return None) (\<lambda>loaded_lockfile.
     let effective_lockfile = (case lockfile of None \<Rightarrow> loaded_lockfile | Some lf \<Rightarrow> Some lf)
     in act_then (install W M effective_lockfile (install_groups opts) flags) (act_return []))"

definition fetch_command ::
    "('v, 'r) cli \<Rightarrow> path \<Rightarrow> fetch_options \<Rightarrow> ('v world, cli_error failure, string list) action" where
  "fetch_command C base_dir opts =
     act_bind (act_read (\<lambda>w. map_err (\<lambda>e. Err (FetchLoadLockfile e))
                 (load_from_dir (ws_yaml (cl_workspace C)) (w_fs w) base_dir))) (\<lambda>loaded.
     act_bind (act_read (\<lambda>_. ok_or (Err FetchLockfileRequired) loaded)) (\<lambda>lf.
     act_then new_caches
     (act_bind (load_workspace C base_dir) (\<lambda>W.
      act_then (act_map_err (map_failure_err FetchFailed) (fetch_run (ws_installer W) lf (fetch_groups opts)))
      (act_return [])))))"

definition project_bin_paths :: "path \<Rightarrow> path list" where
  "project_bin_paths base_dir = [join_str (join_str base_dir ''node_modules'') ''.bin'']"

definition execute ::
    "('v, 'r) cli \<Rightarrow> path \<Rightarrow> string \<Rightarrow> string \<Rightarrow> ('v world, cli_error failure, unit) action" where
  "execute C base_dir cmd npm_command =
     act_map_err (\<lambda>e. Err (Execute e))
       (on_fs (execute_shell_with_context (cl_process C) cmd (Some base_dir) (project_bin_paths base_dir) (Some npm_command)))"

definition load_script ::
    "('v, 'r) cli \<Rightarrow> path \<Rightarrow> string \<Rightarrow> bool \<Rightarrow> ('v world, cli_error failure, string option) action" where
  "load_script C base_dir name if_present =
     act_read (\<lambda>w. map_err (\<lambda>e. Err (ScriptManifest e))
       (rbind (manifest_from_path (ws_json (cl_workspace C)) (w_fs w) (join_str base_dir ''package.json'')) (\<lambda>M.
        manifest_script M name if_present)))"

definition run_script ::
    "('v, 'r) cli \<Rightarrow> path \<Rightarrow> string \<Rightarrow> string list \<Rightarrow> bool \<Rightarrow> ('v world, cli_error failure, string list) action" where
  "run_script C base_dir name args if_present =
     act_bind (load_script C base_dir name if_present) (\<lambda>script.
     case script of
       None \<Rightarrow> act_return []
     | Some script \<Rightarrow> act_then (execute C base_dir (script_command script args) ''run-script'') (act_return []))"

definition store_command_run ::
    "('v, 'r) cli \<Rightarrow> path \<Rightarrow> store_command \<Rightarrow> ('v world, cli_error failure, string list) action" where
  "store_command_run C base_dir c =
     act_bind (load_workspace C base_dir) (\<lambda>W.
     let I = ws_installer W; S = nc_store_dir (i_config I)
     in case c of
          StoreStatus \<Rightarrow>
            act_bind (act_read (\<lambda>w. map_err (map_failure_err StatusFailed) (status (i_store I) S (w_fs w)))) (\<lambda>_. act_return [])
        | StoreAdd packages \<Rightarrow>
            act_then new_caches
            (act_then (act_map_err (map_failure_err StoreAddFailed) (store_add (ws_fuel W) I packages)) (act_return []))
        | StorePrune \<Rightarrow> act_then (act_map_err (map_failure_err PruneFailed) (on_fs (prune (i_store I) S))) (act_return [])
        | StorePath \<Rightarrow> act_return [path_to_string (sd_root S)])"

definition add_command ::
    "('v, 'r) workspace \<Rightarrow> package_manifest \<Rightarrow> 'v lockfile option \<Rightarrow> string list \<Rightarrow> save_options \<Rightarrow> bool
     \<Rightarrow> ('v world, cli_error failure, string list) action" where
  "add_command W M lockfile packages opts save_exact =
     act_bind (act_map_err (map_failure_err AddFailed) (add W M lockfile (add_groups opts) packages save_exact)) (\<lambda>_.
     act_return [])"

definition remove_command ::
    "('v, 'r) workspace \<Rightarrow> package_manifest \<Rightarrow> string list \<Rightarrow> remove_options
     \<Rightarrow> ('v world, cli_error failure, string list) action" where
  "remove_command W M packages opts =
     act_bind (act_map_err (map_failure_err RemoveFailed) (remove W M (remove_groups opts) packages)) (\<lambda>_.
     act_return [])"

definition update_command ::
    "('v, 'r) workspace \<Rightarrow> package_manifest \<Rightarrow> string list \<Rightarrow> dependency_options \<Rightarrow> bool
     \<Rightarrow> ('v world, cli_error failure, string list) action" where
  "update_command W M packages opts latest =
     act_bind (act_map_err (map_failure_err UpdateFailed) (update_run W M (update_groups opts) packages latest)) (\<lambda>_.
     act_return [])"

definition exec_command ::
    "('v, 'r) cli \<Rightarrow> path \<Rightarrow> string \<Rightarrow> string list \<Rightarrow> ('v world, cli_error failure, string list) action" where
  "exec_command C base_dir binary args =
     act_then (act_map_err (\<lambda>e. Err (Execute e))
         (on_fs (execute_binary_with_context (cl_process C) binary args (Some base_dir) (project_bin_paths base_dir)
                   (Some ''exec''))))
       (act_return [])"

definition root_command :: "npmrc \<Rightarrow> string list" where
  "root_command config = [path_to_string (nc_modules_dir config)]"

definition bin_command :: "npmrc \<Rightarrow> string list" where
  "bin_command config = [path_to_string (join_str (nc_modules_dir config) ''.bin'')]"

text \<open>The scripts \<^verbatim>\<open>test\<close> and \<^verbatim>\<open>start\<close>.\<close>

definition test_command :: "('v, 'r) cli \<Rightarrow> path \<Rightarrow> ('v world, cli_error failure, string list) action" where
  "test_command C base_dir =
     act_bind (load_script C base_dir ''test'' False) (\<lambda>script.
     case script of
       None \<Rightarrow> act_return []
     | Some script \<Rightarrow> act_then (execute C base_dir script ''test'') (act_return []))"

definition start_command :: "('v, 'r) cli \<Rightarrow> path \<Rightarrow> ('v world, cli_error failure, string list) action" where
  "start_command C base_dir =
     act_bind (load_script C base_dir ''start'' True) (\<lambda>script.
     act_then (execute C base_dir (case script of None \<Rightarrow> ''node server.js'' | Some s \<Rightarrow> s) ''start'') (act_return []))"

definition cli_run_in :: "('v, 'r) cli \<Rightarrow> path \<Rightarrow> cli_command \<Rightarrow> ('v world, cli_error failure, string list) action" where
  "cli_run_in C base_dir command =
     (case command of
        Init \<Rightarrow>
          act_bind (act_map_err (\<lambda>e. Err (InitManifest e))
            (on_fs (act_run (\<lambda>F. manifest_init (ws_json (cl_workspace C)) F (join_str base_dir ''package.json'')))))
            (\<lambda>message. act_return [message])
      | Add packages opts save_exact \<Rightarrow>
          act_bind (start_state C base_dir) (\<lambda>(W, M, lockfile). add_command W M lockfile packages opts save_exact)
      | InstallCommand opts flags \<Rightarrow>
          act_bind (start_state C base_dir) (\<lambda>(W, M, lockfile). install_command W M lockfile opts flags)
      | FetchCommand opts \<Rightarrow> fetch_command C base_dir opts
      | RemoveCommand packages opts \<Rightarrow>
          act_bind (start_state C base_dir) (\<lambda>(W, M, _). remove_command W M packages opts)
      | Update packages opts latest \<Rightarrow>
          act_bind (start_state C base_dir) (\<lambda>(W, M, _). update_command W M packages opts latest)
      | TestCommand \<Rightarrow> test_command C base_dir
      | RunCommand name args if_present \<Rightarrow> run_script C base_dir name args if_present
      | Exec binary args \<Rightarrow> exec_command C base_dir binary args
      | Root \<Rightarrow> act_bind (load_workspace C base_dir) (\<lambda>W. act_return (root_command (ws_config W)))
      | Bin \<Rightarrow> act_bind (load_workspace C base_dir) (\<lambda>W. act_return (bin_command (ws_config W)))
      | StartCommand \<Rightarrow> start_command C base_dir
      | StoreCommand c \<Rightarrow> store_command_run C base_dir c
      | Script args \<Rightarrow>
          (case args of [] \<Rightarrow> act_return [] | name # args \<Rightarrow> run_script C base_dir name args False))"

definition cli_run :: "('v, 'r) cli \<Rightarrow> path \<Rightarrow> cli_command \<Rightarrow> ('v world, cli_error failure, string list) action" where
  "cli_run C dir command =
     act_bind (act_read (\<lambda>_. map_err (\<lambda>e. Err (ResolveDirectory e)) (resolve_base_dir (cl_environment C) dir))) (\<lambda>base_dir.
     cli_run_in C base_dir command)"

section \<open>Laws of the working directory\<close>

lemma path_pop_abs: "path_pop (abs_path ns) = abs_path (butlast ns)"
  by (cases ns rule: rev_cases) (simp_all add: path_pop_def path_parent_def abs_path_def)

text \<open>The names left of a path when every \<^verbatim>\<open>..\<close> cancels the name before it.\<close>

fun cancel_parents :: "string list \<Rightarrow> component list \<Rightarrow> string list" where
  "cancel_parents ns [] = ns"
| "cancel_parents ns (Normal n # p) = cancel_parents (ns @ [n]) p"
| "cancel_parents ns (ParentDir # p) = cancel_parents (butlast ns) p"
| "cancel_parents ns (CurDir # p) = cancel_parents ns p"
| "cancel_parents ns (RootDir # p) = cancel_parents [] p"

lemma foldl_push: "foldl push_component (abs_path ns) p = abs_path (cancel_parents ns p)"
proof (induction ns p rule: cancel_parents.induct)
  case (2 ns n p)
  have "path_join (abs_path ns) [Normal n] = abs_path (ns @ [n])"
    by (simp add: path_join_def abs_path_def is_absolute_def)
  then show ?case using 2 by (simp add: push_component_def)
next
  case (5 ns p)
  have "path_join (abs_path ns) [RootDir] = abs_path []"
    by (simp add: path_join_def is_absolute_def abs_path_def)
  then show ?case using 5 by (simp add: push_component_def)
qed (simp_all add: push_component_def path_pop_abs)

lemma normalize_absolute: "normalize_path (RootDir # p) = abs_path (cancel_parents [] p)"
proof -
  have "path_join [] [RootDir] = abs_path []" by (simp add: path_join_def is_absolute_def abs_path_def)
  then show ?thesis using foldl_push [of "[]" p] by (simp add: normalize_path_def push_component_def)
qed

lemma cancel_names: "cancel_parents ns (map Normal ms) = ns @ ms"
  by (induction ms arbitrary: ns) simp_all

lemma normalize_abs_path: "normalize_path (abs_path ns) = abs_path ns"
  using normalize_absolute [of "map Normal ns"] by (simp add: abs_path_def cancel_names)

text \<open>The directory a command works in is absolute and consists of names only: it is the directory
  given, resolved against the working directory of the process, with every \<^verbatim>\<open>.\<close> dropped and every
  \<^verbatim>\<open>..\<close> cancelled against the name before it, without looking at the file system; one that has
  neither stays as it is.\<close>

theorem base_dir_is_clean:
  assumes "resolve_base_dir E dir = Inr base_dir" and "\<And>d. en_current_dir E = Inr d \<Longrightarrow> is_absolute d"
  shows "\<exists>p q. base_dir = abs_path (cancel_parents [] q) \<and> p = RootDir # q
    \<and> (if is_absolute dir then p = dir else \<exists>d. en_current_dir E = Inr d \<and> p = path_join d dir)
    \<and> (\<forall>ms. p = abs_path ms \<longrightarrow> base_dir = p)"
proof -
  from assms obtain p where p: "is_absolute p" "base_dir = normalize_path p"
    and dir: "if is_absolute dir then p = dir else \<exists>d. en_current_dir E = Inr d \<and> p = path_join d dir"
    by (auto simp: resolve_base_dir_def result_simps is_absolute_join split: if_splits)
  from p(1) obtain q where q: "p = RootDir # q" by (auto simp: is_absolute_def split: list.splits component.splits)
  have "base_dir = abs_path (cancel_parents [] q)" using p(2) normalize_absolute [of q] by (simp add: q)
  moreover have "\<forall>ms. p = abs_path ms \<longrightarrow> base_dir = p" using p(2) by (simp add: normalize_abs_path)
  ultimately show ?thesis using q dir by blast
qed

theorem base_dir_is_clean_witness:
  "resolve_base_dir (\<lparr> en_pnpm_home = None, en_xdg_data_home = None, en_home_dir = None, en_os = ''linux'',
      en_current_dir = Inr (abs_path [''work'', ''app'']) \<rparr>) [ParentDir, CurDir, Normal ''lib''] = Inr (abs_path [''work'', ''lib''])
   \<and> (\<exists>q. abs_path [''work'', ''lib''] = abs_path (cancel_parents [] q))"
proof -
  let ?E = "\<lparr> en_pnpm_home = None, en_xdg_data_home = None, en_home_dir = None, en_os = ''linux'',
      en_current_dir = Inr (abs_path [''work'', ''app'']) \<rparr>"
  have r: "resolve_base_dir ?E [ParentDir, CurDir, Normal ''lib''] = Inr (abs_path [''work'', ''lib''])" by code_simp
  have "is_absolute d" if "en_current_dir ?E = Inr d" for d
    using that by (auto simp: is_absolute_def abs_path_def)
  from base_dir_is_clean [OF r this] r show ?thesis by blast
qed

end
