(* ===== verification/Install_Requests.thy ===== *)
theory Install_Requests
  imports Install_Example
begin

text \<open>
  What the commands ask of the network. Two relations on the world are followed through the
  commands: nothing was requested, and only some URLs were, each at most once as long as the
  tarballs in memory are shared.
\<close>

section \<open>Offline\<close>

definition no_requests :: "'v world \<Rightarrow> 'v world \<Rightarrow> bool" where
  "no_requests w w' \<longleftrightarrow> w_requests w' = w_requests w"

interpretation quiet: state_order no_requests
  by unfold_locales (simp_all add: no_requests_def)

text \<open>Work on the file system asks nothing, and leaves the memory of tarballs alone.\<close>

lemma on_fs_world:
  "w_requests (fst (on_fs m w)) = w_requests w" "w_mem_cache (fst (on_fs m w)) = w_mem_cache w"
  by (simp_all add: on_fs_def act_on_def split: prod.split)

lemma quiet_on_fs: "steps no_requests (on_fs m)"
  by (simp add: steps_def no_requests_def on_fs_world)

lemma quiet_set_cache: "steps no_requests (set_cache url v)"
  by (simp add: steps_def no_requests_def set_cache_def)

lemmas quiet_steps = quiet.steps_intros quiet.async_steps quiet_on_fs quiet_set_cache

lemma quiet_run_with_mem_cache:
  "steps no_requests (run_with_mem_cache L T N S i sz url NetworkOffline)"
  unfolding run_with_mem_cache_def obtain_tarball_def
  by (auto intro!: quiet_steps split: option.split cache_value.split)

lemma quiet_install_package: "steps no_requests (install_package_by_snapshot I NetworkOffline dp sn)"
  unfolding install_package_by_snapshot_def
  by (auto intro!: quiet_steps quiet_run_with_mem_cache)

lemma quiet_install_from_lockfile: "steps no_requests (install_from_lockfile W lf groups NetworkOffline)"
  unfolding install_from_lockfile_def install_frozen_lockfile_def create_virtual_store_def
  by (auto intro!: quiet_steps quiet_install_package split: option.split)

lemma quiet_install: "if_offline flags \<Longrightarrow> steps no_requests (install W M lockfile groups flags)"
  unfolding install_def install_packages_def
  by (auto intro!: quiet_steps quiet_install_from_lockfile split: option.split)

text \<open>An installation with \<^verbatim>\<open>--offline\<close> sends no request, whatever its other flags, the settings,
  the lockfile and the store are, and whether it succeeds or panics.\<close>

theorem offline_install_sends_no_request:
  assumes "if_offline flags"
  shows "w_requests (fst (install W M lockfile groups flags w)) = w_requests w"
  by (rule quiet_install [OF assms, unfolded steps_def no_requests_def, rule_format])

theorem offline_install_sends_no_request_witness:
  "w_requests (fst (install example_workspace project_manifest (Some locked_project) [Prod]
      (no_flags\<lparr>if_offline := True, if_frozen_lockfile := True\<rparr>) (world3 empty_fs) :: ver3 world \<times> (unit failure + unit))) = []"
  by (subst offline_install_sends_no_request) (simp_all add: world3_def)

section \<open>From a lockfile\<close>

text \<open>
  \<open>asks_once U\<close>: new requests are for URLs in \<open>U\<close>, none is repeated, and none is for a tarball that
  the memory knew before.
\<close>

definition asks_once :: "string set \<Rightarrow> 'v world \<Rightarrow> 'v world \<Rightarrow> bool" where
  "asks_once U w w' \<longleftrightarrow>
     (\<exists>us. w_requests w' = w_requests w @ us \<and> distinct us \<and> set us \<subseteq> U
        \<and> set us \<inter> dom (map_of (w_mem_cache w)) = {} \<and> set us \<subseteq> dom (map_of (w_mem_cache w')))
     \<and> dom (map_of (w_mem_cache w)) \<subseteq> dom (map_of (w_mem_cache w'))"

lemma asks_once_frame:
  "w_requests w' = w_requests w \<Longrightarrow> dom (map_of (w_mem_cache w)) \<subseteq> dom (map_of (w_mem_cache w')) \<Longrightarrow> asks_once U w w'"
  unfolding asks_once_def by auto

lemma asks_once_trans:
  assumes ab: "asks_once U a b" and bc: "asks_once U b c"
  shows "asks_once U a c"
proof -
  from ab obtain us where us: "w_requests b = w_requests a @ us" "distinct us" "set us \<subseteq> U"
    "set us \<inter> dom (map_of (w_mem_cache a)) = {}" "set us \<subseteq> dom (map_of (w_mem_cache b))"
    unfolding asks_once_def by blast
  from bc obtain vs where vs: "w_requests c = w_requests b @ vs" "distinct vs" "set vs \<subseteq> U"
    "set vs \<inter> dom (map_of (w_mem_cache b)) = {}" "set vs \<subseteq> dom (map_of (w_mem_cache c))"
    unfolding asks_once_def by blast
  have sub: "dom (map_of (w_mem_cache a)) \<subseteq> dom (map_of (w_mem_cache b))"
    "dom (map_of (w_mem_cache b)) \<subseteq> dom (map_of (w_mem_cache c))"
    using ab bc unfolding asks_once_def by blast+
  have "set vs \<inter> dom (map_of (w_mem_cache a)) = {}" "set us \<inter> set vs = {}" "set us \<subseteq> dom (map_of (w_mem_cache c))"
    using us(5) vs(4) sub by blast+
  with us vs have "w_requests c = w_requests a @ (us @ vs)" "distinct (us @ vs)" "set (us @ vs) \<subseteq> U"
    "set (us @ vs) \<inter> dom (map_of (w_mem_cache a)) = {}" "set (us @ vs) \<subseteq> dom (map_of (w_mem_cache c))"
    by (simp_all add: Int_Un_distrib2)
  then show ?thesis using sub unfolding asks_once_def by blast
qed

interpretation asking: state_order "asks_once U" for U
  by unfold_locales (auto intro: asks_once_frame asks_once_trans)

lemma asking_on_fs: "steps (asks_once U) (on_fs m)"
  by (auto simp: steps_def on_fs_world intro!: asks_once_frame)

lemmas asking_steps = asking.steps_intros asking.async_steps asking_on_fs

text \<open>Obtaining a tarball asks for its URL only.\<close>

lemma obtain_tarball_world:
  "w_mem_cache (fst (obtain_tarball L T N S i sz url mode w)) = w_mem_cache w
   \<and> w_requests (fst (obtain_tarball L T N S i sz url mode w)) \<in> {w_requests w, w_requests w @ [url]}"
  by (auto simp: obtain_tarball_def run_without_mem_cache_def act_simps http_get_def spawn_join_def on_fs_world
      split: sum.split option.split prod.split)

lemma asking_run_with_mem_cache:
  assumes "url \<in> U"
  shows "steps (asks_once U) (run_with_mem_cache L T N S i sz url mode)"
  unfolding steps_def
proof
  fix w :: "'a world"
  let ?w = "w\<lparr>w_mem_cache := AList.update url InProgress (w_mem_cache w)\<rparr>"
  obtain w1 r where ob: "obtain_tarball L T N S i sz url mode ?w = (w1, r)" by (cases "obtain_tarball L T N S i sz url mode ?w")
  from obtain_tarball_world [of L T N S i sz url mode ?w] have
    "w_mem_cache w1 = w_mem_cache ?w" "w_requests w1 \<in> {w_requests w, w_requests w @ [url]}" by (simp_all add: ob)
  with assms show "asks_once U w (fst (run_with_mem_cache L T N S i sz url mode w))"
    by (cases "map_of (w_mem_cache w) url")
       (auto simp: run_with_mem_cache_def act_simps set_cache_def ob asks_once_def update_conv'
          split: sum.split cache_value.split)
qed

text \<open>The URLs of the tarballs that a lockfile names.\<close>

definition lockfile_urls :: "('v, 'r) installer \<Rightarrow> 'v packages \<Rightarrow> string set" where
  "lockfile_urls I packages =
     {url. \<exists>(dp, sn) \<in> set packages. \<exists>i.
        (tarball_of_snapshot (i_extern I) (i_config I) dp sn :: install_package_by_snapshot_error failure + _) = Inr (url, i)}"

lemma asking_install_package:
  assumes "(dp, sn) \<in> set packages"
  shows "steps (asks_once (lockfile_urls I packages)) (install_package_by_snapshot I mode dp sn)"
proof (cases "tarball_of_snapshot (i_extern I) (i_config I) dp sn :: install_package_by_snapshot_error failure + _")
  case (Inl e)
  then show ?thesis
    by (simp add: install_package_by_snapshot_def steps_def act_simps asks_once_frame)
next
  case (Inr t)
  obtain url i where t: "t = (url, i)" by (cases t)
  have "url \<in> lockfile_urls I packages" using assms Inr by (auto simp: lockfile_urls_def t)
  then have "steps (asks_once (lockfile_urls I packages))
      (act_bind (act_map_err (map_failure_err DownloadTarball) (download I i None url mode)) (\<lambda>cas_paths.
       act_map_err (map_failure_err CreateVirtualDir)
         (on_fs (create_virtual_dir (i_extern I) (i_reflink I) (nc_virtual_store_dir (i_config I)) cas_paths
                   (nc_package_import_method (i_config I)) dp sn))))"
    by (intro asking_steps asking_run_with_mem_cache)
  with Inr t show ?thesis by (simp add: install_package_by_snapshot_def steps_def act_bind_def act_read_def)
qed

lemma asking_install_from_lockfile:
  "steps (asks_once (lockfile_urls (ws_installer W) (iter_opt (lf_packages lf)))) (install_from_lockfile W lf groups mode)"
proof -
  let ?U = "lockfile_urls (ws_installer W) (iter_opt (lf_packages lf))"
  have "steps (asks_once ?U) (install_package_by_snapshot (ws_installer W) mode (fst x) (snd x))"
    if "x \<in> set (iter_opt (lf_packages lf))" for x
    by (rule asking_install_package) (use that in simp)
  then have join: "steps (asks_once ?U) (act_join (\<lambda>(dependency_path, package_snapshot).
      act_expect msg (install_package_by_snapshot (ws_installer W) mode dependency_path package_snapshot)) packages)"
    if "lf_packages lf = Some packages" for packages msg
    using that by (auto simp: iter_opt_def intro!: asking.steps_join_on asking.steps_expect)
  have "steps (asks_once ?U) (create_virtual_store (ws_installer W) (lf_packages lf) mode)"
  proof (cases "lf_packages lf")
    case (Some packages)
    show ?thesis
      unfolding create_virtual_store_def Some option.case
      by (intro asking.steps_bind asking.steps_return join [OF Some, unfolded Some])
  qed (simp add: create_virtual_store_def asking.steps_throw)
  then show ?thesis
    unfolding install_from_lockfile_def install_frozen_lockfile_def
    by (auto intro!: asking.steps_bind asking.steps_throw asking_on_fs)
qed

text \<open>C25: Installing a lockfile, successful or not, requests only tarballs that the lockfile names,
  each at most once, and none that the process has asked for or loaded before, however many packages
  share a tarball and whatever the store holds.\<close>

theorem lockfile_install_downloads_once:
  "\<exists>urls. w_requests (fst (install_from_lockfile W lf groups mode w)) = w_requests w @ urls
     \<and> distinct urls \<and> set urls \<subseteq> lockfile_urls (ws_installer W) (iter_opt (lf_packages lf))
     \<and> set urls \<inter> dom (map_of (w_mem_cache w)) = {}"
  using asking_install_from_lockfile [of W lf groups mode, unfolded steps_def asks_once_def] by blast

end
