(* ===== verification/Cli_Requests.thy ===== *)
theory Cli_Requests
  imports Cli Install_Requests
begin

text \<open>
  What the commands of the command line may touch: which of them ask the network, and which only
  look.
\<close>

section \<open>Commands that stay off the network\<close>

fun may_use_network :: "cli_command \<Rightarrow> bool" where
  "may_use_network (Add _ _ _) = True"
| "may_use_network (InstallCommand _ flags) = (\<not> if_offline flags)"
| "may_use_network (FetchCommand _) = True"
| "may_use_network (RemoveCommand _ _) = True"
| "may_use_network (Update _ _ _) = True"
| "may_use_network (StoreCommand (StoreAdd _)) = True"
| "may_use_network _ = False"

lemma quiet_new_caches: "steps no_requests new_caches"
  by (simp add: steps_def no_requests_def new_caches_def)

lemma quiet_load_workspace: "steps no_requests (load_workspace C base_dir)"
  unfolding load_workspace_def by (rule quiet.steps_read)

lemma quiet_start_state: "steps no_requests (start_state C base_dir)"
  unfolding start_state_def init_state_def Let_def
  by (intro quiet_steps quiet_load_workspace quiet_new_caches)

lemma quiet_install_command:
  "if_offline flags \<Longrightarrow> steps no_requests (install_command W M lockfile opts flags)"
  unfolding install_command_def Let_def
  by (auto intro!: quiet_steps quiet_install)

lemma quiet_load_script: "steps no_requests (load_script C base_dir nm if_present)"
  unfolding load_script_def by (rule quiet.steps_read)

lemma quiet_run_script: "steps no_requests (run_script C base_dir nm args if_present)"
  unfolding run_script_def execute_def
  by (auto intro!: quiet_steps quiet_load_script split: option.split)

lemma quiet_store_command: "\<not> may_use_network (StoreCommand c) \<Longrightarrow> steps no_requests (store_command_run C base_dir c)"
  unfolding store_command_run_def Let_def
  by (cases c) (auto intro!: quiet_steps quiet_load_workspace)

lemma quiet_cli: "\<not> may_use_network command \<Longrightarrow> steps no_requests (cli_run C dir command)"
  unfolding cli_run_def cli_run_in_def test_command_def start_command_def exec_command_def execute_def
  by (cases command)
     (auto intro!: quiet_steps quiet_load_workspace quiet_start_state quiet_install_command quiet_load_script quiet_run_script
        quiet_store_command split: option.split list.split prod.split)

section \<open>Commands that only look\<close>

definition only_looks :: "cli_command \<Rightarrow> bool" where
  "only_looks command \<longleftrightarrow> command \<in> {Root, Bin, StoreCommand StorePath, StoreCommand StoreStatus}"

interpretation unchanged: state_order "\<lambda>w w' :: 'v world. w' = w"
  by unfold_locales simp_all

lemma unchanged_cli: "only_looks command \<Longrightarrow> steps (\<lambda>w w' :: 'v world. w' = w) (cli_run C dir command)"
  unfolding only_looks_def cli_run_def cli_run_in_def store_command_run_def load_workspace_def Let_def
  by (auto intro!: unchanged.steps_intros)

text \<open>C26: A command sends no request unless it is \<^verbatim>\<open>add\<close>, \<^verbatim>\<open>fetch\<close>, \<^verbatim>\<open>remove\<close>, \<^verbatim>\<open>update\<close>, \<^verbatim>\<open>store add\<close> or an
  \<^verbatim>\<open>install\<close> that is not \<^verbatim>\<open>--offline\<close>, and \<^verbatim>\<open>root\<close>, \<^verbatim>\<open>bin\<close>, \<^verbatim>\<open>store path\<close> and \<^verbatim>\<open>store status\<close> change
  nothing at all, whatever the project, the settings and the store are, and whether the command
  succeeds, fails or panics.\<close>

theorem commands_keep_to_themselves:
  "(\<not> may_use_network command \<longrightarrow> w_requests (fst (cli_run C dir command w)) = w_requests w)
   \<and> (only_looks command \<longrightarrow> fst (cli_run C dir command w) = w)"
  using quiet_cli [of command C dir] unchanged_cli [of command C dir]
  by (simp add: steps_def no_requests_def)

section \<open>An example\<close>

definition example_cli :: "(ver3, range3) cli" where
  "example_cli =
     \<lparr> cl_workspace = example_workspace, cl_ini = ini3, cl_environment = env3,
       cl_process = \<lparr> pl_path = Some ''/bin'', pl_spawn = \<lambda>_ F. Inr (F, Inr 0) \<rparr> \<rparr>"

theorem commands_keep_to_themselves_witness:
  "fst (cli_run example_cli [CurDir] (StoreCommand StorePath) (world3 empty_fs)) = world3 empty_fs
   \<and> w_requests (fst (cli_run example_cli [CurDir]
        (InstallCommand \<lparr> do_prod = True, do_dev = False, do_no_optional = False \<rparr> (no_flags\<lparr>if_offline := True\<rparr>)) (world3 empty_fs))) = []"
proof -
  have "only_looks (StoreCommand StorePath)"
    "\<not> may_use_network (InstallCommand \<lparr> do_prod = True, do_dev = False, do_no_optional = False \<rparr> (no_flags\<lparr>if_offline := True\<rparr>))"
    by (simp_all add: only_looks_def)
  moreover have "w_requests (world3 empty_fs) = []" by (simp add: world3_def)
  ultimately show ?thesis
    using commands_keep_to_themselves [of "StoreCommand StorePath" example_cli "[CurDir]" "world3 empty_fs"]
      commands_keep_to_themselves [of "InstallCommand \<lparr> do_prod = True, do_dev = False, do_no_optional = False \<rparr> (no_flags\<lparr>if_offline := True\<rparr>)"
        example_cli "[CurDir]" "world3 empty_fs"] by simp
qed

end
